(* ===== verification/Fusion_Prelude.thy ===== *)
theory Fusion_Prelude
  imports Main "HOL-Library.Word" "HOL-Library.Char_ord" "HOL-Library.List_Lexorder"
    "HOL-Library.Product_Lexorder" "HOL-Library.Multiset"
begin

text \<open>
  Shared vocabulary of the development: the machine integers of the source and the checked and
  saturating operations of the Rust standard library on them, results as sums
  (\<open>Inl\<close> an error, \<open>Inr\<close> a value), loops that stop at the first error, decimal printing and
  parsing, and the generic list lemmas the components share. Strings are \<open>char list\<close>s (bytes),
  which Rust's \<open>str\<close> order compares in the same lexicographic way as \<open>List_Lexorder\<close>.
\<close>

section \<open>Machine integers\<close>

type_synonym u16 = "16 word"
type_synonym u32 = "32 word"
type_synonym u64 = "64 word"
type_synonym uuid = "128 word"

named_theorems rust_arith \<open>values of the checked and saturating operations\<close>

definition checked_add :: "'a::len word \<Rightarrow> 'a word \<Rightarrow> 'a word option" where
  "checked_add a b = (if unat a + unat b < 2 ^ LENGTH('a) then Some (a + b) else None)"

definition checked_sub :: "'a::len word \<Rightarrow> 'a word \<Rightarrow> 'a word option" where
  "checked_sub a b = (if b \<le> a then Some (a - b) else None)"

definition checked_mul :: "'a::len word \<Rightarrow> 'a word \<Rightarrow> 'a word option" where
  "checked_mul a b = (if unat a * unat b < 2 ^ LENGTH('a) then Some (a * b) else None)"

definition saturating_add :: "'a::len word \<Rightarrow> 'a word \<Rightarrow> 'a word" where
  "saturating_add a b = (if unat a + unat b < 2 ^ LENGTH('a) then a + b else - 1)"

definition saturating_sub :: "'a::len word \<Rightarrow> 'a word \<Rightarrow> 'a word" where
  "saturating_sub a b = (if b \<le> a then a - b else 0)"

definition saturating_mul :: "'a::len word \<Rightarrow> 'a word \<Rightarrow> 'a word" where
  "saturating_mul a b = (if unat a * unat b < 2 ^ LENGTH('a) then a * b else - 1)"

definition clamp :: "'a::linorder \<Rightarrow> 'a \<Rightarrow> 'a \<Rightarrow> 'a" where
  "clamp x lo hi = max lo (min hi x)"

lemma unat_minus_one_max: "unat (- 1 :: 'a::len word) = 2 ^ LENGTH('a) - 1"
  by (simp add: unsigned_minus_1_eq_mask mask_eq_exp_minus_1)

lemma unat_saturating_add [rust_arith]:
  "unat (saturating_add a (b :: 'a::len word)) = min (unat a + unat b) (2 ^ LENGTH('a) - 1)"
  by (auto simp: saturating_add_def unat_minus_one_max unat_word_ariths)

lemma unat_saturating_sub [rust_arith]:
  "unat (saturating_sub a (b :: 'a::len word)) = unat a - unat b"
  by (auto simp: saturating_sub_def unat_sub word_le_nat_alt)

lemma unat_saturating_mul [rust_arith]:
  "unat (saturating_mul a (b :: 'a::len word)) = min (unat a * unat b) (2 ^ LENGTH('a) - 1)"
  by (auto simp: saturating_mul_def unat_minus_one_max unat_word_ariths)

lemma checked_add_Some_iff [rust_arith]:
  "checked_add a (b :: 'a::len word) = Some c \<longleftrightarrow> unat c = unat a + unat b"
proof
  assume "unat c = unat a + unat b"
  moreover have "unat c < 2 ^ LENGTH('a)" by (rule unsigned_less)
  ultimately show "checked_add a b = Some c"
    by (auto simp: checked_add_def unat_word_ariths intro!: word_unat_eq_iff [THEN iffD2])
qed (auto simp: checked_add_def unat_word_ariths split: if_splits)

lemma checked_add_None_iff [rust_arith]:
  "checked_add a (b :: 'a::len word) = None \<longleftrightarrow> 2 ^ LENGTH('a) \<le> unat a + unat b"
  by (auto simp: checked_add_def)

lemma checked_sub_Some_iff [rust_arith]:
  "checked_sub a (b :: 'a::len word) = Some c \<longleftrightarrow> unat a = unat c + unat b"
proof
  assume "unat a = unat c + unat b"
  then show "checked_sub a b = Some c"
    by (auto simp: checked_sub_def unat_sub word_le_nat_alt intro!: word_unat_eq_iff [THEN iffD2])
qed (auto simp: checked_sub_def unat_sub word_le_nat_alt split: if_splits)

lemma checked_mul_Some_iff [rust_arith]:
  "checked_mul a (b :: 'a::len word) = Some c \<longleftrightarrow> unat c = unat a * unat b"
proof
  assume "unat c = unat a * unat b"
  moreover have "unat c < 2 ^ LENGTH('a)" by (rule unsigned_less)
  ultimately show "checked_mul a b = Some c"
    by (auto simp: checked_mul_def unat_word_ariths intro!: word_unat_eq_iff [THEN iffD2])
qed (auto simp: checked_mul_def unat_word_ariths split: if_splits)

lemma unat_le_max: "unat (a :: 'a::len word) \<le> 2 ^ LENGTH('a) - 1"
  using unsigned_less [of a, where ?'a = nat] by linarith

lemma ex_unat: "n < 2 ^ LENGTH('a) \<Longrightarrow> \<exists>w :: 'a::len word. unat w = n"
  by (rule exI [of _ "word_of_nat n"]) (simp add: unat_of_nat)

lemma min_add_cap: "min (min x m + y) m = min (x + y) (m :: nat)" "min (x + min y m) m = min (x + y) m"
  by (simp_all add: min_def)

lemma saturating_add_comm: "saturating_add a b = saturating_add b (a :: 'a::len word)"
  by (rule word_unat_eq_iff [THEN iffD2]) (simp add: unat_saturating_add add.commute)

lemma saturating_add_assoc:
  "saturating_add (saturating_add a b) c = saturating_add a (saturating_add b (c :: 'a::len word))"
  by (rule word_unat_eq_iff [THEN iffD2]) (simp add: unat_saturating_add min_add_cap add.assoc)

lemma saturating_add_zero [simp]:
  "saturating_add a 0 = a" "saturating_add 0 a = (a :: 'a::len word)"
  by (simp_all add: saturating_add_def)

lemma saturating_add_ge: "a \<le> saturating_add a (b :: 'a::len word)"
  using unat_le_max [of a] by (simp add: word_le_nat_alt unat_saturating_add)

lemma unat_ucast_u32 [rust_arith]: "unat (ucast (x :: u32) :: u64) = unat x"
  using unsigned_less [of x, where ?'a = nat]
  by (simp add: unsigned_ucast_eq take_bit_nat_eq_self)

lemma clamp_bounds: "lo \<le> hi \<Longrightarrow> lo \<le> clamp x lo hi \<and> clamp x lo hi \<le> hi"
  by (auto simp: clamp_def)

lemma clamp_id: "lo \<le> x \<Longrightarrow> x \<le> hi \<Longrightarrow> clamp x lo hi = x"
  by (auto simp: clamp_def)

section \<open>Results and loops that stop at the first error\<close>

fun and_then :: "'e + 'a \<Rightarrow> ('a \<Rightarrow> 'e + 'b) \<Rightarrow> 'e + 'b" where
  "and_then (Inl e) f = Inl e"
| "and_then (Inr a) f = f a"

fun map_err :: "('e \<Rightarrow> 'f) \<Rightarrow> 'e + 'a \<Rightarrow> 'f + 'a" where
  "map_err g (Inl e) = Inl (g e)"
| "map_err g (Inr a) = Inr a"

fun ok_or :: "'e \<Rightarrow> 'a option \<Rightarrow> 'e + 'a" where
  "ok_or e None = Inl e"
| "ok_or e (Some a) = Inr a"

fun try_for :: "('x \<Rightarrow> 's \<Rightarrow> 'e + 's) \<Rightarrow> 'x list \<Rightarrow> 's \<Rightarrow> 'e + 's" where
  "try_for f [] s = Inr s"
| "try_for f (x # xs) s = and_then (f x s) (try_for f xs)"

definition is_ok :: "'e + 'a \<Rightarrow> bool" where
  "is_ok r = (case r of Inl _ \<Rightarrow> False | Inr _ \<Rightarrow> True)"

lemma is_ok_simps [simp]: "is_ok (Inr a)" "\<not> is_ok (Inl e)"
  by (simp_all add: is_ok_def)

lemma and_then_Inr_iff [simp]:
  "and_then r f = Inr b \<longleftrightarrow> (\<exists>a. r = Inr a \<and> f a = Inr b)"
  by (cases r) auto

lemma and_then_Inl_iff:
  "and_then r f = Inl e \<longleftrightarrow> r = Inl e \<or> (\<exists>a. r = Inr a \<and> f a = Inl e)"
  by (cases r) auto

lemma map_err_Inr_iff [simp]: "map_err g r = Inr a \<longleftrightarrow> r = Inr a"
  by (cases r) auto

lemma ok_or_Inr_iff [simp]: "ok_or e x = Inr a \<longleftrightarrow> x = Some a"
  by (cases x) auto

lemma try_for_append: "try_for f (xs @ ys) s = and_then (try_for f xs s) (try_for f ys)"
proof (induction xs arbitrary: s)
  case (Cons x xs)
  then show ?case by (cases "f x s") auto
qed simp

lemma try_for_invariant:
  assumes "try_for f xs s = Inr t" and "P s"
    and "\<And>x s t. x \<in> set xs \<Longrightarrow> f x s = Inr t \<Longrightarrow> P s \<Longrightarrow> P t"
  shows "P t"
  using assms
proof (induction xs arbitrary: s)
  case (Cons x xs)
  from Cons.prems(1) obtain u where u: "f x s = Inr u" "try_for f xs u = Inr t"
    by auto
  have "P u" using Cons.prems(3)[of x s u] u(1) Cons.prems(2) by simp
  moreover have "\<And>y s t. y \<in> set xs \<Longrightarrow> f y s = Inr t \<Longrightarrow> P s \<Longrightarrow> P t"
    using Cons.prems(3) by (meson list.set_intros(2))
  ultimately show ?case using Cons.IH [OF u(2)] by blast
qed simp

lemma try_for_check:
  "(try_for (\<lambda>x u. if c x then Inr u else Inl (e x)) xs u = Inr v) \<longleftrightarrow>
    v = u \<and> (\<forall>x \<in> set xs. c x)"
  by (induction xs arbitrary: u) auto

lemma try_for_unit:
  "try_for f xs () = Inr () \<longleftrightarrow> (\<forall>x \<in> set xs. f x () = Inr ())"
  by (induction xs) auto

lemma sort_key_determined:
  assumes "mset xs = mset ys" and "inj_on f (set xs)"
  shows "sort_key f xs = sort_key f ys"
  by (rule sort_key_inj_key_eq) (use assms in simp_all)

lemma acyclic_by_rank: "(\<And>x y. (x, y) \<in> R \<Longrightarrow> rank x < (rank y :: nat)) \<Longrightarrow> acyclic R"
  by (rule acyclic_converse [THEN iffD1], rule acyclicI_order [of _ rank]) auto

end
