(* ===== verification/Rust_Text.thy ===== *)
theory Rust_Text
  imports Fusion_Prelude
begin

text \<open>
  The text operations of the Rust standard library that the source uses: decimal printing
  (\<open>format!\<close>), \<open>str::parse::<u64>\<close>, \<open>split\<close>, \<open>trim\<close>, \<open>trim_end_matches\<close>, padding,
  prefix and suffix tests and substring search. Text is ASCII: \<open>trim\<close> removes the six ASCII
  white-space characters.
\<close>

section \<open>Decimal numerals\<close>

definition digit_char :: "nat \<Rightarrow> char" where
  "digit_char d = char_of (48 + d)"

definition is_ascii_digit :: "char \<Rightarrow> bool" where
  "is_ascii_digit c = (48 \<le> (of_char c :: nat) \<and> (of_char c :: nat) \<le> 57)"

definition digit_val :: "char \<Rightarrow> nat" where
  "digit_val c = of_char c - 48"

fun show_nat :: "nat \<Rightarrow> string" where
  "show_nat n = (if n < 10 then [digit_char n] else show_nat (n div 10) @ [digit_char (n mod 10)])"

declare show_nat.simps [simp del]

definition digits_value :: "string \<Rightarrow> nat" where
  "digits_value s = foldl (\<lambda>v c. 10 * v + digit_val c) 0 s"

definition parse_u64 :: "string \<Rightarrow> u64 option" where
  "parse_u64 s =
    (let ds = (case s of c # cs \<Rightarrow> if c = CHR ''+'' then cs else s | [] \<Rightarrow> [])
     in if ds \<noteq> [] \<and> list_all is_ascii_digit ds \<and> digits_value ds < 2 ^ 64
        then Some (of_nat (digits_value ds)) else None)"

lemma of_char_digit_char: "d < 10 \<Longrightarrow> (of_char (digit_char d) :: nat) = 48 + d"
  by (simp add: digit_char_def of_char_of take_bit_eq_mod)

lemma digit_char_digit [simp]: "d < 10 \<Longrightarrow> is_ascii_digit (digit_char d)"
  by (simp add: is_ascii_digit_def of_char_digit_char)

lemma digit_val_digit_char [simp]: "d < 10 \<Longrightarrow> digit_val (digit_char d) = d"
  by (simp add: digit_val_def of_char_digit_char)

lemma digits_value_snoc [simp]: "digits_value (s @ [c]) = 10 * digits_value s + digit_val c"
  by (simp add: digits_value_def)

lemma digits_value_Nil [simp]: "digits_value [] = 0"
  by (simp add: digits_value_def)

lemma digits_value_append:
  "digits_value (s @ t) = digits_value s * 10 ^ length t + digits_value t"
proof (induction t rule: rev_induct)
  case (snoc c t)
  then show ?case
    by (simp add: append_assoc [symmetric] algebra_simps del: append_assoc)
qed simp

lemma digit_val_zero [simp]: "digit_val (CHR ''0'') = 0"
  by (simp add: digit_val_def)

lemma digits_value_zeros [simp]: "digits_value (replicate k (CHR ''0'')) = 0"
  by (induction k) (auto simp: replicate_append_same [symmetric])

lemma show_nat_digits: "list_all is_ascii_digit (show_nat n)"
proof (induction n rule: show_nat.induct)
  case (1 n)
  then show ?case by (subst show_nat.simps) auto
qed

lemma show_nat_nonempty [simp]: "show_nat n \<noteq> []"
  by (subst show_nat.simps) simp

lemma digits_value_show_nat [simp]: "digits_value (show_nat n) = n"
proof (induction n rule: show_nat.induct)
  case (1 n)
  show ?case
  proof (cases "n < 10")
    case True
    then show ?thesis
      using digits_value_snoc [of "[]" "digit_char n"] by (subst show_nat.simps) simp
  next
    case False
    with 1 show ?thesis by (subst show_nat.simps) simp
  qed
qed

lemma length_show_nat: "n < 10 ^ k \<Longrightarrow> 0 < k \<Longrightarrow> length (show_nat n) \<le> k"
proof (induction k arbitrary: n)
  case (Suc k)
  show ?case
  proof (cases "n < 10")
    case True
    then show ?thesis by (subst show_nat.simps) simp
  next
    case False
    with Suc.prems have "0 < k" by (cases k) auto
    moreover have "n div 10 < 10 ^ k" using Suc.prems(1) by (simp add: less_mult_imp_div_less)
    ultimately have "length (show_nat (n div 10)) \<le> k" by (rule Suc.IH [rotated])
    with False show ?thesis by (subst show_nat.simps) simp
  qed
qed simp

lemma digit_not_special:
  assumes "is_ascii_digit c"
  shows "c \<noteq> CHR ''.''" "c \<noteq> CHR ''+''" "c \<noteq> CHR '' ''"
  using assms by (auto simp: is_ascii_digit_def)

lemma parse_u64_digits:
  assumes "ds \<noteq> []" "list_all is_ascii_digit ds" "digits_value ds < 2 ^ 64"
  shows "parse_u64 ds = Some (of_nat (digits_value ds))"
proof -
  obtain c cs where ds: "ds = c # cs" using assms(1) by (cases ds) auto
  with assms(2) have "c \<noteq> CHR ''+''" using digit_not_special by auto
  with ds assms show ?thesis by (simp add: parse_u64_def Let_def)
qed

section \<open>Trimming, padding and splitting\<close>

definition is_ws :: "char \<Rightarrow> bool" where
  "is_ws c = ((9 \<le> (of_char c :: nat) \<and> (of_char c :: nat) \<le> 13) \<or> c = CHR '' '')"

definition trim :: "string \<Rightarrow> string" where
  "trim s = rev (dropWhile is_ws (rev (dropWhile is_ws s)))"

definition trim_end_matches :: "char \<Rightarrow> string \<Rightarrow> string" where
  "trim_end_matches c s = rev (dropWhile ((=) c) (rev s))"

definition pad_right :: "nat \<Rightarrow> char \<Rightarrow> string \<Rightarrow> string" where
  "pad_right n c s = s @ replicate (n - length s) c"

definition pad_left :: "nat \<Rightarrow> char \<Rightarrow> string \<Rightarrow> string" where
  "pad_left n c s = replicate (n - length s) c @ s"

fun split_on :: "char \<Rightarrow> string \<Rightarrow> string list" where
  "split_on c [] = [[]]"
| "split_on c (x # xs) =
    (if x = c then [] # split_on c xs
     else (case split_on c xs of [] \<Rightarrow> [[x]] | y # ys \<Rightarrow> (x # y) # ys))"

lemma split_on_none: "c \<notin> set s \<Longrightarrow> split_on c s = [s]"
  by (induction s) auto

lemma split_on_first: "c \<notin> set s \<Longrightarrow> split_on c (s @ c # t) = s # split_on c t"
  by (induction s) auto

lemma trim_id:
  assumes "s \<noteq> []" "\<not> is_ws (hd s)" "\<not> is_ws (last s)"
  shows "trim s = s"
proof -
  have "dropWhile is_ws s = s" using assms by (cases s) auto
  moreover have "dropWhile is_ws (rev s) = rev s"
    using assms by (cases s rule: rev_cases) auto
  ultimately show ?thesis by (simp add: trim_def)
qed

lemma digit_not_ws: "is_ascii_digit c \<Longrightarrow> \<not> is_ws c"
  by (auto simp: is_ascii_digit_def is_ws_def)

lemma trim_end_matches_split:
  "s = trim_end_matches c s @ replicate (length s - length (trim_end_matches c s)) c"
proof -
  have *: "rev s = takeWhile ((=) c) (rev s) @ dropWhile ((=) c) (rev s)" by simp
  have "takeWhile ((=) c) (rev s) = replicate (length (takeWhile ((=) c) (rev s))) c"
    by (rule replicate_length_same [symmetric]) (auto dest: set_takeWhileD)
  then have r: "rev (takeWhile ((=) c) (rev s)) = replicate (length (takeWhile ((=) c) (rev s))) c"
    by (metis rev_replicate)
  have "s = rev (dropWhile ((=) c) (rev s)) @ rev (takeWhile ((=) c) (rev s))"
    by (metis * rev_append rev_rev_ident)
  moreover have "length (takeWhile ((=) c) (rev s)) = length s - length (trim_end_matches c s)"
    by (simp add: trim_end_matches_def) (metis add_diff_cancel_right' length_append length_rev *)
  ultimately show ?thesis using r by (simp add: trim_end_matches_def)
qed

lemma set_trim_end_matches: "set (trim_end_matches c s) \<subseteq> set s"
  by (auto simp: trim_end_matches_def dest: set_dropWhileD)

lemma length_trim_end_matches: "length (trim_end_matches c s) \<le> length s"
  by (metis length_append le_add1 trim_end_matches_split)

lemma pad_right_trim_end:
  assumes "length s = n" "length (trim_end_matches c s) \<le> k" "k \<le> n"
  shows "pad_right n c (pad_right k c (trim_end_matches c s)) = s"
proof -
  have "length (trim_end_matches c s) \<le> n" using assms by simp
  then show ?thesis
    using trim_end_matches_split [of s c] assms
    by (simp add: pad_right_def replicate_add [symmetric])
qed

lemma length_pad_left [simp]: "length (pad_left n c s) = max n (length s)"
  by (simp add: pad_left_def)

lemma digits_value_pad_left_zero [simp]: "digits_value (pad_left n (CHR ''0'') s) = digits_value s"
  by (simp add: pad_left_def digits_value_append)

section \<open>Prefixes, suffixes and substring search\<close>

fun strip_prefix :: "string \<Rightarrow> string \<Rightarrow> string option" where
  "strip_prefix [] s = Some s"
| "strip_prefix (p # ps) [] = None"
| "strip_prefix (p # ps) (x # xs) = (if p = x then strip_prefix ps xs else None)"

definition strip_suffix :: "string \<Rightarrow> string \<Rightarrow> string option" where
  "strip_suffix p s = map_option rev (strip_prefix (rev p) (rev s))"

definition starts_with :: "string \<Rightarrow> string \<Rightarrow> bool" where
  "starts_with s p = (strip_prefix p s \<noteq> None)"

definition ends_with :: "string \<Rightarrow> string \<Rightarrow> bool" where
  "ends_with s p = (strip_suffix p s \<noteq> None)"

fun find_after :: "string \<Rightarrow> string \<Rightarrow> string option" where
  \<comment> \<open>the text after the first occurrence: \<open>s.find(p).map(|i| &s[i + p.len()..])\<close>\<close>
  "find_after p [] = (if p = [] then Some [] else None)"
| "find_after p (x # xs) =
    (case strip_prefix p (x # xs) of Some r \<Rightarrow> Some r | None \<Rightarrow> find_after p xs)"

fun split_once :: "char \<Rightarrow> string \<Rightarrow> (string \<times> string) option" where
  "split_once c [] = None"
| "split_once c (x # xs) =
    (if x = c then Some ([], xs)
     else map_option (\<lambda>(a, b). (x # a, b)) (split_once c xs))"

lemma strip_prefix_iff [simp]: "strip_prefix p s = Some r \<longleftrightarrow> s = p @ r"
  by (induction p s rule: strip_prefix.induct) auto

lemma strip_suffix_iff [simp]: "strip_suffix p s = Some r \<longleftrightarrow> s = r @ p"
proof
  assume "strip_suffix p s = Some r"
  then obtain q where "rev s = rev p @ q" "r = rev q" by (auto simp: strip_suffix_def)
  then show "s = r @ p" by (metis rev_append rev_rev_ident)
qed (auto simp: strip_suffix_def)

lemma strip_prefix_append [simp]: "strip_prefix p (p @ r) = Some r"
  unfolding strip_prefix_iff ..

lemma strip_suffix_append [simp]: "strip_suffix p (r @ p) = Some r"
  unfolding strip_suffix_iff ..

lemma starts_with_iff: "starts_with s p \<longleftrightarrow> (\<exists>r. s = p @ r)"
  by (auto simp: starts_with_def)

lemma ends_with_iff: "ends_with s p \<longleftrightarrow> (\<exists>r. s = r @ p)"
  by (auto simp: ends_with_def)

lemma find_after_append [simp]: "find_after p (p @ r) = Some r"
proof (cases "p @ r")
  case (Cons x xs)
  have *: "strip_prefix p (x # xs) = Some r"
    unfolding strip_prefix_iff by (rule Cons [symmetric])
  show ?thesis
    unfolding Cons find_after.simps(2) * by simp
qed simp

lemma find_after_SomeD: "find_after p s = Some r \<Longrightarrow> \<exists>u. s = u @ p @ r"
proof (induction p s rule: find_after.induct)
  case (2 p x xs)
  then show ?case by (force split: option.splits)
qed (auto split: if_splits)

lemma find_after_None_iff: "find_after p s = None \<longleftrightarrow> (\<forall>u r. s \<noteq> u @ p @ r)"
proof (induction p s rule: find_after.induct)
  case (2 p x xs)
  show ?case
  proof
    assume "find_after p (x # xs) = None"
    then have a: "strip_prefix p (x # xs) = None" "find_after p xs = None"
      by (auto split: option.splits)
    with 2 have b: "\<forall>u r. xs \<noteq> u @ p @ r" by simp
    show "\<forall>u r. x # xs \<noteq> u @ p @ r"
    proof (intro allI notI)
      fix u r
      assume eq: "x # xs = u @ p @ r"
      show False
      proof (cases u)
        case Nil
        with eq have "strip_prefix p (x # xs) = Some r" by simp
        with a show False by simp
      next
        case (Cons y ys)
        with eq b show False by simp
      qed
    qed
  next
    assume h: "\<forall>u r. x # xs \<noteq> u @ p @ r"
    have "strip_prefix p (x # xs) = None"
      using h [rule_format, of "[]"] by (cases "strip_prefix p (x # xs)") auto
    moreover have "\<forall>u r. xs \<noteq> u @ p @ r"
      using h by (metis append_Cons)
    ultimately show "find_after p (x # xs) = None" using 2 by simp
  qed
qed auto

lemma split_once_Some_iff:
  "split_once c s = Some (a, b) \<longleftrightarrow> s = a @ c # b \<and> c \<notin> set a"
proof (induction s arbitrary: a)
  case (Cons x xs)
  show ?case
    by (cases a) (auto simp: Cons.IH)
qed simp

lemma split_once_None_iff: "split_once c s = None \<longleftrightarrow> c \<notin> set s"
  by (induction s) auto

lemma show_nat_inject [simp]: "show_nat a = show_nat b \<longleftrightarrow> a = b"
  by (metis digits_value_show_nat)

fun find_split :: "string \<Rightarrow> string \<Rightarrow> (string \<times> string) option" where
  \<comment> \<open>the text before and after the first occurrence: \<open>s.find(p).map(|i| (&s[..i], &s[i + p.len()..]))\<close>\<close>
  "find_split p [] = (if p = [] then Some ([], []) else None)"
| "find_split p (x # xs) =
    (case strip_prefix p (x # xs) of
       Some r \<Rightarrow> Some ([], r)
     | None \<Rightarrow> map_option (\<lambda>(a, b). (x # a, b)) (find_split p xs))"

definition occurs :: "string \<Rightarrow> string \<Rightarrow> bool" where
  "occurs p s \<longleftrightarrow> (\<exists>u r. s = u @ p @ r)"

lemma find_split_None_iff: "find_split p s = None \<longleftrightarrow> \<not> occurs p s"
proof -
  have "find_split p s = None \<longleftrightarrow> find_after p s = None"
    by (induction p s rule: find_split.induct) (auto split: option.splits)
  then show ?thesis by (auto simp: find_after_None_iff occurs_def)
qed

lemma strip_prefix_None_iff: "strip_prefix p s = None \<longleftrightarrow> (\<forall>r. s \<noteq> p @ r)"
  by (cases "strip_prefix p s") auto

lemma find_split_Some_iff:
  "find_split p s = Some (a, b) \<longleftrightarrow> s = a @ p @ b \<and> (\<forall>u r. s = u @ p @ r \<longrightarrow> length a \<le> length u)"
proof (induction p s arbitrary: a rule: find_split.induct)
  case (2 p x xs)
  show ?case
  proof (cases "strip_prefix p (x # xs)")
    case (Some r)
    then have r: "x # xs = p @ r" by simp
    show ?thesis
    proof
      assume "find_split p (x # xs) = Some (a, b)"
      then have "a = []" "b = r" using Some by simp_all
      then show "x # xs = a @ p @ b \<and> (\<forall>u r. x # xs = u @ p @ r \<longrightarrow> length a \<le> length u)"
        using r by simp
    next
      assume h: "x # xs = a @ p @ b \<and> (\<forall>u r. x # xs = u @ p @ r \<longrightarrow> length a \<le> length u)"
      then have "a = []" using r by (metis append_Nil le_zero_eq length_0_conv list.size(3))
      moreover from this have "b = r" using h r by simp
      ultimately show "find_split p (x # xs) = Some (a, b)"
        by (simp only: find_split.simps(2) Some option.case)
    qed
  next
    case None
    then have n: "x # xs \<noteq> p @ r" for r by (simp add: strip_prefix_None_iff)
    have step: "(\<forall>u r. x # xs = u @ p @ r \<longrightarrow> length (x # c) \<le> length u) \<longleftrightarrow>
        (\<forall>u r. xs = u @ p @ r \<longrightarrow> length c \<le> length u)" for c
      using n by (auto simp: Cons_eq_append_conv) (metis append_Cons length_Cons Suc_le_mono)+
    show ?thesis
    proof (cases a)
      case Nil
      then show ?thesis using None n by auto
    next
      case (Cons y c)
      then show ?thesis using None "2.IH" [OF None, of c] step [of c] by auto
    qed
  qed
qed auto

definition to_ascii_lowercase :: "string \<Rightarrow> string" where
  "to_ascii_lowercase = map (\<lambda>c. if CHR ''A'' \<le> c \<and> c \<le> CHR ''Z'' then char_of (of_char c + 32 :: nat) else c)"

definition eq_ignore_ascii_case :: "string \<Rightarrow> string \<Rightarrow> bool" where
  "eq_ignore_ascii_case s t \<longleftrightarrow> to_ascii_lowercase s = to_ascii_lowercase t"

end
