(* ===== verification/Monetary.thy ===== *)
theory Monetary
  imports Rust_Text
begin

text \<open>
  \<open>crates/fusion-core/src/monetary.rs\<close>: the exact money type \<open>NanoUSD\<close> (a 64-bit count of
  nano-dollars), its checked, saturating and operator arithmetic, the integer cases of its
  deserializer, and the decimal parser and printer. Error strings are modelled by one constructor
  per message. The \<open>f64\<close> conversions are not modelled.
\<close>

section \<open>The type and its order\<close>

datatype nano_usd = NanoUSD (as_nanos: u64)

instantiation nano_usd :: linorder
begin

definition less_eq_nano_usd :: "nano_usd \<Rightarrow> nano_usd \<Rightarrow> bool" where
  "less_eq_nano_usd a b = (as_nanos a \<le> as_nanos b)"

definition less_nano_usd :: "nano_usd \<Rightarrow> nano_usd \<Rightarrow> bool" where
  "less_nano_usd a b = (as_nanos a < as_nanos b)"

instance
  by intro_classes (auto simp: less_eq_nano_usd_def less_nano_usd_def nano_usd.expand)

end

lemma nano_usd_eq_iff: "a = b \<longleftrightarrow> unat (as_nanos a) = unat (as_nanos b)"
  by (cases a; cases b) (simp add: word_unat_eq_iff)

section \<open>Constants and arithmetic\<close>

definition nano_ZERO :: nano_usd where
  "nano_ZERO = NanoUSD 0"

definition nano_ONE_MICRO :: nano_usd where
  "nano_ONE_MICRO = NanoUSD 1000"

definition nano_ONE_CENT :: nano_usd where
  "nano_ONE_CENT = NanoUSD 10000000"

definition nano_ONE_DOLLAR :: nano_usd where
  "nano_ONE_DOLLAR = NanoUSD 1000000000"

definition from_nanos :: "u64 \<Rightarrow> nano_usd" where
  "from_nanos n = NanoUSD n"

definition from_micros :: "u64 \<Rightarrow> nano_usd option" where
  "from_micros m = map_option NanoUSD (checked_mul m 1000)"

definition as_micros :: "nano_usd \<Rightarrow> u64" where
  "as_micros a = as_nanos a div 1000"

definition nano_checked_add :: "nano_usd \<Rightarrow> nano_usd \<Rightarrow> nano_usd option" where
  "nano_checked_add a b = map_option NanoUSD (checked_add (as_nanos a) (as_nanos b))"

definition nano_saturating_add :: "nano_usd \<Rightarrow> nano_usd \<Rightarrow> nano_usd" where
  "nano_saturating_add a b = NanoUSD (saturating_add (as_nanos a) (as_nanos b))"

definition nano_checked_sub :: "nano_usd \<Rightarrow> nano_usd \<Rightarrow> nano_usd option" where
  "nano_checked_sub a b = map_option NanoUSD (checked_sub (as_nanos a) (as_nanos b))"

definition nano_saturating_sub :: "nano_usd \<Rightarrow> nano_usd \<Rightarrow> nano_usd" where
  "nano_saturating_sub a b = NanoUSD (saturating_sub (as_nanos a) (as_nanos b))"

definition nano_checked_mul :: "nano_usd \<Rightarrow> u64 \<Rightarrow> nano_usd option" where
  "nano_checked_mul a k = map_option NanoUSD (checked_mul (as_nanos a) k)"

definition nano_saturating_mul :: "nano_usd \<Rightarrow> u64 \<Rightarrow> nano_usd" where
  "nano_saturating_mul a k = NanoUSD (saturating_mul (as_nanos a) k)"

text \<open>The operators \<open>+\<close> and \<open>-\<close> log a warning when the checked operation fails and saturate.\<close>

datatype money_event = OverflowClamped u64 u64 | UnderflowClamped u64 u64

definition nano_add :: "nano_usd \<Rightarrow> nano_usd \<Rightarrow> money_event list \<times> nano_usd" where
  "nano_add a b =
    ((if nano_checked_add a b = None then [OverflowClamped (as_nanos a) (as_nanos b)] else []),
     nano_saturating_add a b)"

definition nano_sub :: "nano_usd \<Rightarrow> nano_usd \<Rightarrow> money_event list \<times> nano_usd" where
  "nano_sub a b =
    ((if nano_checked_sub a b = None then [UnderflowClamped (as_nanos a) (as_nanos b)] else []),
     nano_saturating_sub a b)"

section \<open>Deserialization of integers\<close>

datatype visit_error = NegativeNano int | NanoOverflow int | NegativeOrOverflowing int

definition visit_u64 :: "u64 \<Rightarrow> visit_error + nano_usd" where
  "visit_u64 v = Inr (NanoUSD v)"

definition visit_i64 :: "int \<Rightarrow> visit_error + nano_usd" where
  "visit_i64 v = (if v < 0 then Inl (NegativeNano v) else Inr (NanoUSD (of_int v)))"

definition visit_u128 :: "int \<Rightarrow> visit_error + nano_usd" where
  "visit_u128 v =
    (if 0 \<le> v \<and> v < 2 ^ 64 then Inr (NanoUSD (of_int v)) else Inl (NanoOverflow v))"

definition visit_i128 :: "int \<Rightarrow> visit_error + nano_usd" where
  "visit_i128 v =
    (if 0 \<le> v \<and> v < 2 ^ 64 then Inr (NanoUSD (of_int v)) else Inl (NegativeOrOverflowing v))"

section \<open>Decimal text\<close>

datatype usd_parse_error =
    EmptyString
  | MultipleDecimalPoints
  | InvalidIntegerPart
  | PrecisionExceeded string
  | InvalidFractionCharacters
  | InvalidFractionalPart
  | OverflowConverting

definition checked_from_decimal_usd :: "string \<Rightarrow> usd_parse_error + nano_usd" where
  "checked_from_decimal_usd usd_str =
    (let s = trim usd_str in
     if s = [] then Inl EmptyString
     else
      (let parts = split_on (CHR ''.'') s in
       if 2 < length parts then Inl MultipleDecimalPoints
       else
        (let dollars_str = parts ! 0 in
         and_then
          (if dollars_str = [] then Inr 0 else ok_or InvalidIntegerPart (parse_u64 dollars_str))
          (\<lambda>dollars.
            and_then
             (if length parts = 2 then
                (let frac_str = parts ! 1 in
                 if 9 < length frac_str then Inl (PrecisionExceeded frac_str)
                 else if \<not> list_all is_ascii_digit frac_str then Inl InvalidFractionCharacters
                 else ok_or InvalidFractionalPart (parse_u64 (pad_right 9 (CHR ''0'') frac_str)))
              else Inr 0)
             (\<lambda>nanos_from_frac.
               map_err (\<lambda>_. OverflowConverting)
                (ok_or ()
                  (map_option NanoUSD
                    (Option.bind (checked_mul dollars 1000000000)
                      (\<lambda>d_nanos. checked_add d_nanos nanos_from_frac)))))))))"

definition to_decimal_usd :: "nano_usd \<Rightarrow> string" where
  "to_decimal_usd a =
    (let dollars = as_nanos a div 1000000000;
         nanos = as_nanos a mod 1000000000
     in if nanos = 0 then show_nat (unat dollars) @ ''.00''
        else
          (let s = pad_left 9 (CHR ''0'') (show_nat (unat nanos));
               trimmed = trim_end_matches (CHR ''0'') s;
               frac = (if length trimmed < 2 then pad_right 2 (CHR ''0'') trimmed else trimmed)
           in show_nat (unat dollars) @ ''.'' @ frac))"

definition nano_display :: "nano_usd \<Rightarrow> string" where
  "nano_display a = ''$'' @ to_decimal_usd a"

section \<open>Arithmetic is exact or saturates\<close>

lemma as_nanos_from_nanos [simp]: "as_nanos (from_nanos n) = n"
  by (simp add: from_nanos_def)

lemma unat_nano_saturating_add:
  "unat (as_nanos (nano_saturating_add a b)) =
    min (unat (as_nanos a) + unat (as_nanos b)) (2 ^ 64 - 1)"
  by (simp add: nano_saturating_add_def unat_saturating_add)

lemma unat_nano_saturating_sub:
  "unat (as_nanos (nano_saturating_sub a b)) = unat (as_nanos a) - unat (as_nanos b)"
  by (simp add: nano_saturating_sub_def unat_saturating_sub)

lemma nano_checked_add_iff:
  "nano_checked_add a b = Some c \<longleftrightarrow> unat (as_nanos c) = unat (as_nanos a) + unat (as_nanos b)"
  by (cases c) (auto simp: nano_checked_add_def checked_add_Some_iff)

lemma nano_checked_sub_iff:
  "nano_checked_sub a b = Some c \<longleftrightarrow> unat (as_nanos a) = unat (as_nanos c) + unat (as_nanos b)"
  by (cases c) (auto simp: nano_checked_sub_def checked_sub_Some_iff)

section \<open>The decimal round trip\<close>

lemma parse_split_usd:
  assumes "list_all is_ascii_digit d" "d \<noteq> []" "list_all is_ascii_digit f" "f \<noteq> []" "length f \<le> 9"
    and "digits_value d < 2 ^ 64"
    and "digits_value d * 1000000000 + digits_value (pad_right 9 (CHR ''0'') f) = unat n"
  shows "checked_from_decimal_usd (d @ ''.'' @ f) = Inr (NanoUSD n)"
proof -
  let ?s = "d @ ''.'' @ f"
  let ?p = "pad_right 9 (CHR ''0'') f"
  have nd: "CHR ''.'' \<notin> set d" "CHR ''.'' \<notin> set f"
    using assms(1,3) digit_not_special(1) by (auto simp: list_all_iff)
  have parts: "split_on (CHR ''.'') ?s = [d, f]"
    using nd by (simp add: split_on_first split_on_none)
  have "is_ascii_digit (hd d)" "is_ascii_digit (last f)"
    using assms(1-4) by (simp_all add: list_all_iff)
  then have trim: "trim ?s = ?s"
    using assms(2,4) digit_not_ws by (intro trim_id) auto
  have n: "unat n < 2 ^ 64" using unsigned_less [of n] by simp
  have pd: "list_all is_ascii_digit ?p" "?p \<noteq> []"
    using assms(3,4) by (auto simp: pad_right_def list_all_iff is_ascii_digit_def)
  have v: "parse_u64 d = Some (of_nat (digits_value d))"
    "parse_u64 ?p = Some (of_nat (digits_value ?p))"
    using parse_u64_digits assms n pd by simp_all
  have un: "unat (of_nat (digits_value d) :: u64) = digits_value d"
    "unat (of_nat (digits_value ?p) :: u64) = digits_value ?p"
    using assms(6,7) n by (simp_all add: unat_of_nat)
  have "digits_value d * 1000000000 < 2 ^ LENGTH(64)" using assms(7) n by simp
  from ex_unat [OF this] obtain m :: u64 where um: "unat m = digits_value d * 1000000000" ..
  have "checked_mul (of_nat (digits_value d) :: u64) 1000000000 = Some m"
    using um un by (simp add: checked_mul_Some_iff)
  moreover have "checked_add m (of_nat (digits_value ?p)) = Some n"
    using um un assms(7) by (simp add: checked_add_Some_iff)
  ultimately show ?thesis
    using parts trim v assms(2,3,5)
    by (simp add: checked_from_decimal_usd_def Let_def)
qed

lemma to_decimal_usd_parts:
  obtains d f where "to_decimal_usd (NanoUSD n) = d @ ''.'' @ f"
    and "list_all is_ascii_digit d" "d \<noteq> []" "list_all is_ascii_digit f" "f \<noteq> []" "length f \<le> 9"
    and "digits_value d = unat n div 1000000000"
    and "digits_value (pad_right 9 (CHR ''0'') f) = unat n mod 1000000000"
proof -
  let ?d = "show_nat (unat (n div 1000000000))"
  have ud: "unat (n div 1000000000) = unat n div 1000000000"
    "unat (n mod 1000000000) = unat n mod 1000000000"
    by (simp_all add: unat_div unat_mod)
  show ?thesis
  proof (cases "n mod 1000000000 = 0")
    case True
    then have z: "unat n mod 1000000000 = 0" using ud(2) by simp
    have v: "digits_value (pad_right 9 (CHR ''0'') ''00'') = 0"
      using digits_value_zeros [of 9] by (simp add: pad_right_def numeral_eq_Suc)
    from True have "to_decimal_usd (NanoUSD n) = ?d @ ''.'' @ ''00''"
      by (simp add: to_decimal_usd_def)
    then show ?thesis
      by (rule that) (simp_all add: show_nat_digits ud z v is_ascii_digit_def)
  next
    case False
    let ?r = "unat n mod 1000000000"
    let ?s = "pad_left 9 (CHR ''0'') (show_nat ?r)"
    let ?t = "trim_end_matches (CHR ''0'') ?s"
    let ?f = "if length ?t < 2 then pad_right 2 (CHR ''0'') ?t else ?t"
    have len: "length ?s = 9"
      using length_show_nat [of ?r 9] by simp
    have lt: "length ?t \<le> 9" using length_trim_end_matches [of "CHR ''0''" ?s] len by simp
    have f: "?f = pad_right (max 2 (length ?t)) (CHR ''0'') ?t" by (simp add: pad_right_def)
    have dig: "list_all is_ascii_digit ?s"
      using show_nat_digits [of ?r] by (auto simp: pad_left_def list_all_iff is_ascii_digit_def)
    have "to_decimal_usd (NanoUSD n) = ?d @ ''.'' @ ?f"
      using False by (simp add: to_decimal_usd_def Let_def ud)
    then show ?thesis
    proof (rule that)
      show "list_all is_ascii_digit ?f"
        using dig set_trim_end_matches [of "CHR ''0''" ?s]
        by (auto simp: pad_right_def list_all_iff is_ascii_digit_def)
      show "?f \<noteq> []" unfolding f by (auto simp: pad_right_def)
      show "length ?f \<le> 9" using lt by (simp add: pad_right_def)
      have "pad_right 9 (CHR ''0'') ?f = ?s"
        unfolding f using len lt by (intro pad_right_trim_end) auto
      then show "digits_value (pad_right 9 (CHR ''0'') ?f) = ?r" by simp
    qed (simp_all add: show_nat_digits ud)
  qed
qed

text \<open>C35. Decimal money text is lossless: parsing what \<open>to_decimal_usd\<close> prints gives the amount
  back, for every one of the 2^64 amounts.\<close>

theorem decimal_usd_round_trip: "checked_from_decimal_usd (to_decimal_usd a) = Inr a"
proof -
  obtain n where a: "a = NanoUSD n" by (cases a)
  obtain d f where p: "to_decimal_usd (NanoUSD n) = d @ ''.'' @ f"
    "list_all is_ascii_digit d" "d \<noteq> []" "list_all is_ascii_digit f" "f \<noteq> []" "length f \<le> 9"
    "digits_value d = unat n div 1000000000"
    "digits_value (pad_right 9 (CHR ''0'') f) = unat n mod 1000000000"
    by (rule to_decimal_usd_parts)
  have "unat n div 1000000000 \<le> unat n" by simp
  also have "unat n < 2 ^ 64" using unsigned_less [of n] by simp
  finally have "digits_value d < 2 ^ 64" using p by simp
  then show ?thesis
    unfolding a p(1) using p by (intro parse_split_usd) simp_all
qed

end
