(* ===== verification/Interleaving.thy ===== *)
theory Interleaving
  imports Fusion_Prelude
begin

text \<open>
  Interleavings of callers over a shared state, and the protocol "commit the amount on a
  saturating counter, read the counter back, accept or reject" (locale \<open>commit_check\<close>).
  A caller moves by one atomic access at a time; \<open>interleave_step\<close> lets any caller move next.
\<close>

section \<open>Free interleaving of atomic accesses\<close>

inductive interleave_step ::
  "('e \<Rightarrow> 'c \<Rightarrow> ('e \<times> 'c) option) \<Rightarrow> 'e \<times> 'c list \<Rightarrow> 'e \<times> 'c list \<Rightarrow> bool"
  for step where
  caller_moves: "i < length cs \<Longrightarrow> step e (cs ! i) = Some (e', c') \<Longrightarrow>
    interleave_step step (e, cs) (e', cs[i := c'])"

inductive_cases interleave_stepE: "interleave_step step (e, cs) s'"

abbreviation interleave_steps ::
  "('e \<Rightarrow> 'c \<Rightarrow> ('e \<times> 'c) option) \<Rightarrow> 'e \<times> 'c list \<Rightarrow> 'e \<times> 'c list \<Rightarrow> bool" where
  "interleave_steps step \<equiv> (interleave_step step)\<^sup>*\<^sup>*"

lemma interleave_invariant:
  assumes "interleave_steps step s s'" and "Inv s"
    and "\<And>e cs i e' c'. Inv (e, cs) \<Longrightarrow> i < length cs \<Longrightarrow> step e (cs ! i) = Some (e', c') \<Longrightarrow>
      Inv (e', cs[i := c'])"
  shows "Inv s'"
  using assms(1,2)
proof (induction rule: rtranclp_induct)
  case (step y z)
  then show ?case
    by (cases y) (auto elim!: interleave_stepE intro: assms(3))
qed auto

fun run_schedule ::
  "('e \<Rightarrow> 'c \<Rightarrow> ('e \<times> 'c) option) \<Rightarrow> nat list \<Rightarrow> 'e \<times> 'c list \<Rightarrow> 'e \<times> 'c list" where
  "run_schedule step [] s = s"
| "run_schedule step (i # is) s =
    (if i < length (snd s) then (case step (fst s) (snd s ! i) of
       None \<Rightarrow> s | Some (e', c') \<Rightarrow> run_schedule step is (e', (snd s)[i := c'])) else s)"

lemma run_schedule_steps: "interleave_steps step s (run_schedule step is s)"
proof (induction "is" arbitrary: s)
  case (Cons i "is")
  obtain e cs where s: "s = (e, cs)" by (cases s)
  show ?case
  proof (cases "i < length cs \<and> step e (cs ! i) \<noteq> None")
    case True
    then obtain e' c' where m: "i < length cs" "step e (cs ! i) = Some (e', c')"
      by auto
    then have "interleave_step step (e, cs) (e', cs[i := c'])"
      by (rule interleave_step.caller_moves)
    from converse_rtranclp_into_rtranclp [OF this Cons.IH] m show ?thesis
      by (simp add: s)
  qed (auto simp: s split: option.splits)
qed simp

lemma sum_list_update_nat:
  "i < length xs \<Longrightarrow>
    sum_list (map f (xs[i := x])) + (f (xs ! i) :: nat) = sum_list (map f xs) + f x"
  by (induction xs arbitrary: i) (auto simp: less_Suc_eq_0_disj)

section \<open>Commit first, check afterwards\<close>

datatype commit_phase = Uncommitted | Committed u64 | Accepted | Rejected

locale commit_check =
  fixes step :: "'e \<Rightarrow> 'c \<Rightarrow> ('e \<times> 'c) option"
    and counter :: "'e \<Rightarrow> u64"
    and limit :: "'e \<Rightarrow> u64"
    and amount :: "'c \<Rightarrow> u64"
    and phase :: "u64 \<Rightarrow> 'c \<Rightarrow> commit_phase"
  assumes limit_kept: "step e c = Some (e', c') \<Longrightarrow> limit e' = limit e"
    and amount_kept: "step e c = Some (e', c') \<Longrightarrow> amount c' = amount c"
    and counter_moves: "step e c = Some (e', c') \<Longrightarrow>
      counter e' = (if phase (limit e) c = Uncommitted \<and> phase (limit e) c' \<noteq> Uncommitted
                    then saturating_add (counter e) (amount c) else counter e)"
    and commit_remembers: "step e c = Some (e', c') \<Longrightarrow> phase (limit e) c = Uncommitted \<Longrightarrow>
      phase (limit e) c' = Uncommitted \<or> phase (limit e) c' = Committed (counter e)"
    and check_is_sound: "step e c = Some (e', c') \<Longrightarrow> phase (limit e) c = Committed p \<Longrightarrow>
      saturating_add p (amount c) \<le> counter e \<Longrightarrow>
      phase (limit e) c' = Committed p \<or> phase (limit e) c' = Rejected \<or>
      phase (limit e) c' = Accepted \<and> unat p + unat (amount c) \<le> unat (limit e)"
    and accepted_moves: "step e c = Some (e', c') \<Longrightarrow> phase (limit e) c = Accepted \<Longrightarrow>
      phase (limit e) c' = Accepted \<or> phase (limit e) c' = Rejected"
    and rejected_stays: "step e c = Some (e', c') \<Longrightarrow> phase (limit e) c = Rejected \<Longrightarrow>
      phase (limit e) c' = Rejected"
begin

definition booked :: "u64 \<Rightarrow> 'c \<Rightarrow> nat" where
  "booked lim c = (if phase lim c = Uncommitted then 0 else unat (amount c))"

definition total :: "u64 \<Rightarrow> nat \<Rightarrow> 'c list \<Rightarrow> nat" where
  "total lim base cs = base + sum_list (map (booked lim) cs)"

definition doomed :: "u64 \<Rightarrow> 'c \<Rightarrow> bool" where
  "doomed lim c = (case phase lim c of
     Committed p \<Rightarrow> unat lim < unat p + unat (amount c) | Rejected \<Rightarrow> True | _ \<Rightarrow> False)"

definition exact :: "u64 \<Rightarrow> nat \<Rightarrow> 'e \<times> 'c list \<Rightarrow> bool" where
  "exact lim base s \<longleftrightarrow> limit (fst s) = lim \<and>
     unat (counter (fst s)) = min (total lim base (snd s)) (2 ^ 64 - 1)"

definition visible :: "u64 \<Rightarrow> 'e \<times> 'c list \<Rightarrow> bool" where
  "visible lim s \<longleftrightarrow> (\<forall>c\<in>set (snd s). \<forall>p. phase lim c = Committed p \<longrightarrow>
     saturating_add p (amount c) \<le> counter (fst s))"

definition guarded :: "u64 \<Rightarrow> nat \<Rightarrow> 'e \<times> 'c list \<Rightarrow> bool" where
  "guarded lim base s \<longleftrightarrow> (unat lim < total lim base (snd s) \<longrightarrow> (\<exists>c\<in>set (snd s). doomed lim c))"

lemma booked_step:
  assumes "step e c = Some (e', c')" and "\<And>p. phase (limit e) c = Committed p \<Longrightarrow>
      saturating_add p (amount c) \<le> counter e"
  shows "booked (limit e) c' = booked (limit e) c +
    (if phase (limit e) c = Uncommitted \<and> phase (limit e) c' \<noteq> Uncommitted
     then unat (amount c) else 0)"
  using assms check_is_sound accepted_moves rejected_stays amount_kept
  by (cases "phase (limit e) c") (fastforce simp: booked_def)+

lemma total_step:
  assumes "step e (cs ! i) = Some (e', c')" and "i < length cs" and "visible (limit e) (e, cs)"
  shows "total (limit e) base (cs[i := c']) = total (limit e) base cs +
    (if phase (limit e) (cs ! i) = Uncommitted \<and> phase (limit e) c' \<noteq> Uncommitted
     then unat (amount (cs ! i)) else 0)"
  using booked_step [OF assms(1)] assms sum_list_update_nat [OF assms(2), of "booked (limit e)" c']
  by (auto simp: total_def visible_def)

lemma counter_grows: "step e c = Some (e', c') \<Longrightarrow> counter e \<le> counter e'"
  using counter_moves saturating_add_ge by auto

lemma exact_step:
  assumes "exact lim base (e, cs)" and "visible lim (e, cs)"
    and "i < length cs" and "step e (cs ! i) = Some (e', c')"
  shows "exact lim base (e', cs[i := c'])"
  using assms total_step [of e cs i e' c' base] counter_moves [OF assms(4)] limit_kept [OF assms(4)]
  by (auto simp: exact_def unat_saturating_add)

lemma visible_step:
  assumes "limit e = lim" and "visible lim (e, cs)"
    and "i < length cs" and "step e (cs ! i) = Some (e', c')"
  shows "visible lim (e', cs[i := c'])"
  unfolding visible_def
proof (intro ballI allI impI)
  fix c p
  assume "c \<in> set (snd (e', cs[i := c']))" and p: "phase lim c = Committed p"
  then consider "c \<in> set cs" | "c = c'"
    by (auto dest: set_update_subset_insert [THEN subsetD])
  then show "saturating_add p (amount c) \<le> counter (fst (e', cs[i := c']))"
  proof cases
    case 1
    then show ?thesis
      using assms(2) p counter_grows [OF assms(4)] by (force simp: visible_def intro: order_trans)
  next
    case 2
    show ?thesis
    proof (cases "phase lim (cs ! i)")
      case Uncommitted
      then show ?thesis
        using 2 p assms(1) commit_remembers [OF assms(4)] counter_moves [OF assms(4)]
          amount_kept [OF assms(4)] by auto
    next
      case (Committed q)
      have "saturating_add q (amount (cs ! i)) \<le> counter e"
        using assms(2,3) Committed by (auto simp: visible_def)
      then show ?thesis
        using 2 p assms(1) Committed check_is_sound [OF assms(4)] counter_grows [OF assms(4)]
          amount_kept [OF assms(4)] by (fastforce intro: order_trans)
    qed (use 2 p assms(1) accepted_moves [OF assms(4)] rejected_stays [OF assms(4)] in auto)
  qed
qed

lemma doomed_step:
  assumes "step e c = Some (e', c')" and "doomed (limit e) c"
    and "\<And>p. phase (limit e) c = Committed p \<Longrightarrow> saturating_add p (amount c) \<le> counter e"
  shows "doomed (limit e) c'"
  using assms check_is_sound [OF assms(1)] rejected_stays [OF assms(1)] amount_kept [OF assms(1)]
  by (cases "phase (limit e) c") (fastforce simp: doomed_def)+

lemma guarded_step:
  assumes "exact lim base (e, cs)" and "visible lim (e, cs)" and "guarded lim base (e, cs)"
    and "i < length cs" and "step e (cs ! i) = Some (e', c')"
  shows "guarded lim base (e', cs[i := c'])"
  unfolding guarded_def
proof (intro impI)
  assume over: "unat lim < total lim base (snd (e', cs[i := c']))"
  have lim: "limit e = lim" and ct: "unat (counter e) = min (total lim base cs) (2 ^ 64 - 1)"
    using assms(1) by (auto simp: exact_def)
  have c'_in: "c' \<in> set (cs[i := c'])"
    using assms(4) by (rule set_update_memI)
  show "\<exists>c\<in>set (snd (e', cs[i := c'])). doomed lim c"
  proof (cases "unat lim < total lim base cs")
    case True
    then obtain j where j: "j < length cs" "doomed lim (cs ! j)"
      using assms(3) by (auto simp: guarded_def in_set_conv_nth)
    show ?thesis
    proof (cases "j = i")
      case True
      then have "doomed lim c'"
        using doomed_step [OF assms(5)] j lim assms(2,4) by (auto simp: visible_def)
      then show ?thesis using c'_in by auto
    next
      case False
      then show ?thesis
        using j by (auto simp: set_conv_nth intro!: bexI [of _ "cs ! j"] exI [of _ j])
    qed
  next
    case False
    then have new: "phase lim (cs ! i) = Uncommitted" "phase lim c' \<noteq> Uncommitted"
      "total lim base (cs[i := c']) = total lim base cs + unat (amount (cs ! i))"
      using over total_step [OF assms(5,4), of base] assms(2) lim by (auto split: if_splits)
    then have "phase lim c' = Committed (counter e)"
      using commit_remembers [OF assms(5)] lim by auto
    moreover have "unat (counter e) = total lim base cs"
      using ct False unat_le_max [of lim] by auto
    ultimately show ?thesis
      using new over c'_in amount_kept [OF assms(5)] by (intro bexI [of _ c']) (auto simp: doomed_def)
  qed
qed

lemma total_start:
  "\<forall>c\<in>set cs. phase lim c = Uncommitted \<Longrightarrow> total lim base cs = base"
proof -
  assume "\<forall>c\<in>set cs. phase lim c = Uncommitted"
  then have "map (booked lim) cs = map (\<lambda>_. 0) cs"
    by (auto simp: booked_def)
  then show ?thesis
    unfolding total_def by simp
qed

lemma reachable_exact:
  assumes "interleave_steps step (e, cs) (e', cs')"
    and "\<forall>c\<in>set cs. phase (limit e) c = Uncommitted"
  shows "exact (limit e) (unat (counter e)) (e', cs') \<and> visible (limit e) (e', cs')"
proof (rule interleave_invariant [OF assms(1)])
  show "exact (limit e) (unat (counter e)) (e, cs) \<and> visible (limit e) (e, cs)"
    using assms(2) total_start [OF assms(2)] unat_le_max [of "counter e"]
    by (auto simp: exact_def visible_def)
next
  fix f ds i f' d'
  assume inv: "exact (limit e) (unat (counter e)) (f, ds) \<and> visible (limit e) (f, ds)"
    and moves: "i < length ds" "step f (ds ! i) = Some (f', d')"
  then have "limit f = limit e" by (simp add: exact_def)
  with inv moves show "exact (limit e) (unat (counter e)) (f', ds[i := d']) \<and>
      visible (limit e) (f', ds[i := d'])"
    by (blast intro: exact_step visible_step)
qed

lemma reachable_guarded:
  assumes "interleave_steps step (e, cs) (e', cs')"
    and "\<forall>c\<in>set cs. phase (limit e) c = Uncommitted" and "counter e \<le> limit e"
  shows "guarded (limit e) (unat (counter e)) (e', cs')"
proof -
  have "exact (limit e) (unat (counter e)) (e', cs') \<and> visible (limit e) (e', cs') \<and>
    guarded (limit e) (unat (counter e)) (e', cs')"
  proof (rule interleave_invariant [OF assms(1)])
    show "exact (limit e) (unat (counter e)) (e, cs) \<and> visible (limit e) (e, cs) \<and>
        guarded (limit e) (unat (counter e)) (e, cs)"
      using assms(2,3) total_start [OF assms(2)] unat_le_max [of "counter e"]
      by (auto simp: exact_def visible_def guarded_def word_le_nat_alt)
  next
    fix f ds i f' d'
    assume inv: "exact (limit e) (unat (counter e)) (f, ds) \<and> visible (limit e) (f, ds) \<and>
        guarded (limit e) (unat (counter e)) (f, ds)"
      and moves: "i < length ds" "step f (ds ! i) = Some (f', d')"
    then have "limit f = limit e" by (simp add: exact_def)
    with inv moves show "exact (limit e) (unat (counter e)) (f', ds[i := d']) \<and>
        visible (limit e) (f', ds[i := d']) \<and>
        guarded (limit e) (unat (counter e)) (f', ds[i := d'])"
      by (blast intro: exact_step visible_step guarded_step)
  qed
  then show ?thesis by blast
qed

lemma amounts_kept:
  assumes "interleave_steps step (e, cs) (e', cs')"
  shows "map amount cs' = map amount cs"
proof -
  have "map amount (snd (e', cs')) = map amount cs"
  proof (rule interleave_invariant [OF assms, where Inv = "\<lambda>s. map amount (snd s) = map amount cs"])
    fix f ds i f' d'
    assume kept: "map amount (snd (f, ds)) = map amount cs"
      and moves: "i < length ds" "step f (ds ! i) = Some (f', d')"
    from moves have "map amount (ds[i := d']) = map amount ds"
      by (intro nth_equalityI) (auto simp: nth_list_update amount_kept)
    with kept show "map amount (snd (f', ds[i := d'])) = map amount cs"
      by simp
  qed simp
  then show ?thesis by simp
qed

lemma total_settled:
  assumes "interleave_steps step (e, cs) (e', cs')" and "\<forall>c\<in>set cs'. phase lim c \<noteq> Uncommitted"
  shows "total lim base cs' = base + sum_list (map (\<lambda>c. unat (amount c)) cs)"
proof -
  have "map (booked lim) cs' = map unat (map amount cs')"
    using assms(2) by (auto simp: booked_def)
  also have "\<dots> = map unat (map amount cs)"
    by (simp only: amounts_kept [OF assms(1)])
  finally show ?thesis
    by (simp add: total_def o_def)
qed

end

section \<open>Every interleaving ends\<close>

lemma interleave_bounded:
  assumes "(interleave_step step ^^ n) (e, cs) (e', cs')"
    and "\<And>f c f' c'. step f c = Some (f', c') \<Longrightarrow> work c = Suc (work c')"
  shows "n + sum_list (map work cs') = sum_list (map work cs)"
  using assms(1)
proof (induction n arbitrary: e' cs')
  case (Suc n)
  then obtain f ds where 1: "(interleave_step step ^^ n) (e, cs) (f, ds)"
    and "interleave_step step (f, ds) (e', cs')"
    using relpowp_Suc_E [OF Suc.prems] by (metis prod.exhaust)
  then obtain i c' where i: "i < length ds" "step f (ds ! i) = Some (e', c')" "cs' = ds[i := c']"
    by (auto elim: interleave_stepE)
  then have "sum_list (map work cs') + work (ds ! i) = sum_list (map work ds) + work c'"
    by (simp add: sum_list_update_nat)
  then show ?case
    using Suc.IH [OF 1] assms(2) [OF i(2)] by simp
qed simp

end
