(* ===== verification/Budget.thy ===== *)
theory Budget
  imports Monetary Interleaving
begin

text \<open>
  \<open>crates/fusion-types/src/lib.rs\<close>, the per-request spending guard \<open>BudgetEnvelope\<close>. The three
  atomic counters are fields of the state. \<open>record_and_check\<close> is modelled twice: as the
  sequence of its atomic accesses by one caller (\<open>caller_step\<close>), which several callers interleave
  freely (\<open>budget_steps\<close>), and as the function those accesses compute when nobody interferes.
\<close>

section \<open>State and errors\<close>

record budget_envelope =
  max_cost :: nano_usd
  max_tokens :: u64
  max_iterations :: u32
  spent_cost :: u64
  spent_tokens :: u64
  current_iterations :: u64

datatype budget_exceeded_error =
    CostExceeded u64 u64
  | TokensExceeded u64 u64
  | IterationsExceeded u64 u32

definition budget_new :: "nano_usd \<Rightarrow> u64 \<Rightarrow> u32 \<Rightarrow> budget_envelope" where
  "budget_new mc mt mi =
    \<lparr>max_cost = mc, max_tokens = mt, max_iterations = mi,
     spent_cost = 0, spent_tokens = 0, current_iterations = 0\<rparr>"

definition budget_error_text :: "budget_exceeded_error \<Rightarrow> string" where
  "budget_error_text e = (case e of
     CostExceeded s m \<Rightarrow> ''Cost budget exceeded: '' @ show_nat (unat s) @ '' nano-USD spent, ''
       @ show_nat (unat m) @ '' nano-USD max''
   | TokensExceeded s m \<Rightarrow> ''Token budget exceeded: '' @ show_nat (unat s) @ '' tokens spent, ''
       @ show_nat (unat m) @ '' max''
   | IterationsExceeded c m \<Rightarrow> ''Iteration budget exceeded: '' @ show_nat (unat c)
       @ '' iterations, '' @ show_nat (unat m) @ '' max'')"

section \<open>Operations\<close>

definition check_ceilings ::
  "budget_envelope \<Rightarrow> u64 \<Rightarrow> u64 \<Rightarrow> u64 \<Rightarrow> u64 \<Rightarrow> u64 \<Rightarrow> u64 \<Rightarrow> budget_exceeded_error + unit" where
  "check_ceilings env cost_nanos tokens prev_cost prev_tokens new_cost new_tokens =
    (if checked_add prev_cost cost_nanos = None
       then Inl (CostExceeded new_cost (as_nanos (max_cost env)))
     else if as_nanos (max_cost env) < new_cost
       then Inl (CostExceeded new_cost (as_nanos (max_cost env)))
     else if checked_add prev_tokens tokens = None
       then Inl (TokensExceeded new_tokens (max_tokens env))
     else if max_tokens env < new_tokens
       then Inl (TokensExceeded new_tokens (max_tokens env))
     else Inr ())"

definition record_and_check ::
  "budget_envelope \<Rightarrow> nano_usd \<Rightarrow> u64 \<Rightarrow> (budget_exceeded_error + unit) \<times> budget_envelope" where
  "record_and_check env cost tokens =
    (let cost_nanos = as_nanos cost;
         prev_cost = spent_cost env;
         env1 = env\<lparr>spent_cost := saturating_add prev_cost cost_nanos\<rparr>;
         prev_tokens = spent_tokens env1;
         env2 = env1\<lparr>spent_tokens := saturating_add prev_tokens tokens\<rparr>
     in (check_ceilings env2 cost_nanos tokens prev_cost prev_tokens
           (spent_cost env2) (spent_tokens env2), env2))"

definition reconcile_refund :: "budget_envelope \<Rightarrow> nano_usd \<Rightarrow> u64 \<Rightarrow> budget_envelope" where
  "reconcile_refund env cost tokens =
    env\<lparr>spent_cost := saturating_sub (spent_cost env) (as_nanos cost),
        spent_tokens := saturating_sub (spent_tokens env) tokens\<rparr>"

definition increment_iteration ::
  "budget_envelope \<Rightarrow> (budget_exceeded_error + u64) \<times> budget_envelope" where
  "increment_iteration env =
    (let current = current_iterations env in
     if ucast (max_iterations env) \<le> current
     then (Inl (IterationsExceeded (current + 1) (max_iterations env)), env)
     else (Inr (current + 1), env\<lparr>current_iterations := current + 1\<rparr>))"

section \<open>One caller's atomic accesses and their interleavings\<close>

datatype rc_pc =
    RcStart
  | RcCostCommitted u64
  | RcTokensCommitted u64 u64
  | RcCostLoaded u64 u64 u64
  | RcReturned "budget_exceeded_error + unit"

record rc_caller =
  req_cost :: nano_usd
  req_tokens :: u64
  pc :: rc_pc

fun caller_step :: "budget_envelope \<Rightarrow> rc_caller \<Rightarrow> (budget_envelope \<times> rc_caller) option" where
  "caller_step env c = (case pc c of
     RcStart \<Rightarrow>
       Some (env\<lparr>spent_cost := saturating_add (spent_cost env) (as_nanos (req_cost c))\<rparr>,
             c\<lparr>pc := RcCostCommitted (spent_cost env)\<rparr>)
   | RcCostCommitted prev_cost \<Rightarrow>
       Some (env\<lparr>spent_tokens := saturating_add (spent_tokens env) (req_tokens c)\<rparr>,
             c\<lparr>pc := RcTokensCommitted prev_cost (spent_tokens env)\<rparr>)
   | RcTokensCommitted prev_cost prev_tokens \<Rightarrow>
       Some (env, c\<lparr>pc := RcCostLoaded prev_cost prev_tokens (spent_cost env)\<rparr>)
   | RcCostLoaded prev_cost prev_tokens new_cost \<Rightarrow>
       Some (env, c\<lparr>pc := RcReturned
         (check_ceilings env (as_nanos (req_cost c)) (req_tokens c) prev_cost prev_tokens
            new_cost (spent_tokens env))\<rparr>)
   | RcReturned r \<Rightarrow> None)"

declare caller_step.simps [simp del]

abbreviation budget_steps ::
  "budget_envelope \<times> rc_caller list \<Rightarrow> budget_envelope \<times> rc_caller list \<Rightarrow> bool" where
  "budget_steps \<equiv> interleave_steps caller_step"

definition start_callers :: "(nano_usd \<times> u64) list \<Rightarrow> rc_caller list" where
  "start_callers reqs = map (\<lambda>(c, t). \<lparr>req_cost = c, req_tokens = t, pc = RcStart\<rparr>) reqs"

section \<open>The sequential function is the uninterrupted run of the accesses\<close>

fun caller_run :: "nat \<Rightarrow> budget_envelope \<times> rc_caller \<Rightarrow> budget_envelope \<times> rc_caller" where
  "caller_run 0 s = s"
| "caller_run (Suc n) s = (case caller_step (fst s) (snd s) of None \<Rightarrow> s | Some s' \<Rightarrow> caller_run n s')"

lemma record_and_check_is_caller_run:
  "caller_run 4 (env, \<lparr>req_cost = cost, req_tokens = tokens, pc = RcStart\<rparr>) =
    (snd (record_and_check env cost tokens),
     \<lparr>req_cost = cost, req_tokens = tokens, pc = RcReturned (fst (record_and_check env cost tokens))\<rparr>)"
  by (simp add: numeral_eq_Suc caller_step.simps record_and_check_def Let_def)

lemma record_and_check_spent [simp]:
  "spent_cost (snd (record_and_check env cost tokens)) = saturating_add (spent_cost env) (as_nanos cost)"
  "spent_tokens (snd (record_and_check env cost tokens)) = saturating_add (spent_tokens env) tokens"
  "max_cost (snd (record_and_check env cost tokens)) = max_cost env"
  "max_tokens (snd (record_and_check env cost tokens)) = max_tokens env"
  by (simp_all add: record_and_check_def Let_def)

lemma checked_saturating: "checked_add a b \<noteq> None \<Longrightarrow> unat (saturating_add a b) = unat a + unat b"
  by (auto simp: checked_add_def saturating_add_def unat_word_ariths split: if_splits)

lemma check_ceilings_own:
  "check_ceilings env c t p q (saturating_add p c) (saturating_add q t) = Inr () \<longleftrightarrow>
    unat p + unat c \<le> unat (as_nanos (max_cost env)) \<and> unat q + unat t \<le> unat (max_tokens env)"
proof -
  have b: "unat (as_nanos (max_cost env)) < 2 ^ 64" "unat (max_tokens env) < 2 ^ 64"
    using unsigned_less [of "as_nanos (max_cost env)"] unsigned_less [of "max_tokens env"] by simp_all
  show ?thesis
    using b by (auto simp: check_ceilings_def checked_add_def word_less_nat_alt
        unat_saturating_add min_def split: if_splits)
qed

section \<open>Several callers\<close>

fun cost_phase :: "u64 \<Rightarrow> rc_caller \<Rightarrow> commit_phase" where
  "cost_phase lim c = (case pc c of
     RcStart \<Rightarrow> Uncommitted
   | RcCostCommitted p \<Rightarrow> Committed p
   | RcTokensCommitted p _ \<Rightarrow> Committed p
   | RcCostLoaded p _ n \<Rightarrow>
       if checked_add p (as_nanos (req_cost c)) = None \<or> lim < n then Rejected else Accepted
   | RcReturned r \<Rightarrow> if r = Inr () then Accepted else Rejected)"

fun tokens_phase :: "u64 \<Rightarrow> rc_caller \<Rightarrow> commit_phase" where
  "tokens_phase lim c = (case pc c of
     RcStart \<Rightarrow> Uncommitted
   | RcCostCommitted _ \<Rightarrow> Uncommitted
   | RcTokensCommitted _ q \<Rightarrow> Committed q
   | RcCostLoaded _ q _ \<Rightarrow> Committed q
   | RcReturned r \<Rightarrow> if r = Inr () then Accepted else Rejected)"

declare cost_phase.simps [simp del] tokens_phase.simps [simp del]

lemma caller_step_cases:
  assumes "caller_step env c = Some (env', c')"
  obtains
    "pc c = RcStart"
      "env' = env\<lparr>spent_cost := saturating_add (spent_cost env) (as_nanos (req_cost c))\<rparr>"
      "c' = c\<lparr>pc := RcCostCommitted (spent_cost env)\<rparr>"
  | p where "pc c = RcCostCommitted p"
      "env' = env\<lparr>spent_tokens := saturating_add (spent_tokens env) (req_tokens c)\<rparr>"
      "c' = c\<lparr>pc := RcTokensCommitted p (spent_tokens env)\<rparr>"
  | p q where "pc c = RcTokensCommitted p q" "env' = env"
      "c' = c\<lparr>pc := RcCostLoaded p q (spent_cost env)\<rparr>"
  | p q n where "pc c = RcCostLoaded p q n" "env' = env"
      "c' = c\<lparr>pc := RcReturned (check_ceilings env (as_nanos (req_cost c)) (req_tokens c) p q n
         (spent_tokens env))\<rparr>"
  using assms by (auto simp: caller_step.simps split: rc_pc.splits)

lemma saturated_within:
  fixes p :: u64
  assumes "checked_add p a = Some y" and "saturating_add p a \<le> n" and "n \<le> m"
  shows "unat p + unat a \<le> unat m"
  using assms checked_saturating [of p a] by (simp add: word_le_nat_alt word_less_nat_alt)

lemma check_ceilings_Inr_iff:
  "check_ceilings env c t p q n k = Inr () \<longleftrightarrow>
    checked_add p c \<noteq> None \<and> n \<le> as_nanos (max_cost env) \<and>
    checked_add q t \<noteq> None \<and> k \<le> max_tokens env"
  by (auto simp: check_ceilings_def)

interpretation cost_ledger: commit_check caller_step spent_cost "\<lambda>e. as_nanos (max_cost e)"
  "\<lambda>c. as_nanos (req_cost c)" cost_phase
  by unfold_locales
    (auto elim!: caller_step_cases simp: cost_phase.simps check_ceilings_Inr_iff
      linorder_not_less intro: saturated_within split: if_splits)

interpretation token_ledger: commit_check caller_step spent_tokens max_tokens req_tokens tokens_phase
  by unfold_locales
    (auto elim!: caller_step_cases simp: tokens_phase.simps check_ceilings_Inr_iff
      linorder_not_less intro: saturated_within split: if_splits)

lemma start_callers_pc [simp]: "c \<in> set (start_callers reqs) \<Longrightarrow> pc c = RcStart"
  by (auto simp: start_callers_def)

definition all_returned :: "rc_caller list \<Rightarrow> bool" where
  "all_returned cs = list_all (\<lambda>c. case pc c of RcReturned _ \<Rightarrow> True | _ \<Rightarrow> False) cs"

lemma all_returned_pc: "all_returned cs \<Longrightarrow> c \<in> set cs \<Longrightarrow> \<exists>r. pc c = RcReturned r"
  by (cases "pc c") (auto simp: all_returned_def list_all_iff)

lemma returned_phases:
  assumes "all_returned cs"
  shows "\<forall>c\<in>set cs. cost_phase l c \<noteq> Uncommitted" and "\<forall>c\<in>set cs. tokens_phase l c \<noteq> Uncommitted"
proof -
  show "\<forall>c\<in>set cs. cost_phase l c \<noteq> Uncommitted"
    by (auto simp: cost_phase.simps dest!: all_returned_pc [OF assms] split: if_splits)
  show "\<forall>c\<in>set cs. tokens_phase l c \<noteq> Uncommitted"
    by (auto simp: tokens_phase.simps dest!: all_returned_pc [OF assms] split: if_splits)
qed

lemma start_sums:
  "sum_list (map (\<lambda>c. unat (as_nanos (req_cost c))) (start_callers reqs)) =
    (\<Sum>(c, t)\<leftarrow>reqs. unat (as_nanos c))"
  "sum_list (map (\<lambda>c. unat (req_tokens c)) (start_callers reqs)) = (\<Sum>(c, t)\<leftarrow>reqs. unat t)"
  by (simp_all add: start_callers_def o_def split_def)

text \<open>Two calls, interleaved access by access: both commit before either reads back.\<close>

definition demo_env :: budget_envelope where
  "demo_env = budget_new (NanoUSD 10) 100 3"

definition demo_reqs :: "(nano_usd \<times> u64) list" where
  "demo_reqs = [(NanoUSD 6, 5), (NanoUSD 7, 6)]"

definition demo_end :: "budget_envelope \<times> rc_caller list" where
  "demo_end = run_schedule caller_step [0, 1, 1, 0, 0, 1, 0, 1] (demo_env, start_callers demo_reqs)"

lemma demo_end_steps:
  "budget_steps (demo_env, start_callers demo_reqs) (fst demo_end, snd demo_end)"
  unfolding demo_end_def prod.collapse by (rule run_schedule_steps)

lemma demo_end_eval:
  "demo_end = (demo_env\<lparr>spent_cost := 13, spent_tokens := 11\<rparr>,
    [\<lparr>req_cost = NanoUSD 6, req_tokens = 5, pc = RcReturned (Inl (CostExceeded 13 10))\<rparr>,
     \<lparr>req_cost = NanoUSD 7, req_tokens = 6, pc = RcReturned (Inl (CostExceeded 13 10))\<rparr>])"
  by (simp add: demo_end_def demo_env_def demo_reqs_def start_callers_def budget_new_def
      caller_step.simps check_ceilings_def saturating_add_def checked_add_def)

text \<open>C9. Concurrent recording loses nothing: however the atomic accesses of any number of
  \<open>record_and_check\<close> calls interleave, once every call has returned both counters hold the
  initial spend plus the sum of all recorded amounts, pinned at \<open>u64::MAX\<close>, whether the calls
  succeeded or not.\<close>

theorem concurrent_record_exact:
  assumes "budget_steps (env, start_callers reqs) (env', cs)" and "all_returned cs"
  shows "unat (spent_cost env') =
      min (unat (spent_cost env) + (\<Sum>(c, t)\<leftarrow>reqs. unat (as_nanos c))) (2 ^ 64 - 1) \<and>
    unat (spent_tokens env') =
      min (unat (spent_tokens env) + (\<Sum>(c, t)\<leftarrow>reqs. unat t)) (2 ^ 64 - 1)"
proof -
  have "cost_ledger.exact (as_nanos (max_cost env)) (unat (spent_cost env)) (env', cs)"
    "token_ledger.exact (max_tokens env) (unat (spent_tokens env)) (env', cs)"
    using cost_ledger.reachable_exact [OF assms(1)] token_ledger.reachable_exact [OF assms(1)]
    by (simp_all add: cost_phase.simps tokens_phase.simps)
  then show ?thesis
    using cost_ledger.total_settled [OF assms(1) returned_phases(1) [OF assms(2)]]
      token_ledger.total_settled [OF assms(1) returned_phases(2) [OF assms(2)]]
    by (simp add: cost_ledger.exact_def token_ledger.exact_def start_sums)
qed

theorem concurrent_record_exact_witness:
  "budget_steps (demo_env, start_callers demo_reqs) (fst demo_end, snd demo_end) \<and>
   all_returned (snd demo_end) \<and>
   unat (spent_cost (fst demo_end)) =
      min (unat (spent_cost demo_env) + (\<Sum>(c, t)\<leftarrow>demo_reqs. unat (as_nanos c))) (2 ^ 64 - 1) \<and>
   unat (spent_tokens (fst demo_end)) =
      min (unat (spent_tokens demo_env) + (\<Sum>(c, t)\<leftarrow>demo_reqs. unat t)) (2 ^ 64 - 1)"
proof -
  have "all_returned (snd demo_end)"
    by (simp add: demo_end_eval all_returned_def)
  then show ?thesis
    using concurrent_record_exact [OF demo_end_steps] demo_end_steps by blast
qed

text \<open>C8. The envelope fails closed under every interleaving: if it started within its
  ceilings and the true (unbounded) sum of the recorded costs or tokens exceeds a ceiling, then
  at least one of the concurrent \<open>record_and_check\<close> calls returned an error, even when the
  ceiling is \<open>u64::MAX\<close> and the counter saturates.\<close>

theorem concurrent_record_fails_closed:
  assumes "budget_steps (env, start_callers reqs) (env', cs)" and "all_returned cs"
    and "spent_cost env \<le> as_nanos (max_cost env)" and "spent_tokens env \<le> max_tokens env"
    and "unat (as_nanos (max_cost env)) <
           unat (spent_cost env) + (\<Sum>(c, t)\<leftarrow>reqs. unat (as_nanos c)) \<or>
         unat (max_tokens env) < unat (spent_tokens env) + (\<Sum>(c, t)\<leftarrow>reqs. unat t)"
  shows "\<exists>c\<in>set cs. \<exists>err. pc c = RcReturned (Inl err)"
proof -
  have guarded: "cost_ledger.guarded (as_nanos (max_cost env)) (unat (spent_cost env)) (env', cs)"
    "token_ledger.guarded (max_tokens env) (unat (spent_tokens env)) (env', cs)"
    using cost_ledger.reachable_guarded [OF assms(1) _ assms(3)]
      token_ledger.reachable_guarded [OF assms(1) _ assms(4)]
    by (simp_all add: cost_phase.simps tokens_phase.simps)
  then obtain c where c: "c \<in> set cs"
    "cost_ledger.doomed (as_nanos (max_cost env)) c \<or> token_ledger.doomed (max_tokens env) c"
    using assms(5) cost_ledger.total_settled [OF assms(1) returned_phases(1) [OF assms(2)]]
      token_ledger.total_settled [OF assms(1) returned_phases(2) [OF assms(2)]]
    by (auto simp: cost_ledger.guarded_def token_ledger.guarded_def start_sums)
  moreover obtain r where "pc c = RcReturned r"
    using all_returned_pc [OF assms(2) c(1)] by blast
  ultimately have "pc c = RcReturned r \<and> r \<noteq> Inr ()"
    by (auto simp: cost_ledger.doomed_def token_ledger.doomed_def cost_phase.simps tokens_phase.simps)
  with c(1) show ?thesis
    by (cases r) auto
qed

theorem concurrent_record_fails_closed_witness:
  "\<exists>c\<in>set (snd demo_end). \<exists>err. pc c = RcReturned (Inl err)"
proof (rule concurrent_record_fails_closed [of demo_env demo_reqs "fst demo_end"])
  show "budget_steps (demo_env, start_callers demo_reqs) (fst demo_end, snd demo_end)"
    by (rule demo_end_steps)
  show "all_returned (snd demo_end)"
    by (simp add: demo_end_eval all_returned_def)
qed (simp_all add: demo_env_def demo_reqs_def budget_new_def)

section \<open>Iterations and refunds\<close>

definition iterations_ok :: "budget_envelope \<Rightarrow> bool" where
  "iterations_ok env \<longleftrightarrow> current_iterations env \<le> ucast (max_iterations env)"

fun increment_times :: "nat \<Rightarrow> budget_envelope \<Rightarrow> budget_envelope" where
  "increment_times 0 env = env"
| "increment_times (Suc n) env = increment_times n (snd (increment_iteration env))"

lemma increment_iteration_ok:
  assumes "iterations_ok env"
  shows "iterations_ok (snd (increment_iteration env))"
    and "unat (current_iterations (snd (increment_iteration env))) =
      min (Suc (unat (current_iterations env))) (unat (max_iterations env))"
    and "max_iterations (snd (increment_iteration env)) = max_iterations env"
  using assms unsigned_less [of "max_iterations env", where ?'a = nat]
  by (auto simp: increment_iteration_def iterations_ok_def Let_def word_le_nat_alt unat_ucast_u32
      unat_word_ariths)

lemma increment_times_ok:
  "iterations_ok env \<Longrightarrow> iterations_ok (increment_times n env) \<and>
    unat (current_iterations (increment_times n env)) =
      min (unat (current_iterations env) + n) (unat (max_iterations env)) \<and>
    max_iterations (increment_times n env) = max_iterations env"
proof (induction n arbitrary: env)
  case 0
  then show ?case by (simp add: iterations_ok_def word_le_nat_alt unat_ucast_u32)
next
  case (Suc n)
  show ?case
    using Suc.IH [OF increment_iteration_ok(1) [OF Suc.prems]] increment_iteration_ok(2,3) [OF Suc.prems]
    by simp
qed

text \<open>The iteration guard is exact: after n calls of \<open>increment_iteration\<close> on a fresh
  envelope the counter is the smaller of n and \<open>max_iterations\<close>, and the next call returns
  iteration n + 1 exactly when n is below the limit; otherwise it reports the limit and leaves the
  counter alone.\<close>

theorem iteration_guard_exact:
  "let env = increment_times n (budget_new mc mt mi) in
    unat (current_iterations env) = min n (unat mi) \<and>
    increment_iteration env =
      (if n < unat mi
       then (Inr (word_of_nat (Suc n)), env\<lparr>current_iterations := word_of_nat (Suc n)\<rparr>)
       else (Inl (IterationsExceeded (ucast mi + 1) mi), env))"
proof -
  define env where "env = increment_times n (budget_new mc mt mi)"
  have "iterations_ok (budget_new mc mt mi)"
    by (simp add: iterations_ok_def budget_new_def)
  from increment_times_ok [OF this, of n]
  have u: "unat (current_iterations env) = min n (unat mi)" "max_iterations env = mi"
    by (simp_all add: env_def budget_new_def)
  then have "current_iterations env = word_of_nat (min n (unat mi))"
    by (metis of_nat_unat ucast_id)
  moreover have "word_of_nat (unat mi) = (ucast mi :: u64)"
    by (simp add: unat_ucast_u32 [symmetric])
  ultimately show ?thesis
    unfolding env_def [symmetric] Let_def using u
    by (auto simp: increment_iteration_def Let_def word_le_nat_alt unat_ucast_u32 min_def
        add.commute split: if_splits)
qed

end
