(* ===== verification/Resource_Manager.thy ===== *)
theory Resource_Manager
  imports Budget
begin

text \<open>
  The daily quota. \<open>src/resource/mod.rs\<close> holds the production \<open>DefaultResourceManager\<close>, each
  of whose operations runs under one lock and is therefore one transition of the state;
  \<open>crates/fusion-kernel/src/resource/mod.rs\<close> holds the \<open>ResourceManager\<close> trait and the
  \<open>StubResourceManager\<close>, whose \<open>release\<close> takes no lock and is also modelled access by access.
  The locale \<open>quota_manager\<close> is the trait's contract; both managers are interpretations of it.
  An operation receives the two estimates it reads from the graph's metadata.
\<close>

section \<open>State\<close>

record quota =
  max_daily_cost :: nano_usd
  max_daily_tokens :: u64

record resource_manager =
  rm_quota :: quota
  used_cost :: u64
  used_tokens :: u64

definition resource_manager_new :: "quota \<Rightarrow> resource_manager" where
  "resource_manager_new q = \<lparr>rm_quota = q, used_cost = 0, used_tokens = 0\<rparr>"

section \<open>The production manager\<close>

definition try_apply :: "resource_manager \<Rightarrow> u64 \<Rightarrow> u64 \<Rightarrow> bool \<times> resource_manager" where
  "try_apply m cost tokens =
    (let new_cost = saturating_add (used_cost m) cost;
         new_tokens = saturating_add (used_tokens m) tokens
     in if as_nanos (max_daily_cost (rm_quota m)) < new_cost
           \<or> max_daily_tokens (rm_quota m) < new_tokens
        then (False, m)
        else (True, m\<lparr>used_cost := new_cost, used_tokens := new_tokens\<rparr>))"

definition add_usage :: "resource_manager \<Rightarrow> u64 \<Rightarrow> u64 \<Rightarrow> resource_manager" where
  "add_usage m cost tokens =
    m\<lparr>used_cost := saturating_add (used_cost m) cost,
      used_tokens := saturating_add (used_tokens m) tokens\<rparr>"

definition subtract :: "resource_manager \<Rightarrow> u64 \<Rightarrow> u64 \<Rightarrow> resource_manager" where
  "subtract m cost tokens =
    m\<lparr>used_cost := saturating_sub (used_cost m) cost,
      used_tokens := saturating_sub (used_tokens m) tokens\<rparr>"

definition rm_can_afford :: "resource_manager \<Rightarrow> nano_usd \<Rightarrow> u64 \<Rightarrow> bool" where
  "rm_can_afford m estimated_cost estimated_tokens \<longleftrightarrow>
    saturating_add (used_cost m) (as_nanos estimated_cost) \<le> as_nanos (max_daily_cost (rm_quota m)) \<and>
    saturating_add (used_tokens m) estimated_tokens \<le> max_daily_tokens (rm_quota m)"

definition rm_try_reserve :: "resource_manager \<Rightarrow> nano_usd \<Rightarrow> u64 \<Rightarrow> bool \<times> resource_manager" where
  "rm_try_reserve m estimated_cost estimated_tokens =
    try_apply m (as_nanos estimated_cost) estimated_tokens"

definition rm_release :: "resource_manager \<Rightarrow> nano_usd \<Rightarrow> u64 \<Rightarrow> resource_manager" where
  "rm_release m estimated_cost estimated_tokens =
    subtract m (as_nanos estimated_cost) estimated_tokens"

definition rm_record_usage :: "resource_manager \<Rightarrow> nano_usd \<Rightarrow> u64 \<Rightarrow> resource_manager" where
  "rm_record_usage m cost tokens = add_usage m (as_nanos cost) tokens"

section \<open>The stub manager\<close>

definition stub_try_reserve :: "resource_manager \<Rightarrow> nano_usd \<Rightarrow> u64 \<Rightarrow> bool \<times> resource_manager" where
  "stub_try_reserve m estimated_cost estimated_tokens =
    (let cost_nanos = as_nanos estimated_cost in
     if as_nanos (max_daily_cost (rm_quota m)) < saturating_add (used_cost m) cost_nanos
        \<or> max_daily_tokens (rm_quota m) < saturating_add (used_tokens m) estimated_tokens
     then (False, m)
     else (True, m\<lparr>used_cost := saturating_add (used_cost m) cost_nanos,
                  used_tokens := saturating_add (used_tokens m) estimated_tokens\<rparr>))"

definition stub_release :: "resource_manager \<Rightarrow> nano_usd \<Rightarrow> u64 \<Rightarrow> resource_manager" where
  "stub_release m estimated_cost estimated_tokens =
    m\<lparr>used_cost := used_cost m - min (as_nanos estimated_cost) (used_cost m),
      used_tokens := used_tokens m - min estimated_tokens (used_tokens m)\<rparr>"

definition stub_record_usage :: "resource_manager \<Rightarrow> nano_usd \<Rightarrow> u64 \<Rightarrow> resource_manager" where
  "stub_record_usage m cost tokens =
    m\<lparr>used_cost := used_cost m + as_nanos cost, used_tokens := used_tokens m + tokens\<rparr>"

text \<open>The four atomic accesses of one \<open>release\<close> call of the stub.\<close>

datatype release_pc = RelStart | RelCostLoaded u64 | RelLoaded u64 u64 | RelCostDone u64 | RelDone

record release_caller =
  rel_cost :: nano_usd
  rel_tokens :: u64
  rel_pc :: release_pc

fun stub_release_step ::
  "resource_manager \<Rightarrow> release_caller \<Rightarrow> (resource_manager \<times> release_caller) option" where
  "stub_release_step m c = (case rel_pc c of
     RelStart \<Rightarrow> Some (m, c\<lparr>rel_pc := RelCostLoaded (used_cost m)\<rparr>)
   | RelCostLoaded current_cost \<Rightarrow> Some (m, c\<lparr>rel_pc := RelLoaded current_cost (used_tokens m)\<rparr>)
   | RelLoaded current_cost current_tokens \<Rightarrow>
       Some (m\<lparr>used_cost := used_cost m - min (as_nanos (rel_cost c)) current_cost\<rparr>,
             c\<lparr>rel_pc := RelCostDone current_tokens\<rparr>)
   | RelCostDone current_tokens \<Rightarrow>
       Some (m\<lparr>used_tokens := used_tokens m - min (rel_tokens c) current_tokens\<rparr>,
             c\<lparr>rel_pc := RelDone\<rparr>)
   | RelDone \<Rightarrow> None)"

section \<open>The contract\<close>

locale quota_manager =
  fixes try_reserve :: "'m \<Rightarrow> nano_usd \<Rightarrow> u64 \<Rightarrow> bool \<times> 'm"
    and release :: "'m \<Rightarrow> nano_usd \<Rightarrow> u64 \<Rightarrow> 'm"
    and cost_of :: "'m \<Rightarrow> u64" and tokens_of :: "'m \<Rightarrow> u64"
    and cost_limit :: "'m \<Rightarrow> u64" and token_limit :: "'m \<Rightarrow> u64"
  assumes reserve_granted: "try_reserve m c t = (True, m') \<Longrightarrow>
      cost_of m' = saturating_add (cost_of m) (as_nanos c) \<and> cost_of m' \<le> cost_limit m \<and>
      tokens_of m' = saturating_add (tokens_of m) t \<and> tokens_of m' \<le> token_limit m \<and>
      cost_limit m' = cost_limit m \<and> token_limit m' = token_limit m"
    and reserve_refused: "try_reserve m c t = (False, m') \<Longrightarrow>
      m' = m \<and> (cost_limit m < saturating_add (cost_of m) (as_nanos c) \<or>
        token_limit m < saturating_add (tokens_of m) t)"
    and release_subtracts: "cost_of (release m c t) = saturating_sub (cost_of m) (as_nanos c) \<and>
      tokens_of (release m c t) = saturating_sub (tokens_of m) t \<and>
      cost_limit (release m c t) = cost_limit m \<and> token_limit (release m c t) = token_limit m"

datatype quota_op = Reserve nano_usd u64 | ReleaseGrant nat

definition drop_nth :: "nat \<Rightarrow> 'a list \<Rightarrow> 'a list" where
  "drop_nth i xs = take i xs @ drop (Suc i) xs"

lemma drop_nth_mset: "i < length xs \<Longrightarrow> mset xs = add_mset (xs ! i) (mset (drop_nth i xs))"
proof -
  assume "i < length xs"
  then have "mset xs = mset (take i xs @ xs ! i # drop (Suc i) xs)"
    by (simp only: id_take_nth_drop [symmetric])
  then show ?thesis by (simp add: drop_nth_def)
qed

lemma sum_drop_nth:
  "i < length xs \<Longrightarrow> sum_list (map f xs) = (f (xs ! i) :: nat) + sum_list (map f (drop_nth i xs))"
  using arg_cong [OF drop_nth_mset, of i xs "\<lambda>M. \<Sum>x\<in>#M. f x"]
  by (simp add: sum_mset_sum_list [symmetric])

fun quota_exec ::
  "('m \<Rightarrow> nano_usd \<Rightarrow> u64 \<Rightarrow> bool \<times> 'm) \<Rightarrow> ('m \<Rightarrow> nano_usd \<Rightarrow> u64 \<Rightarrow> 'm) \<Rightarrow> quota_op list \<Rightarrow>
    'm \<times> (nano_usd \<times> u64) list \<Rightarrow> 'm \<times> (nano_usd \<times> u64) list" where
  "quota_exec res rel [] s = s"
| "quota_exec res rel (Reserve c t # ops) (m, grants) = (case res m c t of
     (granted, m') \<Rightarrow> quota_exec res rel ops (m', if granted then (c, t) # grants else grants))"
| "quota_exec res rel (ReleaseGrant i # ops) (m, grants) =
    (if i < length grants
     then quota_exec res rel ops (rel m (fst (grants ! i)) (snd (grants ! i)), drop_nth i grants)
     else quota_exec res rel ops (m, grants))"

context quota_manager begin

definition accounted :: "u64 \<Rightarrow> u64 \<Rightarrow> 'm \<times> (nano_usd \<times> u64) list \<Rightarrow> bool" where
  "accounted cm tm s \<longleftrightarrow> cost_limit (fst s) = cm \<and> token_limit (fst s) = tm \<and>
     unat (cost_of (fst s)) = (\<Sum>(c, t)\<leftarrow>snd s. unat (as_nanos c)) \<and>
     unat (tokens_of (fst s)) = (\<Sum>(c, t)\<leftarrow>snd s. unat t) \<and>
     cost_of (fst s) \<le> cm \<and> tokens_of (fst s) \<le> tm"

lemma reserve_accounted:
  assumes "accounted cm tm (m, grants)" and "cm < -1" and "tm < -1" and "try_reserve m c t = (g, m')"
  shows "accounted cm tm (m', if g then (c, t) # grants else grants)"
proof (cases g)
  case True
  then have "saturating_add (cost_of m) (as_nanos c) < -1" "saturating_add (tokens_of m) t < -1"
    using assms reserve_granted [of m c t m'] by (auto simp: accounted_def)
  then have "unat (saturating_add (cost_of m) (as_nanos c)) = unat (cost_of m) + unat (as_nanos c)"
    "unat (saturating_add (tokens_of m) t) = unat (tokens_of m) + unat t"
    by (auto simp: word_less_nat_alt unat_saturating_add unat_minus_one_max)
  then show ?thesis
    using True assms(1,4) reserve_granted [of m c t m'] by (auto simp: accounted_def)
next
  case False
  then show ?thesis
    using assms reserve_refused [of m c t m'] by simp
qed

lemma release_accounted:
  assumes "accounted cm tm (m, grants)" and "i < length grants"
  shows "accounted cm tm (release m (fst (grants ! i)) (snd (grants ! i)), drop_nth i grants)"
  using assms sum_drop_nth [OF assms(2), of "\<lambda>(c, t). unat (as_nanos c)"]
    sum_drop_nth [OF assms(2), of "\<lambda>(c, t). unat t"]
    release_subtracts [of m "fst (grants ! i)" "snd (grants ! i)"]
  by (auto simp: accounted_def split_def unat_saturating_sub word_le_nat_alt)

lemma exec_accounted:
  assumes "accounted cm tm s" and "cm < -1" and "tm < -1"
  shows "accounted cm tm (quota_exec try_reserve release ops s)"
  using assms(1)
proof (induction ops arbitrary: s)
  case (Cons op ops)
  obtain m grants where s: "s = (m, grants)" by (cases s)
  show ?case
  proof (cases op)
    case (Reserve c t)
    obtain g m' where r: "try_reserve m c t = (g, m')" by fastforce
    from Cons.IH [OF reserve_accounted [OF Cons.prems [unfolded s] assms(2,3) r]] show ?thesis
      by (simp add: s Reserve r)
  next
    case (ReleaseGrant i)
    then show ?thesis
      using Cons.IH [OF release_accounted [OF Cons.prems [unfolded s]]] Cons by (simp add: s)
  qed
qed simp

end

interpretation default_manager: quota_manager rm_try_reserve rm_release used_cost used_tokens
  "\<lambda>m. as_nanos (max_daily_cost (rm_quota m))" "\<lambda>m. max_daily_tokens (rm_quota m)"
  by unfold_locales
    (auto simp: rm_try_reserve_def try_apply_def rm_release_def subtract_def Let_def not_less
      split: if_splits)

lemma sub_min: "(a :: 'a::len word) - min b a = saturating_sub a b"
  by (auto simp: saturating_sub_def min_def not_le)

interpretation stub_manager: quota_manager stub_try_reserve stub_release used_cost used_tokens
  "\<lambda>m. as_nanos (max_daily_cost (rm_quota m))" "\<lambda>m. max_daily_tokens (rm_quota m)"
  by unfold_locales
    (auto simp: stub_try_reserve_def stub_release_def Let_def not_less sub_min split: if_splits)

section \<open>Properties\<close>

text \<open>C18. Quota soundness of the production manager: starting from a fresh manager whose
  ceilings are below \<open>u64::MAX\<close>, after any sequence of reservation attempts and releases of
  granted reservations (every operation is one critical section, so every concurrent execution is
  such a sequence) the counters are exactly the sums of the outstanding grants and never exceed the
  daily ceilings.\<close>

theorem default_manager_quota_sound:
  assumes "as_nanos (max_daily_cost q) < -1" and "max_daily_tokens q < -1"
    and "quota_exec rm_try_reserve rm_release ops (resource_manager_new q, []) = (m, grants)"
  shows "unat (used_cost m) = (\<Sum>(c, t)\<leftarrow>grants. unat (as_nanos c)) \<and>
    unat (used_tokens m) = (\<Sum>(c, t)\<leftarrow>grants. unat t) \<and>
    used_cost m \<le> as_nanos (max_daily_cost q) \<and> used_tokens m \<le> max_daily_tokens q"
proof -
  have "default_manager.accounted (as_nanos (max_daily_cost q)) (max_daily_tokens q)
      (resource_manager_new q, [])"
    by (simp add: default_manager.accounted_def resource_manager_new_def)
  from default_manager.exec_accounted [OF this assms(1,2), of ops] show ?thesis
    by (simp add: default_manager.accounted_def assms(3))
qed

definition demo_quota :: quota where
  "demo_quota = \<lparr>max_daily_cost = NanoUSD 10, max_daily_tokens = 100\<rparr>"

definition demo_ops :: "quota_op list" where
  "demo_ops = [Reserve (NanoUSD 6) 5, Reserve (NanoUSD 7) 6, Reserve (NanoUSD 4) 1, ReleaseGrant 1]"

theorem default_manager_quota_sound_witness:
  "used_cost (fst (quota_exec rm_try_reserve rm_release demo_ops (resource_manager_new demo_quota, []))) = 4 \<and>
   used_cost (fst (quota_exec rm_try_reserve rm_release demo_ops (resource_manager_new demo_quota, []))) \<le> 10"
proof -
  have "quota_exec rm_try_reserve rm_release demo_ops (resource_manager_new demo_quota, []) =
      (\<lparr>rm_quota = demo_quota, used_cost = 4, used_tokens = 1\<rparr>, [(NanoUSD 4, 1)])"
    by (simp add: demo_ops_def demo_quota_def resource_manager_new_def rm_try_reserve_def
        try_apply_def rm_release_def subtract_def saturating_add_def saturating_sub_def drop_nth_def)
  then show ?thesis
    using default_manager_quota_sound [of demo_quota demo_ops]
    by (simp add: demo_quota_def)
qed

text \<open>The stub's unlocked release can wrap: with cost 5 in use, two concurrent releases of 5
  whose loads both precede the subtractions leave the counter at 2^64 - 5, although run one after
  the other they leave 0.\<close>

theorem stub_release_race:
  "\<exists>m cs. interleave_steps stub_release_step
      (\<lparr>rm_quota = demo_quota, used_cost = 5, used_tokens = 0\<rparr>,
       [\<lparr>rel_cost = NanoUSD 5, rel_tokens = 0, rel_pc = RelStart\<rparr>,
        \<lparr>rel_cost = NanoUSD 5, rel_tokens = 0, rel_pc = RelStart\<rparr>]) (m, cs) \<and>
    list_all (\<lambda>c. rel_pc c = RelDone) cs \<and> unat (used_cost m) = 2 ^ 64 - 5 \<and>
    used_cost (stub_release (stub_release
      \<lparr>rm_quota = demo_quota, used_cost = 5, used_tokens = 0\<rparr> (NanoUSD 5) 0) (NanoUSD 5) 0) = 0"
proof -
  define s :: "resource_manager \<times> release_caller list" where
    "s = (\<lparr>rm_quota = demo_quota, used_cost = 5, used_tokens = 0\<rparr>,
       [\<lparr>rel_cost = NanoUSD 5, rel_tokens = 0, rel_pc = RelStart\<rparr>,
        \<lparr>rel_cost = NanoUSD 5, rel_tokens = 0, rel_pc = RelStart\<rparr>])"
  have r: "run_schedule stub_release_step [0, 0, 1, 1, 0, 1, 0, 1] s =
      (\<lparr>rm_quota = demo_quota, used_cost = 18446744073709551611, used_tokens = 0\<rparr>,
       [\<lparr>rel_cost = NanoUSD 5, rel_tokens = 0, rel_pc = RelDone\<rparr>,
        \<lparr>rel_cost = NanoUSD 5, rel_tokens = 0, rel_pc = RelDone\<rparr>])"
    by (simp add: s_def)
  show ?thesis
    using run_schedule_steps [of stub_release_step s "[0, 0, 1, 1, 0, 1, 0, 1]"]
    unfolding r s_def [symmetric] by (intro exI conjI, assumption) (simp_all add: stub_release_def)
qed

end
