(* ===== verification/Json.thy ===== *)
theory Json
  imports Rust_Text
begin

text \<open>
  \<open>serde_json::Value\<close> as the sources use it. A number keeps the three representations of
  \<open>serde_json::Number\<close>; a float is its 64-bit pattern, on which the sources only test equality.
  A \<open>BTreeMap\<close> with string keys (also the map behind a JSON object, since the crate is built
  without \<open>preserve_order\<close>) is an association list in strictly ascending key order.
\<close>

section \<open>Values\<close>

datatype json_number = PosInt u64 | NegInt int | Float u64

datatype json =
    JNull
  | JBool bool
  | JNumber json_number
  | JString string
  | JArray "json list"
  | JObject "(string \<times> json) list"

fun as_str :: "json \<Rightarrow> string option" where
  "as_str (JString s) = Some s"
| "as_str _ = None"

fun as_bool :: "json \<Rightarrow> bool option" where
  "as_bool (JBool b) = Some b"
| "as_bool _ = None"

fun as_u64 :: "json \<Rightarrow> u64 option" where
  "as_u64 (JNumber (PosInt n)) = Some n"
| "as_u64 _ = None"

fun as_array :: "json \<Rightarrow> json list option" where
  "as_array (JArray xs) = Some xs"
| "as_array _ = None"

fun as_object :: "json \<Rightarrow> (string \<times> json) list option" where
  "as_object (JObject m) = Some m"
| "as_object _ = None"

fun json_get :: "string \<Rightarrow> json \<Rightarrow> json option" where
  "json_get k (JObject m) = map_of m k"
| "json_get k _ = None"

section \<open>Ordered maps\<close>

type_synonym 'v btree = "(string \<times> 'v) list"

fun bt_insert :: "string \<Rightarrow> 'v \<Rightarrow> 'v btree \<Rightarrow> 'v btree" where
  "bt_insert k v [] = [(k, v)]"
| "bt_insert k v ((k', v') # m) =
    (if k < k' then (k, v) # (k', v') # m
     else if k = k' then (k, v) # m
     else (k', v') # bt_insert k v m)"

definition bt_contains :: "'v btree \<Rightarrow> string \<Rightarrow> bool" where
  "bt_contains m k \<longleftrightarrow> map_of m k \<noteq> None"

definition bt_remove :: "string \<Rightarrow> 'v btree \<Rightarrow> 'v btree" where
  "bt_remove k m = filter (\<lambda>kv. fst kv \<noteq> k) m"

definition bt_ok :: "'v btree \<Rightarrow> bool" where
  "bt_ok m \<longleftrightarrow> sorted_wrt (<) (map fst m)"

definition bt_of_list :: "(string \<times> 'v) list \<Rightarrow> 'v btree" where
  "bt_of_list kvs = fold (\<lambda>(k, v). bt_insert k v) kvs []"

lemma bt_ok_Nil [simp]: "bt_ok []"
  by (simp add: bt_ok_def)

lemma bt_ok_Cons: "bt_ok (kv # m) \<longleftrightarrow> (\<forall>k \<in> fst ` set m. fst kv < k) \<and> bt_ok m"
  by (simp add: bt_ok_def)

lemma keys_bt_insert: "fst ` set (bt_insert k v m) = insert k (fst ` set m)"
proof (induction m)
  case (Cons kv m)
  then show ?case by (cases kv) (simp add: insert_commute)
qed simp

lemma bt_insert_ok: "bt_ok m \<Longrightarrow> bt_ok (bt_insert k v m)"
proof (induction m)
  case (Cons kv m)
  obtain k' v' where kv: "kv = (k', v')" by (cases kv)
  consider "k < k'" | "k = k'" | "k' < k" by (rule linorder_cases)
  then show ?case
  proof cases
    case 1
    then show ?thesis
      using Cons.prems by (simp add: kv bt_ok_Cons) (meson less_trans)
  next
    case 2
    then show ?thesis using Cons.prems by (simp add: kv bt_ok_Cons)
  next
    case 3
    then show ?thesis
      using Cons keys_bt_insert [of k v m] by (auto simp: kv bt_ok_Cons)
  qed
qed (simp add: bt_ok_Cons)

lemma map_of_bt_insert: "map_of (bt_insert k v m) k0 = (if k0 = k then Some v else map_of m k0)"
proof (induction m)
  case (Cons kv m)
  obtain k' v' where kv: "kv = (k', v')" by (cases kv)
  consider "k < k'" | "k = k'" | "k' < k" by (rule linorder_cases)
  then show ?case
    by cases (use Cons in \<open>auto simp: kv\<close>)
qed simp

lemma bt_remove_ok: "bt_ok m \<Longrightarrow> bt_ok (bt_remove k m)"
  by (induction m) (auto simp: bt_ok_def bt_remove_def)

lemma map_of_bt_remove: "map_of (bt_remove k m) k0 = (if k0 = k then None else map_of m k0)"
  by (induction m) (auto simp: bt_remove_def)

lemma fold_insert_ok: "bt_ok c \<Longrightarrow> bt_ok (fold (\<lambda>(k, v). bt_insert k v) kvs c)"
  by (induction kvs arbitrary: c) (auto intro: bt_insert_ok)

lemma map_of_fold_insert:
  "distinct (map fst kvs) \<Longrightarrow> map_of (fold (\<lambda>(k, v). bt_insert k v) kvs c) k0 =
    (case map_of kvs k0 of Some v \<Rightarrow> Some v | None \<Rightarrow> map_of c k0)"
proof (induction kvs arbitrary: c)
  case (Cons kv kvs)
  obtain k v where kv: "kv = (k, v)" by (cases kv)
  have "map_of kvs k = None" using Cons.prems by (simp add: kv map_of_eq_None_iff)
  then show ?case using Cons by (auto simp: kv map_of_bt_insert split: option.splits)
qed simp

lemma bt_of_list_ok: "bt_ok (bt_of_list kvs)"
  by (simp add: bt_of_list_def fold_insert_ok)

lemma map_of_bt_of_list: "distinct (map fst kvs) \<Longrightarrow> map_of (bt_of_list kvs) = map_of kvs"
  by (rule ext) (simp add: bt_of_list_def map_of_fold_insert split: option.splits)

lemma bt_ok_distinct: "bt_ok m \<Longrightarrow> distinct (map fst m)"
  by (simp add: bt_ok_def strict_sorted_iff)

lemma bt_eqI:
  assumes "bt_ok m" and "bt_ok m'" and "map_of m = map_of m'"
  shows "m = m'"
proof -
  have d: "distinct (map fst m)" "distinct (map fst m')"
    using assms(1,2) by (simp_all add: bt_ok_distinct)
  have "set m = set m'"
    using map_of_eq_Some_iff [OF d(1)] map_of_eq_Some_iff [OF d(2)] assms(3) by auto
  moreover have "sorted (map fst m)" "sorted (map fst m')"
    using assms(1,2) by (simp_all add: bt_ok_def strict_sorted_iff)
  moreover have "inj_on fst (set m \<union> set m')"
    using d \<open>set m = set m'\<close> by (simp add: distinct_map)
  ultimately show ?thesis
    using d by (intro map_sorted_distinct_set_unique)
qed

lemma set_bt_insert: "bt_ok m \<Longrightarrow> set (bt_insert k v m) = insert (k, v) {kv \<in> set m. fst kv \<noteq> k}"
proof -
  assume ok: "bt_ok m"
  have "kv \<in> set (bt_insert k v m) \<longleftrightarrow> map_of (bt_insert k v m) (fst kv) = Some (snd kv)" for kv
    using map_of_eq_Some_iff [OF bt_ok_distinct [OF bt_insert_ok [OF ok]]] by (metis prod.collapse)
  moreover have "kv \<in> set m \<longleftrightarrow> map_of m (fst kv) = Some (snd kv)" for kv
    using map_of_eq_Some_iff [OF bt_ok_distinct [OF ok]] by (metis prod.collapse)
  ultimately show ?thesis
    by (auto simp: map_of_bt_insert prod_eq_iff split: if_splits)
qed

lemma bt_filter_ok: "bt_ok m \<Longrightarrow> bt_ok (filter P m)"
  by (induction m) (auto simp: bt_ok_def)

lemma bt_lookup: "bt_ok m \<Longrightarrow> map_of m k = Some v \<longleftrightarrow> (k, v) \<in> set m"
  by (rule map_of_eq_Some_iff) (rule bt_ok_distinct)

end
