(* ===== verification/Workflow_IR.thy ===== *)
theory Workflow_IR
  imports Json Monetary
begin

text \<open>
  The data of \<open>crates/fusion-ir\<close>: \<open>node.rs\<close>, \<open>edge.rs\<close>, \<open>workflow.rs\<close>, \<open>version.rs\<close>, and the
  error and report types of \<open>validate.rs\<close> and \<open>error.rs\<close>. The Rust accessors of the private fields
  are the record selectors.
\<close>

section \<open>Nodes, edges, workflows\<close>

datatype workflow_node_kind =
  NkTask | NkTool | NkRetrieval | NkMemory | NkReview | NkJudge | NkSecurity | NkAggregation | NkOutput

record workflow_node =
  wn_id :: string
  wn_kind :: workflow_node_kind
  wn_capability :: "string option"
  wn_selected_model :: "string option"
  wn_config :: "json btree"

datatype workflow_edge_kind = EkSequential | EkParallel | EkConditional | EkRetry | EkMerge | EkLoop

record workflow_edge =
  we_from :: string
  we_to :: string
  we_kind :: workflow_edge_kind
  we_condition :: "string option"

record workflow_metadata =
  wm_policy_applied :: "string list"
  wm_policy_version :: u64
  wm_estimated_cost :: nano_usd
  wm_estimated_tokens :: u64

definition workflow_metadata_default :: workflow_metadata where
  "workflow_metadata_default =
    \<lparr>wm_policy_applied = [], wm_policy_version = 0, wm_estimated_cost = nano_ZERO,
     wm_estimated_tokens = 0\<rparr>"

record workflow_ir =
  wf_version :: u16
  wf_workflow_id :: uuid
  wf_nodes :: "workflow_node list"
  wf_edges :: "workflow_edge list"
  wf_metadata :: workflow_metadata

definition WORKFLOW_IR_VERSION :: u16 where
  "WORKFLOW_IR_VERSION = 1"

section \<open>Validation errors and reports\<close>

datatype validation_error =
    DuplicateNodeId string
  | UnknownNodeRef string
  | UnreachableNode string
  | MissingRoot
  | IllegalCycle string string
  | MissingCondition string string
  | NotRetryable string
  | MergeArity string
  | OutputOutgoing string
  | SplitArity string
  | LoopConfig string
  | BarrierArity string
  | ProviderField string
  | VersionMismatch u16 u16

record validation_issue =
  vi_node :: "string option"
  vi_edge :: "string option"
  vi_error :: validation_error

type_synonym validation_report = "validation_issue list"

definition quoted :: "string \<Rightarrow> string" where
  "quoted s = ''`'' @ s @ ''`''"

fun validation_error_text :: "validation_error \<Rightarrow> string" where
  "validation_error_text (DuplicateNodeId n) = ''duplicate node id '' @ quoted n"
| "validation_error_text (UnknownNodeRef n) = ''edge references unknown node '' @ quoted n"
| "validation_error_text (UnreachableNode n) = ''node '' @ quoted n @ '' is unreachable''"
| "validation_error_text MissingRoot = ''graph has no root node''"
| "validation_error_text (IllegalCycle f t) = ''edge '' @ quoted f @ '' -> '' @ quoted t @
     '' may not form a cycle (only Loop edges may cycle)''"
| "validation_error_text (MissingCondition f t) = ''conditional edge '' @ quoted f @ '' -> '' @
     quoted t @ '' requires a condition''"
| "validation_error_text (NotRetryable n) = ''retry edge source '' @ quoted n @ '' is not retryable''"
| "validation_error_text (MergeArity n) = ''merge target '' @ quoted n @
     '' requires at least two incoming edges''"
| "validation_error_text (OutputOutgoing n) = ''output node '' @ quoted n @
     '' may not have outgoing edges''"
| "validation_error_text (SplitArity n) = ''split node '' @ quoted n @
     '' requires at least two outgoing edges''"
| "validation_error_text (LoopConfig n) = ''loop edge source '' @ quoted n @
     '' requires `max_iterations` in config''"
| "validation_error_text (BarrierArity n) = ''barrier node '' @ quoted n @
     '' requires at least one incoming and one outgoing edge''"
| "validation_error_text (ProviderField f) = ''provider-identifying field '' @ quoted f @
     '' is reserved by the architecture''"
| "validation_error_text (VersionMismatch v w) = ''workflow version '' @ show_nat (unat v) @
     '' is not supported (expected '' @ show_nat (unat w) @ '')''"

definition first_error :: "validation_report \<Rightarrow> validation_error option" where
  "first_error report = (case report of [] \<Rightarrow> None | i # _ \<Rightarrow> Some (vi_error i))"

definition unwrap_or_default :: "string option \<Rightarrow> string" where
  "unwrap_or_default s = (case s of None \<Rightarrow> [] | Some x \<Rightarrow> x)"

definition sort_deterministic :: "validation_report \<Rightarrow> validation_report" where
  "sort_deterministic report =
    sort_key (\<lambda>i. (unwrap_or_default (vi_node i), unwrap_or_default (vi_edge i),
      validation_error_text (vi_error i))) report"

lemma sort_deterministic_Nil [simp]: "sort_deterministic r = [] \<longleftrightarrow> r = []"
  unfolding sort_deterministic_def length_0_conv [symmetric] length_sort ..

lemma set_sort_deterministic [simp]: "set (sort_deterministic r) = set r"
  by (simp add: sort_deterministic_def)

lemma first_error_Nil [simp]: "first_error [] = None"
  by (simp add: first_error_def)

lemma first_error_None [simp]: "first_error r = None \<longleftrightarrow> r = []"
  by (cases r) (simp_all add: first_error_def)

end
