(* ===== verification/Graph_Search.thy ===== *)
theory Graph_Search
  imports Fusion_Prelude
begin

text \<open>
  The two graph walks the IR validator and the compiler run over an edge list: the worklist that
  collects the reachable nodes, and the iterative three-colour depth-first search with an explicit
  stack of (node, next child index), once collecting every back edge
  (\<open>crates/fusion-ir/src/validate.rs\<close>) and once stopping at the first
  (\<open>crates/fusion-compiler/src/lib.rs\<close>). An adjacency map built by pushing each edge's target under
  its source is \<open>succs\<close>. Vectors used as stacks have their top at the head of the list.
\<close>

section \<open>Definitions\<close>

definition succs :: "('a \<times> 'a) list \<Rightarrow> 'a \<Rightarrow> 'a list" where
  "succs es x = map snd (filter (\<lambda>e. fst e = x) es)"

lemma set_succs [simp]: "set (succs es x) = {y. (x, y) \<in> set es}"
  by (force simp: succs_def)

function reach_loop :: "('a \<times> 'a) list \<Rightarrow> 'a list \<Rightarrow> 'a list \<Rightarrow> 'a list" where
  "reach_loop es [] reachable = reachable"
| "reach_loop es (cur # queue) reachable =
    (if cur \<in> set reachable then reach_loop es queue reachable
     else reach_loop es (rev (succs es cur) @ queue) (cur # reachable))"
  by pat_completeness auto

termination
proof (relation "measures [\<lambda>(es, q, r). card ((snd ` set es \<union> set q) - set r), \<lambda>(es, q, r). length q]",
    goal_cases)
  case (2 es cur queue reachable)
  then have "card (snd ` set es \<union> set queue - set reachable)
      = card (snd ` set es \<union> set (cur # queue) - set reachable)"
    by (metis (no_types, lifting) Diff_insert2 Un_insert_right insert_Diff_if list.simps(15)
        Diff_insert_absorb insert_absorb)
  then show ?case by simp
next
  case (3 es cur queue reachable)
  have "snd ` set es \<union> set (rev (succs es cur) @ queue) - set (cur # reachable)
      \<subset> snd ` set es \<union> set (cur # queue) - set reachable"
    using 3 by (auto simp: image_iff) force
  then have "card (snd ` set es \<union> set (rev (succs es cur) @ queue) - set (cur # reachable))
      < card (snd ` set es \<union> set (cur # queue) - set reachable)"
    by (intro psubset_card_mono) auto
  then show ?case by simp
qed simp

datatype color = White | Grey | Black

definition white_targets :: "('a \<times> 'a) list \<Rightarrow> ('a \<Rightarrow> color) \<Rightarrow> 'a set" where
  "white_targets es st = {y \<in> snd ` set es. st y = White}"

definition pending :: "('a \<times> 'a) list \<Rightarrow> ('a \<times> nat) list \<Rightarrow> nat" where
  "pending es stack = (\<Sum>(n, i)\<leftarrow>stack. Suc (length (succs es n) - i))"

lemma finite_white_targets [simp]: "finite (white_targets es st)"
  by (simp add: white_targets_def)

lemma white_targets_mark:
  "st y = White \<Longrightarrow> (x, y) \<in> set es \<Longrightarrow> c \<noteq> White \<Longrightarrow>
    card (white_targets es (st(y := c))) < card (white_targets es st)"
  by (rule psubset_card_mono) (auto simp: white_targets_def image_iff split: if_splits, force)

lemma white_targets_mono: "c \<noteq> White \<Longrightarrow> card (white_targets es (st(y := c))) \<le> card (white_targets es st)"
  by (rule card_mono) (auto simp: white_targets_def)

lemma nth_succs: "i < length (succs es n) \<Longrightarrow> (n, succs es n ! i) \<in> set es"
  using nth_mem [of i "succs es n"] by simp

function dfs_loop ::
  "('a \<times> 'a) list \<Rightarrow> ('a \<times> nat) list \<Rightarrow> ('a \<Rightarrow> color) \<Rightarrow> ('a \<Rightarrow> color) \<times> ('a \<times> 'a) list" where
  "dfs_loop es [] st = (st, [])"
| "dfs_loop es ((node, child_idx) # stack) st =
    (if child_idx < length (succs es node)
     then (let next = succs es node ! child_idx in
       (case st next of
          White \<Rightarrow> dfs_loop es ((next, 0) # (node, child_idx + 1) # stack) (st(next := Grey))
        | Grey \<Rightarrow> (case dfs_loop es ((node, child_idx + 1) # stack) st of
                   (st', back_edges) \<Rightarrow> (st', (node, next) # back_edges))
        | Black \<Rightarrow> dfs_loop es ((node, child_idx + 1) # stack) st))
     else dfs_loop es stack (st(node := Black)))"
  by pat_completeness auto

termination
proof (relation "measures [\<lambda>(es, stack, st). card (white_targets es st),
      \<lambda>(es, stack, st). pending es stack]", goal_cases)
  case (2 es node child_idx stack st)
  then show ?case
    using white_targets_mark [of st "succs es node ! child_idx" node es Grey] by (simp add: nth_succs)
next
  case (5 es node child_idx stack st)
  then show ?case
    using white_targets_mono [of Black es st node] by (auto simp: pending_def less_le)
qed (auto simp: pending_def)

function dfs_first ::
  "('a \<times> 'a) list \<Rightarrow> ('a \<times> nat) list \<Rightarrow> ('a \<Rightarrow> color) \<Rightarrow> 'a + ('a \<Rightarrow> color)" where
  "dfs_first es [] st = Inr st"
| "dfs_first es ((node, child_idx) # stack) st =
    (if child_idx < length (succs es node)
     then (let next = succs es node ! child_idx in
       (case st next of
          Grey \<Rightarrow> Inl node
        | White \<Rightarrow> dfs_first es ((next, 0) # (node, child_idx + 1) # stack) (st(next := Grey))
        | Black \<Rightarrow> dfs_first es ((node, child_idx + 1) # stack) st))
     else dfs_first es stack (st(node := Black)))"
  by pat_completeness auto

termination
proof (relation "measures [\<lambda>(es, stack, st). card (white_targets es st),
      \<lambda>(es, stack, st). pending es stack]", goal_cases)
  case (2 es node child_idx stack st)
  then show ?case
    using white_targets_mark [of st "succs es node ! child_idx" node es Grey] by (simp add: nth_succs)
next
  case (4 es node child_idx stack st)
  then show ?case
    using white_targets_mono [of Black es st node] by (auto simp: pending_def less_le)
qed (auto simp: pending_def)

declare dfs_loop.simps [simp del] dfs_first.simps [simp del]

fun dfs_all :: "('a \<times> 'a) list \<Rightarrow> 'a list \<Rightarrow> ('a \<Rightarrow> color) \<Rightarrow> ('a \<Rightarrow> color) \<times> ('a \<times> 'a) list" where
  "dfs_all es [] st = (st, [])"
| "dfs_all es (n # ns) st =
    (if st n \<noteq> White then dfs_all es ns st
     else (case dfs_loop es [(n, 0)] (st(n := Grey)) of
       (st1, b1) \<Rightarrow> (case dfs_all es ns st1 of (st2, b2) \<Rightarrow> (st2, b1 @ b2))))"

fun dfs_first_all :: "('a \<times> 'a) list \<Rightarrow> 'a list \<Rightarrow> ('a \<Rightarrow> color) \<Rightarrow> 'a + ('a \<Rightarrow> color)" where
  "dfs_first_all es [] st = Inr st"
| "dfs_first_all es (n # ns) st =
    (if st n \<noteq> White then dfs_first_all es ns st
     else and_then (dfs_first es [(n, 0)] (st(n := Grey))) (dfs_first_all es ns))"

definition back_edges :: "('a \<times> 'a) list \<Rightarrow> 'a list \<Rightarrow> ('a \<times> 'a) list" where
  "back_edges es ns = snd (dfs_all es ns (\<lambda>_. White))"

definition first_back_edge :: "('a \<times> 'a) list \<Rightarrow> 'a list \<Rightarrow> 'a option" where
  "first_back_edge es ns = (case dfs_first_all es ns (\<lambda>_. White) of Inl n \<Rightarrow> Some n | Inr _ \<Rightarrow> None)"

section \<open>The worklist collects the reachable nodes\<close>

lemma reach_loop_grows: "set q \<union> set r \<subseteq> set (reach_loop es q r)"
  by (induction es q r rule: reach_loop.induct) auto

lemma reach_loop_sound: "set (reach_loop es q r) \<subseteq> set r \<union> (set es)\<^sup>* `` set q"
proof (induction es q r rule: reach_loop.induct)
  case (2 es cur queue reachable)
  have "(set es)\<^sup>* `` {y. (cur, y) \<in> set es} \<subseteq> (set es)\<^sup>* `` {cur}"
    by (auto intro: converse_rtrancl_into_rtrancl)
  with 2 show ?case by (auto simp: Image_Un split: if_splits) blast+
qed auto

lemma reach_loop_closed:
  "\<forall>x\<in>set r. set (succs es x) \<subseteq> set r \<union> set q \<Longrightarrow>
    x \<in> set (reach_loop es q r) \<Longrightarrow> (x, y) \<in> set es \<Longrightarrow> y \<in> set (reach_loop es q r)"
proof (induction es q r rule: reach_loop.induct)
  case (2 es cur queue reachable)
  then show ?case
    by (cases "cur \<in> set reachable") auto
qed auto

theorem reach_loop_correct: "set (reach_loop es q []) = (set es)\<^sup>* `` set q"
proof (intro subset_antisym subsetI)
  fix y assume "y \<in> (set es)\<^sup>* `` set q"
  then obtain x where "x \<in> set q" and "(x, y) \<in> (set es)\<^sup>*" by auto
  from this(2) show "y \<in> set (reach_loop es q [])"
  proof (induction rule: rtrancl_induct)
    case base
    then show ?case using \<open>x \<in> set q\<close> reach_loop_grows [of q "[]" es] by auto
  next
    case (step u v)
    then show ?case using reach_loop_closed [of "[]" es q u v] by simp
  qed
qed (use reach_loop_sound [of es q "[]"] in auto)

section \<open>The depth-first search reports the back edges\<close>

lemma dfs_loop_cases:
  "dfs_loop es [] st = (st, [])"
  "i < length (succs es n) \<Longrightarrow> st (succs es n ! i) = White \<Longrightarrow> dfs_loop es ((n, i) # stack) st =
    dfs_loop es ((succs es n ! i, 0) # (n, Suc i) # stack) (st(succs es n ! i := Grey))"
  "i < length (succs es n) \<Longrightarrow> st (succs es n ! i) = Grey \<Longrightarrow> dfs_loop es ((n, i) # stack) st =
    (fst (dfs_loop es ((n, Suc i) # stack) st),
     (n, succs es n ! i) # snd (dfs_loop es ((n, Suc i) # stack) st))"
  "i < length (succs es n) \<Longrightarrow> st (succs es n ! i) = Black \<Longrightarrow> dfs_loop es ((n, i) # stack) st =
    dfs_loop es ((n, Suc i) # stack) st"
  "\<not> i < length (succs es n) \<Longrightarrow> dfs_loop es ((n, i) # stack) st = dfs_loop es stack (st(n := Black))"
  by (simp_all add: dfs_loop.simps(1) dfs_loop.simps(2) [of es n i] Let_def split: prod.splits)

lemma dfs_loop_induct [case_names Done White Grey Black Pop]:
  assumes "\<And>st. P [] st"
    and "\<And>n i stack st. i < length (succs es n) \<Longrightarrow> st (succs es n ! i) = White \<Longrightarrow>
      P ((succs es n ! i, 0) # (n, Suc i) # stack) (st(succs es n ! i := Grey)) \<Longrightarrow>
      P ((n, i) # stack) st"
    and "\<And>n i stack st. i < length (succs es n) \<Longrightarrow> st (succs es n ! i) = Grey \<Longrightarrow>
      P ((n, Suc i) # stack) st \<Longrightarrow> P ((n, i) # stack) st"
    and "\<And>n i stack st. i < length (succs es n) \<Longrightarrow> st (succs es n ! i) = Black \<Longrightarrow>
      P ((n, Suc i) # stack) st \<Longrightarrow> P ((n, i) # stack) st"
    and "\<And>n i stack st. \<not> i < length (succs es n) \<Longrightarrow> P stack (st(n := Black)) \<Longrightarrow>
      P ((n, i) # stack) st"
  shows "P stack st"
proof -
  have "es' = es \<longrightarrow> P stack st" for es'
  proof (induction es' stack st rule: dfs_loop.induct)
    case (2 es' n i stack st)
    show ?case
    proof (cases "i < length (succs es n)")
      case True
      then show ?thesis
        using 2 assms(2) [OF True] assms(3) [OF True] assms(4) [OF True]
        by (cases "st (succs es n ! i)") (auto simp: fun_upd_def)
    next
      case False
      then show ?thesis
        using 2 assms(5) [OF False] by (auto simp: fun_upd_def)
    qed
  qed (use assms(1) in simp)
  then show ?thesis by blast
qed

fun stack_path :: "('a \<times> 'a) list \<Rightarrow> ('a \<times> nat) list \<Rightarrow> bool" where
  "stack_path es ((n, i) # (m, j) # stack) \<longleftrightarrow>
    0 < j \<and> j \<le> length (succs es m) \<and> succs es m ! (j - 1) = n \<and> stack_path es ((m, j) # stack)"
| "stack_path es _ \<longleftrightarrow> True"

definition on_stack :: "('a \<times> 'a) list \<Rightarrow> ('a \<times> nat) list \<Rightarrow> ('a \<Rightarrow> color) \<Rightarrow> bool" where
  "on_stack es stack st \<longleftrightarrow> stack_path es stack \<and> distinct (map fst stack) \<and>
     (\<forall>x. st x = Grey \<longleftrightarrow> x \<in> fst ` set stack)"

lemma stack_path_bump: "stack_path es ((n, i) # stack) \<longleftrightarrow> stack_path es ((n, j) # stack)"
  by (cases stack) auto

lemma stack_path_tl: "stack_path es (x # stack) \<Longrightarrow> stack_path es stack"
  by (cases x; cases stack) auto

lemma stack_path_reach:
  "stack_path es ((n, i) # stack) \<Longrightarrow> x \<in> fst ` set ((n, i) # stack) \<Longrightarrow> (x, n) \<in> (set es)\<^sup>*"
proof (induction stack arbitrary: n i)
  case (Cons mj stack)
  obtain m j where mj: "mj = (m, j)" by (cases mj)
  with Cons.prems have "0 < j" "j \<le> length (succs es m)" "succs es m ! (j - 1) = n"
    "stack_path es ((m, j) # stack)" by auto
  moreover from this have "(m, n) \<in> set es"
    using nth_succs [of "j - 1" es m] by auto
  ultimately show ?case
    using Cons.prems Cons.IH [of m j] by (auto simp: mj intro: rtrancl_into_rtrancl)
qed auto

lemma on_stack_push:
  assumes "on_stack es ((n, i) # stack) st" and "i < length (succs es n)"
    and "st (succs es n ! i) = White"
  shows "on_stack es ((succs es n ! i, 0) # (n, Suc i) # stack) (st(succs es n ! i := Grey))"
  using assms stack_path_bump [of es n i stack "Suc i"]
  by (auto simp: on_stack_def) (metis color.distinct(1) fst_conv image_eqI)

lemma on_stack_next:
  assumes "on_stack es ((n, i) # stack) st"
  shows "on_stack es ((n, Suc i) # stack) st"
  using assms stack_path_bump [of es n i stack "Suc i"] by (simp add: on_stack_def)

lemma on_stack_pop:
  assumes "on_stack es ((n, i) # stack) st"
  shows "on_stack es stack (st(n := Black))"
  using assms stack_path_tl [of es "(n, i)" stack] by (auto simp: on_stack_def)

lemmas on_stack_moves = on_stack_push on_stack_next on_stack_pop

lemma dfs_loop_no_grey:
  "on_stack es stack st \<Longrightarrow> fst (dfs_loop es stack st) x \<noteq> Grey"
proof (induction stack st rule: dfs_loop_induct [where es = es])
  case (White n i stack st)
  show ?case
    unfolding dfs_loop_cases(2) [of i es n st stack, OF White.hyps]
    by (rule White.IH [OF on_stack_push [OF White.prems White.hyps]])
next
  case (Pop n i stack st)
  show ?case
    unfolding dfs_loop_cases(5) [of i es n stack st, OF Pop.hyps] by (rule Pop.IH [OF on_stack_pop [OF Pop.prems]])
qed (simp_all add: dfs_loop_cases on_stack_next, simp add: on_stack_def)

lemma dfs_loop_sound:
  "on_stack es stack st \<Longrightarrow> (u, v) \<in> set (snd (dfs_loop es stack st)) \<Longrightarrow>
    (u, v) \<in> set es \<and> (v, u) \<in> (set es)\<^sup>* \<and> (fst (last stack), u) \<in> (set es)\<^sup>*"
proof (induction stack st rule: dfs_loop_induct [where es = es])
  case (White n i stack st)
  show ?case
    using White.IH [OF on_stack_push [OF White.prems(1) White.hyps]
        White.prems(2) [unfolded dfs_loop_cases(2) [of i es n st stack, OF White.hyps]]]
    by (auto split: if_splits)
next
  case (Grey n i stack st)
  have "(succs es n ! i, n) \<in> (set es)\<^sup>*"
    using Grey stack_path_reach [of es n i stack "succs es n ! i"] by (auto simp: on_stack_def)
  moreover have "(fst (last ((n, i) # stack)), n) \<in> (set es)\<^sup>*"
    using Grey by (intro stack_path_reach) (auto simp: on_stack_def)
  ultimately show ?case
    using Grey nth_succs [OF Grey(1)] by (auto simp: dfs_loop_cases on_stack_next split: if_splits)
next
  case (Black n i stack st)
  then show ?case by (auto simp: dfs_loop_cases on_stack_next split: if_splits)
next
  case (Pop n i stack st)
  show ?case
    using Pop.IH [OF on_stack_pop [OF Pop.prems(1)]
        Pop.prems(2) [unfolded dfs_loop_cases(5) [of i es n stack st, OF Pop.hyps]]]
      Pop.prems(2) [unfolded dfs_loop_cases(5) [of i es n stack st, OF Pop.hyps]]
    by (cases "stack = []") (auto simp: dfs_loop_cases(1))
qed (simp add: dfs_loop_cases)

section \<open>No back edge means no cycle\<close>

definition settled :: "('a \<times> 'a) list \<Rightarrow> ('a \<Rightarrow> color) \<Rightarrow> bool" where
  "settled es st \<longleftrightarrow> (\<forall>x y. st x = Black \<longrightarrow> (x, y) \<in> set es \<longrightarrow> st y = Black) \<and>
     (\<forall>x. st x = Black \<longrightarrow> (x, x) \<notin> (set es)\<^sup>+)"

definition tried :: "('a \<times> 'a) list \<Rightarrow> ('a \<times> nat) list \<Rightarrow> ('a \<Rightarrow> color) \<Rightarrow> bool" where
  "tried es stack st \<longleftrightarrow> (case stack of [] \<Rightarrow> True | (n, i) # below \<Rightarrow>
     (\<forall>k < i. k < length (succs es n) \<longrightarrow> st (succs es n ! k) = Black) \<and>
     (\<forall>(m, j) \<in> set below. \<forall>k. Suc k < j \<longrightarrow> st (succs es m ! k) = Black))"

lemma settled_reach:
  "settled es st \<Longrightarrow> (x, y) \<in> (set es)\<^sup>* \<Longrightarrow> st x = Black \<Longrightarrow> st y = Black"
proof -
  assume "settled es st" and "(x, y) \<in> (set es)\<^sup>*" and "st x = Black"
  from this(2,3) show "st y = Black"
    by (induction rule: rtrancl_induct) (use \<open>settled es st\<close> in \<open>auto simp: settled_def\<close>)
qed

lemma settled_blacken:
  assumes "settled es st" and "st n = Grey" and "\<And>y. (n, y) \<in> set es \<Longrightarrow> st y = Black"
  shows "settled es (st(n := Black))"
proof -
  have "(n, n) \<notin> (set es)\<^sup>+"
  proof
    assume "(n, n) \<in> (set es)\<^sup>+"
    then obtain y where "(n, y) \<in> set es" "(y, n) \<in> (set es)\<^sup>*"
      by (meson tranclD)
    then show False
      using settled_reach [OF assms(1)] assms(2,3) by fastforce
  qed
  then show ?thesis
    using assms by (auto simp: settled_def)
qed

lemma settled_grey: "settled es st \<Longrightarrow> st n = White \<Longrightarrow> settled es (st(n := Grey))"
  by (auto simp: settled_def)

lemma tried_pop:
  assumes "tried es ((n, i) # stack) st" and "on_stack es ((n, i) # stack) st"
  shows "tried es stack (st(n := Black))"
proof (cases stack)
  case (Cons mj below)
  obtain m j where "mj = (m, j)" by (cases mj)
  then show ?thesis
    using assms Cons
    by (auto simp: tried_def on_stack_def less_Suc_eq less_diff_conv)
      (metis One_nat_def Suc_lessI Suc_pred diff_Suc_1)+
qed (simp add: tried_def)

lemma dfs_loop_complete:
  "on_stack es stack st \<Longrightarrow> settled es st \<Longrightarrow> tried es stack st \<Longrightarrow>
    dfs_loop es stack st = (st', []) \<Longrightarrow>
    settled es st' \<and> (\<forall>x. st x \<noteq> White \<longrightarrow> st' x = Black)"
proof (induction stack st rule: dfs_loop_induct [where es = es])
  case (Done st)
  then show ?case
    by (auto simp: dfs_loop_cases on_stack_def) (metis color.exhaust)
next
  case (White n i stack st)
  have "tried es ((succs es n ! i, 0) # (n, Suc i) # stack) (st(succs es n ! i := Grey))"
    using White.hyps White.prems(3) by (fastforce simp: tried_def)
  moreover have "dfs_loop es ((succs es n ! i, 0) # (n, Suc i) # stack) (st(succs es n ! i := Grey))
      = (st', [])"
    using White.prems(4) White.hyps by (simp add: dfs_loop_cases)
  ultimately have *: "settled es st' \<and> (\<forall>x. (st(succs es n ! i := Grey)) x \<noteq> White \<longrightarrow> st' x = Black)"
    using White.IH [OF on_stack_push [OF White.prems(1) White.hyps]
        settled_grey [OF White.prems(2) White.hyps(2)]] by blast
  then show ?case using White.hyps(2) by (auto split: if_splits)
next
  case (Grey n i stack st)
  then show ?case by (simp add: dfs_loop_cases)
next
  case (Black n i stack st)
  have "tried es ((n, Suc i) # stack) st"
    using Black.hyps Black.prems(3) by (auto simp: tried_def less_Suc_eq)
  then show ?case
    using Black on_stack_next [OF Black.prems(1)] by (simp add: dfs_loop_cases)
next
  case (Pop n i stack st)
  have "st y = Black" if "(n, y) \<in> set es" for y
  proof -
    from that have "y \<in> set (succs es n)" by simp
    then obtain k where "k < length (succs es n)" "succs es n ! k = y"
      unfolding in_set_conv_nth by blast
    then show ?thesis
      using Pop.hyps Pop.prems(3) by (auto simp: tried_def)
  qed
  then have "settled es (st(n := Black))"
    using Pop.prems(1,2) by (intro settled_blacken) (auto simp: on_stack_def)
  moreover have "dfs_loop es stack (st(n := Black)) = (st', [])"
    using Pop.prems(4) Pop.hyps by (simp add: dfs_loop_cases)
  ultimately have "settled es st' \<and> (\<forall>x. (st(n := Black)) x \<noteq> White \<longrightarrow> st' x = Black)"
    using Pop.IH [OF on_stack_pop [OF Pop.prems(1)]] tried_pop [OF Pop.prems(3,1)] by blast
  then show ?case by (auto split: if_splits)
qed

section \<open>The whole search\<close>

lemma on_stack_root: "on_stack es [] st \<Longrightarrow> st n = White \<Longrightarrow> on_stack es [(n, 0)] (st(n := Grey))"
  by (auto simp: on_stack_def)

lemma on_stack_after: "on_stack es stack st \<Longrightarrow> on_stack es [] (fst (dfs_loop es stack st))"
  using dfs_loop_no_grey [of es stack st] by (simp add: on_stack_def)

lemma dfs_all_sound:
  "on_stack es [] st \<Longrightarrow> (u, v) \<in> set (snd (dfs_all es ns st)) \<Longrightarrow>
    (u, v) \<in> set es \<and> (v, u) \<in> (set es)\<^sup>* \<and> (\<exists>n\<in>set ns. (n, u) \<in> (set es)\<^sup>*)"
proof (induction ns arbitrary: st)
  case (Cons n ns)
  show ?case
  proof (cases "st n = White")
    case True
    obtain st1 b1 where r: "dfs_loop es [(n, 0)] (st(n := Grey)) = (st1, b1)" by fastforce
    note os = on_stack_root [OF Cons.prems(1) True]
    have "on_stack es [] st1"
      using on_stack_after [OF os] r by simp
    note IH = Cons.IH [OF this]
    have "snd (dfs_all es (n # ns) st) = b1 @ snd (dfs_all es ns st1)"
      using True r by (simp split: prod.split)
    with Cons.prems(2) consider "(u, v) \<in> set b1" | "(u, v) \<in> set (snd (dfs_all es ns st1))"
      by auto
    then show ?thesis
    proof cases
      case 1
      with dfs_loop_sound [OF os, of u v] r show ?thesis by simp
    next
      case 2
      with IH show ?thesis by auto
    qed
  next
    case False
    then show ?thesis using Cons by auto
  qed
qed simp

lemma dfs_all_complete:
  "on_stack es [] st \<Longrightarrow> settled es st \<Longrightarrow> dfs_all es ns st = (st', []) \<Longrightarrow>
    settled es st' \<and> (\<forall>x. st x = Black \<or> x \<in> set ns \<longrightarrow> st' x = Black)"
proof (induction ns arbitrary: st)
  case (Cons n ns)
  show ?case
  proof (cases "st n = White")
    case True
    note os = on_stack_root [OF Cons.prems(1) True]
    obtain st1 b1 st2 b2 where r1: "dfs_loop es [(n, 0)] (st(n := Grey)) = (st1, b1)"
      and r2: "dfs_all es ns st1 = (st2, b2)" by fastforce
    have "dfs_all es (n # ns) st = (st2, b1 @ b2)"
      using True r1 r2 by simp
    with Cons.prems(3) r1 r2 have r: "dfs_loop es [(n, 0)] (st(n := Grey)) = (st1, [])"
      and rest: "dfs_all es ns st1 = (st', [])" by simp_all
    have s1: "settled es st1" "\<forall>x. (st(n := Grey)) x \<noteq> White \<longrightarrow> st1 x = Black"
      using dfs_loop_complete [OF os settled_grey [OF Cons.prems(2) True] _ r]
      by (simp_all add: tried_def)
    have "on_stack es [] st1"
      using on_stack_after [OF os] r by simp
    from Cons.IH [OF this s1(1) rest] have IH: "settled es st'"
      "\<And>x. st1 x = Black \<or> x \<in> set ns \<Longrightarrow> st' x = Black" by blast+
    have "st1 x = Black" if "st x = Black \<or> x = n" for x
      using that s1(2) by (cases "x = n") auto
    with IH show ?thesis by auto
  next
    case False
    then have "st n = Black"
      using Cons.prems(1) by (cases "st n") (auto simp: on_stack_def)
    moreover have "dfs_all es ns st = (st', [])"
      using Cons.prems(3) False by simp
    ultimately show ?thesis
      using Cons.IH [OF Cons.prems(1,2)] by auto
  qed
qed simp

theorem back_edges_empty_iff:
  "back_edges es ns = [] \<longleftrightarrow>
    (\<forall>n\<in>set ns. \<forall>x. (n, x) \<in> (set es)\<^sup>* \<longrightarrow> (x, x) \<notin> (set es)\<^sup>+)"
proof
  have os: "on_stack es [] (\<lambda>_. White)" by (simp add: on_stack_def)
  show "\<forall>n\<in>set ns. \<forall>x. (n, x) \<in> (set es)\<^sup>* \<longrightarrow> (x, x) \<notin> (set es)\<^sup>+" if empty: "back_edges es ns = []"
  proof -
    obtain st' where "dfs_all es ns (\<lambda>_. White) = (st', [])"
      using empty by (metis back_edges_def prod.collapse)
    then have settled: "settled es st' \<and> (\<forall>x. White = Black \<or> x \<in> set ns \<longrightarrow> st' x = Black)"
      by (rule dfs_all_complete [OF os, rotated]) (simp add: settled_def)
    show ?thesis
    proof (intro ballI allI impI)
      fix n x
      assume "n \<in> set ns" "(n, x) \<in> (set es)\<^sup>*"
      then have "st' x = Black"
        using settled by (intro settled_reach [of es st' n x]) auto
      then show "(x, x) \<notin> (set es)\<^sup>+"
        using settled by (simp add: settled_def)
    qed
  qed
  show "back_edges es ns = []" if acyc: "\<forall>n\<in>set ns. \<forall>x. (n, x) \<in> (set es)\<^sup>* \<longrightarrow> (x, x) \<notin> (set es)\<^sup>+"
  proof (rule ccontr)
    assume "back_edges es ns \<noteq> []"
    then obtain u v where "(u, v) \<in> set (back_edges es ns)"
      by (metis list.set_sel(1) surj_pair)
    then have "(u, v) \<in> set es" "(v, u) \<in> (set es)\<^sup>*" "\<exists>n\<in>set ns. (n, u) \<in> (set es)\<^sup>*"
      using dfs_all_sound [OF os] by (auto simp: back_edges_def)
    with acyc show False
      by (meson r_into_trancl trancl_rtrancl_trancl)
  qed
qed

lemma back_edges_sound:
  "(u, v) \<in> set (back_edges es ns) \<Longrightarrow> (u, v) \<in> set es \<and> (v, u) \<in> (set es)\<^sup>*"
  using dfs_all_sound [of es "\<lambda>_. White" u v ns] by (simp add: back_edges_def on_stack_def)

section \<open>Stopping at the first back edge\<close>

definition first_of :: "('a \<Rightarrow> color) \<times> ('a \<times> 'a) list \<Rightarrow> 'a + ('a \<Rightarrow> color)" where
  "first_of r = (case snd r of [] \<Rightarrow> Inr (fst r) | e # _ \<Rightarrow> Inl (fst e))"

lemma dfs_first_cases:
  "dfs_first es [] st = Inr st"
  "i < length (succs es n) \<Longrightarrow> st (succs es n ! i) = White \<Longrightarrow> dfs_first es ((n, i) # stack) st =
    dfs_first es ((succs es n ! i, 0) # (n, Suc i) # stack) (st(succs es n ! i := Grey))"
  "i < length (succs es n) \<Longrightarrow> st (succs es n ! i) = Grey \<Longrightarrow> dfs_first es ((n, i) # stack) st = Inl n"
  "i < length (succs es n) \<Longrightarrow> st (succs es n ! i) = Black \<Longrightarrow> dfs_first es ((n, i) # stack) st =
    dfs_first es ((n, Suc i) # stack) st"
  "\<not> i < length (succs es n) \<Longrightarrow> dfs_first es ((n, i) # stack) st = dfs_first es stack (st(n := Black))"
  by (simp_all add: dfs_first.simps(1) dfs_first.simps(2) [of es n i] Let_def)

lemma dfs_first_loop: "dfs_first es stack st = first_of (dfs_loop es stack st)"
proof (induction stack st rule: dfs_loop_induct [where es = es])
  case (White n i stack st)
  show ?case
    unfolding dfs_loop_cases(2) [of i es n st stack, OF White.hyps]
      dfs_first_cases(2) [of i es n st stack, OF White.hyps] by (rule White.IH)
next
  case (Pop n i stack st)
  show ?case
    unfolding dfs_loop_cases(5) [of i es n stack st, OF Pop.hyps]
      dfs_first_cases(5) [of i es n stack st, OF Pop.hyps] by (rule Pop.IH)
qed (simp_all add: dfs_loop_cases dfs_first_cases, simp_all add: first_of_def)

lemma dfs_first_all_all: "dfs_first_all es ns st = first_of (dfs_all es ns st)"
proof (induction ns arbitrary: st)
  case (Cons n ns)
  obtain st1 b1 where r: "dfs_loop es [(n, 0)] (st(n := Grey)) = (st1, b1)" by fastforce
  obtain st2 b2 where r2: "dfs_all es ns st1 = (st2, b2)" by fastforce
  show ?case
    using Cons.IH [of st] Cons.IH [of st1] r r2
    by (cases b1; cases b2) (simp_all add: dfs_first_loop first_of_def)
qed (simp add: first_of_def)

theorem first_back_edge_eq:
  "first_back_edge es ns = map_option fst (case back_edges es ns of [] \<Rightarrow> None | e # _ \<Rightarrow> Some e)"
  by (cases "snd (dfs_all es ns (\<lambda>_. White))")
    (simp_all add: first_back_edge_def dfs_first_all_all first_of_def back_edges_def)

end
