(* ===== verification/IR_Validate.thy ===== *)
theory IR_Validate
  imports Workflow_IR Graph_Search
begin

text \<open>
  \<open>crates/fusion-ir/src/validate.rs\<close>: the structural, semantic and architectural checks of a
  workflow, in the order in which they push issues on the report, and
  \<open>WorkflowIR::validate\<close>. The main result characterises the workflows with an empty report.
\<close>

section \<open>Structural checks\<close>

definition node_issue :: "string \<Rightarrow> validation_error \<Rightarrow> validation_issue" where
  "node_issue n e = \<lparr>vi_node = Some n, vi_edge = None, vi_error = e\<rparr>"

definition edge_ref :: "workflow_edge \<Rightarrow> string" where
  "edge_ref e = we_from e @ '' -> '' @ we_to e"

definition edge_issue :: "workflow_edge \<Rightarrow> validation_error \<Rightarrow> validation_issue" where
  "edge_issue e err = \<lparr>vi_node = None, vi_edge = Some (edge_ref e), vi_error = err\<rparr>"

definition node_ids :: "workflow_ir \<Rightarrow> string list" where
  "node_ids ir = map wn_id (wf_nodes ir)"

definition edge_pairs :: "workflow_edge list \<Rightarrow> (string \<times> string) list" where
  "edge_pairs es = map (\<lambda>e. (we_from e, we_to e)) es"

fun duplicate_issues :: "string list \<Rightarrow> workflow_node list \<Rightarrow> validation_issue list" where
  "duplicate_issues seen [] = []"
| "duplicate_issues seen (n # ns) =
    (if wn_id n \<in> set seen
     then node_issue (wn_id n) (DuplicateNodeId (wn_id n)) # duplicate_issues seen ns
     else duplicate_issues (wn_id n # seen) ns)"

definition dangling_issues :: "workflow_ir \<Rightarrow> validation_issue list" where
  "dangling_issues ir = concat (map (\<lambda>e.
     (if we_from e \<in> set (node_ids ir) then [] else [edge_issue e (UnknownNodeRef (we_from e))]) @
     (if we_to e \<in> set (node_ids ir) then [] else [edge_issue e (UnknownNodeRef (we_to e))]))
     (wf_edges ir))"

definition root_incoming :: "workflow_ir \<Rightarrow> string \<Rightarrow> nat" where
  "root_incoming ir nid = length (filter (\<lambda>e. we_kind e \<noteq> EkLoop \<and> we_to e \<in> set (node_ids ir)
     \<and> we_to e = nid) (wf_edges ir))"

definition roots :: "workflow_ir \<Rightarrow> string list" where
  "roots ir = filter (\<lambda>nid. root_incoming ir nid = 0) (node_ids ir)"

definition reachable_ids :: "workflow_ir \<Rightarrow> string list" where
  "reachable_ids ir = reach_loop (edge_pairs (wf_edges ir)) (rev (roots ir)) []"

definition structural_checks :: "workflow_ir \<Rightarrow> validation_report \<Rightarrow> validation_report" where
  "structural_checks ir report =
    report @ duplicate_issues [] (wf_nodes ir) @ dangling_issues ir @
    (if roots ir = [] then [\<lparr>vi_node = None, vi_edge = None, vi_error = MissingRoot\<rparr>] else []) @
    (let reachable = reachable_ids ir in
     map (\<lambda>n. node_issue (wn_id n) (UnreachableNode (wn_id n)))
       (filter (\<lambda>n. wn_id n \<notin> set reachable) (wf_nodes ir)))"

section \<open>Semantic checks\<close>

definition find_node :: "workflow_ir \<Rightarrow> string \<Rightarrow> workflow_node option" where
  "find_node ir nid = find (\<lambda>n. wn_id n = nid) (wf_nodes ir)"

definition node_kind_of :: "workflow_ir \<Rightarrow> string \<Rightarrow> workflow_node_kind option" where
  "node_kind_of ir nid = map_option wn_kind (find_node ir nid)"

definition control_flow_marker :: "workflow_ir \<Rightarrow> string \<Rightarrow> string option" where
  "control_flow_marker ir nid = Option.bind (find_node ir nid) (\<lambda>n.
     Option.bind (map_of (wn_config n) ''control_flow'') as_str)"

definition merge_sources :: "workflow_ir \<Rightarrow> string \<Rightarrow> nat" where
  "merge_sources ir nid = card (set (map we_from
     (filter (\<lambda>e. we_kind e = EkMerge \<and> we_to e = nid) (wf_edges ir))))"

definition incoming_count :: "workflow_ir \<Rightarrow> string \<Rightarrow> nat" where
  "incoming_count ir nid = length (filter (\<lambda>e. we_to e = nid) (wf_edges ir))"

definition outgoing_count :: "workflow_ir \<Rightarrow> string \<Rightarrow> nat" where
  "outgoing_count ir nid = length (filter (\<lambda>e. we_from e = nid) (wf_edges ir))"

definition edge_kind_issues :: "workflow_ir \<Rightarrow> workflow_edge \<Rightarrow> validation_issue list" where
  "edge_kind_issues ir e = (case we_kind e of
     EkConditional \<Rightarrow>
       (if unwrap_or_default (we_condition e) = []
        then [edge_issue e (MissingCondition (we_from e) (we_to e))] else [])
   | EkRetry \<Rightarrow>
       (if node_kind_of ir (we_from e) \<in> {Some NkTask, Some NkTool, Some NkRetrieval}
        then [] else [edge_issue e (NotRetryable (we_from e))])
   | EkMerge \<Rightarrow>
       (if merge_sources ir (we_to e) < 2 then [edge_issue e (MergeArity (we_to e))] else [])
   | _ \<Rightarrow> [])"

definition output_issues :: "workflow_ir \<Rightarrow> workflow_node \<Rightarrow> validation_issue list" where
  "output_issues ir n =
    (if wn_kind n = NkOutput \<and> 0 < outgoing_count ir (wn_id n)
     then [node_issue (wn_id n) (OutputOutgoing (wn_id n))] else [])"

definition non_loop_cycle_back_edges :: "workflow_ir \<Rightarrow> (string \<times> string) list" where
  "non_loop_cycle_back_edges ir =
    back_edges (edge_pairs (filter (\<lambda>e. we_kind e \<noteq> EkLoop) (wf_edges ir))) (node_ids ir)"

definition cycle_issues :: "workflow_ir \<Rightarrow> validation_issue list" where
  "cycle_issues ir = map (\<lambda>(f, t).
     \<lparr>vi_node = None, vi_edge = Some (f @ '' -> '' @ t), vi_error = IllegalCycle f t\<rparr>)
     (non_loop_cycle_back_edges ir)"

definition loop_config_issues :: "workflow_ir \<Rightarrow> workflow_edge \<Rightarrow> validation_issue list" where
  "loop_config_issues ir e =
    (if we_kind e = EkLoop \<and> control_flow_marker ir (we_from e) = Some ''loop''
        \<and> \<not> (case find_node ir (we_from e) of
               None \<Rightarrow> False | Some n \<Rightarrow> bt_contains (wn_config n) ''max_iterations'')
     then [\<lparr>vi_node = Some (we_from e), vi_edge = Some (edge_ref e), vi_error = LoopConfig (we_from e)\<rparr>]
     else [])"

definition marker_issues :: "workflow_ir \<Rightarrow> workflow_node \<Rightarrow> validation_issue list" where
  "marker_issues ir n = (case control_flow_marker ir (wn_id n) of
     None \<Rightarrow> []
   | Some marker \<Rightarrow>
       if marker = ''split''
       then (if outgoing_count ir (wn_id n) < 2 then [node_issue (wn_id n) (SplitArity (wn_id n))] else [])
       else if marker = ''barrier''
       then (if incoming_count ir (wn_id n) < 1 \<or> outgoing_count ir (wn_id n) < 1
             then [node_issue (wn_id n) (BarrierArity (wn_id n))] else [])
       else [])"

definition semantic_checks :: "workflow_ir \<Rightarrow> validation_report \<Rightarrow> validation_report" where
  "semantic_checks ir report =
    report @ concat (map (edge_kind_issues ir) (wf_edges ir)) @
    concat (map (output_issues ir) (wf_nodes ir)) @ cycle_issues ir @
    concat (map (loop_config_issues ir) (wf_edges ir)) @
    concat (map (marker_issues ir) (wf_nodes ir))"

section \<open>Architectural checks\<close>

definition RESERVED_PROVIDER_KEYS :: "string list" where
  "RESERVED_PROVIDER_KEYS = [''model'', ''provider'', ''endpoint'']"

fun scan_for_provider_keys :: "json \<Rightarrow> string \<Rightarrow> validation_issue list" where
  "scan_for_provider_keys (JObject m) path = concat (map (\<lambda>kv.
     (if fst kv \<in> set RESERVED_PROVIDER_KEYS then [node_issue path (ProviderField (fst kv))] else []) @
     scan_for_provider_keys (snd kv) path) m)"
| "scan_for_provider_keys (JArray items) path =
    concat (map (\<lambda>item. scan_for_provider_keys item path) items)"
| "scan_for_provider_keys _ path = []"

definition architectural_checks :: "workflow_ir \<Rightarrow> validation_report \<Rightarrow> validation_report" where
  "architectural_checks ir report =
    report @
    (if wf_version ir \<noteq> WORKFLOW_IR_VERSION
     then [\<lparr>vi_node = None, vi_edge = None,
            vi_error = VersionMismatch (wf_version ir) WORKFLOW_IR_VERSION\<rparr>] else []) @
    concat (map (\<lambda>n. scan_for_provider_keys (JObject (wn_config n)) (wn_id n)) (wf_nodes ir))"

definition run_all :: "workflow_ir \<Rightarrow> validation_report \<Rightarrow> validation_report" where
  "run_all ir report =
    architectural_checks ir (semantic_checks ir (structural_checks ir report))"

definition validate :: "workflow_ir \<Rightarrow> validation_report" where
  "validate ir = sort_deterministic (run_all ir [])"

section \<open>What a well-formed workflow is\<close>

definition edge_rel :: "workflow_ir \<Rightarrow> (string \<times> string) set" where
  "edge_rel ir = {(we_from e, we_to e) | e. e \<in> set (wf_edges ir)}"

definition forward_rel :: "workflow_ir \<Rightarrow> (string \<times> string) set" where
  "forward_rel ir = {(we_from e, we_to e) | e. e \<in> set (wf_edges ir) \<and> we_kind e \<noteq> EkLoop}"

definition is_root :: "workflow_ir \<Rightarrow> string \<Rightarrow> bool" where
  "is_root ir r \<longleftrightarrow> r \<in> set (node_ids ir) \<and> r \<notin> Range (forward_rel ir)"

definition marked :: "string \<Rightarrow> workflow_node \<Rightarrow> bool" where
  "marked k n \<longleftrightarrow> map_of (wn_config n) ''control_flow'' = Some (JString k)"

inductive inside :: "json \<Rightarrow> json \<Rightarrow> bool" where
  inside_refl: "inside v v"
| inside_array: "inside u v \<Longrightarrow> v \<in> set xs \<Longrightarrow> inside u (JArray xs)"
| inside_object: "inside u v \<Longrightarrow> v \<in> snd ` set m \<Longrightarrow> inside u (JObject m)"

definition provider_free :: "json \<Rightarrow> bool" where
  "provider_free v \<longleftrightarrow>
    (\<forall>m. inside (JObject m) v \<longrightarrow> fst ` set m \<inter> set RESERVED_PROVIDER_KEYS = {})"

definition graph_ok :: "workflow_ir \<Rightarrow> bool" where
  "graph_ok ir \<longleftrightarrow> distinct (node_ids ir) \<and> Field (edge_rel ir) \<subseteq> set (node_ids ir) \<and>
     (\<exists>r. is_root ir r) \<and>
     (\<forall>n\<in>set (node_ids ir). \<exists>r. is_root ir r \<and> (r, n) \<in> (edge_rel ir)\<^sup>*) \<and>
     acyclic (forward_rel ir)"

definition edge_ok :: "workflow_ir \<Rightarrow> workflow_edge \<Rightarrow> bool" where
  "edge_ok ir e \<longleftrightarrow>
    (we_kind e = EkConditional \<longrightarrow> (\<exists>c. we_condition e = Some c \<and> c \<noteq> [])) \<and>
    (we_kind e = EkRetry \<longrightarrow> (\<exists>n\<in>set (wf_nodes ir). wn_id n = we_from e \<and>
       wn_kind n \<in> {NkTask, NkTool, NkRetrieval})) \<and>
    (we_kind e = EkMerge \<longrightarrow> (\<exists>e'\<in>set (wf_edges ir). we_kind e' = EkMerge \<and>
       we_to e' = we_to e \<and> we_from e' \<noteq> we_from e)) \<and>
    (we_kind e = EkLoop \<longrightarrow> (\<forall>n\<in>set (wf_nodes ir). wn_id n = we_from e \<and> marked ''loop'' n \<longrightarrow>
       map_of (wn_config n) ''max_iterations'' \<noteq> None))"

definition node_ok :: "workflow_ir \<Rightarrow> workflow_node \<Rightarrow> bool" where
  "node_ok ir n \<longleftrightarrow>
    (wn_kind n = NkOutput \<longrightarrow> wn_id n \<notin> Domain (edge_rel ir)) \<and>
    (marked ''split'' n \<longrightarrow> 2 \<le> outgoing_count ir (wn_id n)) \<and>
    (marked ''barrier'' n \<longrightarrow> wn_id n \<in> Domain (edge_rel ir) \<inter> Range (edge_rel ir)) \<and>
    provider_free (JObject (wn_config n))"

definition well_formed :: "workflow_ir \<Rightarrow> bool" where
  "well_formed ir \<longleftrightarrow> wf_version ir = WORKFLOW_IR_VERSION \<and> graph_ok ir \<and>
     (\<forall>e\<in>set (wf_edges ir). edge_ok ir e) \<and> (\<forall>n\<in>set (wf_nodes ir). node_ok ir n)"

section \<open>Each check finds nothing exactly when its condition holds\<close>

lemma set_edge_pairs [simp]: "set (edge_pairs es) = {(we_from e, we_to e) | e. e \<in> set es}"
  by (auto simp: edge_pairs_def)

lemma edge_rel_pairs: "edge_rel ir = set (edge_pairs (wf_edges ir))"
  by (simp add: edge_rel_def)

lemma forward_rel_pairs:
  "forward_rel ir = set (edge_pairs (filter (\<lambda>e. we_kind e \<noteq> EkLoop) (wf_edges ir)))"
  by (auto simp: forward_rel_def)

lemma forward_sub: "forward_rel ir \<subseteq> edge_rel ir"
  by (auto simp: forward_rel_def edge_rel_def)

lemma duplicate_issues_iff:
  "duplicate_issues seen ns = [] \<longleftrightarrow> distinct (map wn_id ns) \<and> set seen \<inter> wn_id ` set ns = {}"
  by (induction seen ns rule: duplicate_issues.induct) auto

lemma dangling_issues_iff:
  "dangling_issues ir = [] \<longleftrightarrow> Field (edge_rel ir) \<subseteq> set (node_ids ir)"
  by (auto simp: dangling_issues_def edge_rel_def Field_def split: if_splits)

lemma roots_iff: "r \<in> set (roots ir) \<longleftrightarrow> is_root ir r"
  by (auto simp: roots_def is_root_def root_incoming_def forward_rel_def filter_empty_conv)

lemma roots_Nil: "roots ir = [] \<longleftrightarrow> \<not> (\<exists>r. is_root ir r)"
  using roots_iff [of _ ir] by (metis list.set_intros(1) list.exhaust empty_iff list.set(1))

lemma reachable_ids_set: "set (reachable_ids ir) = (edge_rel ir)\<^sup>* `` {r. is_root ir r}"
  by (simp add: reachable_ids_def reach_loop_correct edge_rel_pairs [symmetric] roots_iff Collect_mem_eq
      del: set_edge_pairs) (simp add: roots_iff [symmetric])

lemma structural_checks_iff:
  "structural_checks ir [] = [] \<longleftrightarrow> distinct (node_ids ir) \<and> Field (edge_rel ir) \<subseteq> set (node_ids ir) \<and>
     (\<exists>r. is_root ir r) \<and> (\<forall>n\<in>set (node_ids ir). \<exists>r. is_root ir r \<and> (r, n) \<in> (edge_rel ir)\<^sup>*)"
  by (auto simp: structural_checks_def duplicate_issues_iff dangling_issues_iff roots_Nil
      reachable_ids_set node_ids_def filter_empty_conv Image_iff)

lemma cycle_issues_iff:
  assumes "Field (edge_rel ir) \<subseteq> set (node_ids ir)"
  shows "cycle_issues ir = [] \<longleftrightarrow> acyclic (forward_rel ir)"
proof -
  have "x \<in> set (node_ids ir)" if "(x, x) \<in> (forward_rel ir)\<^sup>+" for x
  proof -
    from that have "x \<in> Domain (forward_rel ir)"
      by (metis Domain.DomainI tranclD)
    then show ?thesis
      using assms forward_sub [of ir] by (auto simp: Field_def)
  qed
  then show ?thesis
    by (auto simp: cycle_issues_def non_loop_cycle_back_edges_def back_edges_empty_iff
        forward_rel_pairs [symmetric] acyclic_def simp del: set_edge_pairs)
qed

lemma find_node_unique:
  assumes "distinct (node_ids ir)" and "n \<in> set (wf_nodes ir)"
  shows "find_node ir (wn_id n) = Some n"
proof -
  have "find (\<lambda>m. wn_id m = wn_id n) ns = Some n" if "distinct (map wn_id ns)" "n \<in> set ns" for ns
    using that by (induction ns) auto
  then show ?thesis
    using assms by (simp add: find_node_def node_ids_def)
qed

lemma find_node_SomeD: "find_node ir i = Some n \<Longrightarrow> n \<in> set (wf_nodes ir) \<and> wn_id n = i"
  by (auto simp: find_node_def find_Some_iff)

lemma as_str_Some [simp]: "as_str v = Some s \<longleftrightarrow> v = JString s"
  by (cases v) auto

lemma marker_iff:
  assumes "distinct (node_ids ir)" and "n \<in> set (wf_nodes ir)"
  shows "control_flow_marker ir (wn_id n) = Some k \<longleftrightarrow> marked k n"
  by (auto simp: control_flow_marker_def find_node_unique [OF assms] marked_def bind_eq_Some_conv)

inductive_simps inside_simps:
  "inside u JNull" "inside u (JBool b)" "inside u (JNumber n)" "inside u (JString s)"
  "inside u (JArray xs)" "inside u (JObject m)"

lemma provider_free_array: "provider_free (JArray xs) \<longleftrightarrow> (\<forall>v\<in>set xs. provider_free v)"
  unfolding provider_free_def inside_simps by blast

lemma provider_free_object:
  "provider_free (JObject m) \<longleftrightarrow> fst ` set m \<inter> set RESERVED_PROVIDER_KEYS = {} \<and>
     (\<forall>v\<in>snd ` set m. provider_free v)"
  unfolding provider_free_def inside_simps json.inject by blast

lemmas provider_free_simps = provider_free_array provider_free_object

lemma scan_object_Nil:
  "scan_for_provider_keys (JObject m) path = [] \<longleftrightarrow>
    fst ` set m \<inter> set RESERVED_PROVIDER_KEYS = {} \<and>
    (\<forall>kv\<in>set m. scan_for_provider_keys (snd kv) path = [])"
proof -
  have "scan_for_provider_keys (JObject m) path = [] \<longleftrightarrow>
      (\<forall>kv\<in>set m. fst kv \<notin> set RESERVED_PROVIDER_KEYS \<and> scan_for_provider_keys (snd kv) path = [])"
    by (simp, blast)
  then show ?thesis by blast
qed

lemma scan_iff: "scan_for_provider_keys v path = [] \<longleftrightarrow> provider_free v"
proof (induction v path rule: scan_for_provider_keys.induct)
  case (1 m path)
  have "(\<forall>kv\<in>set m. scan_for_provider_keys (snd kv) path = []) \<longleftrightarrow> (\<forall>v\<in>snd ` set m. provider_free v)"
    using 1 by blast
  then show ?case
    unfolding scan_object_Nil provider_free_object by blast
next
  case (2 items path)
  have "scan_for_provider_keys (JArray items) path = [] \<longleftrightarrow>
      (\<forall>v\<in>set items. scan_for_provider_keys v path = [])"
    by simp
  with 2 show ?case
    unfolding provider_free_array by blast
qed (simp_all add: provider_free_def inside_simps)

lemma node_kind_of_iff:
  assumes "distinct (node_ids ir)"
  shows "node_kind_of ir i = Some k \<longleftrightarrow> (\<exists>n\<in>set (wf_nodes ir). wn_id n = i \<and> wn_kind n = k)"
  using find_node_unique [OF assms] by (fastforce simp: node_kind_of_def dest: find_node_SomeD)

lemma merge_sources_iff:
  assumes "e \<in> set (wf_edges ir)" and "we_kind e = EkMerge"
  shows "merge_sources ir (we_to e) < 2 \<longleftrightarrow> \<not> (\<exists>e'\<in>set (wf_edges ir). we_kind e' = EkMerge \<and>
    we_to e' = we_to e \<and> we_from e' \<noteq> we_from e)"
proof -
  define S where "S = we_from ` {e'\<in>set (wf_edges ir). we_kind e' = EkMerge \<and> we_to e' = we_to e}"
  have "we_from e \<in> S" "finite S"
    using assms by (auto simp: S_def)
  moreover have "merge_sources ir (we_to e) = card S"
    by (simp add: merge_sources_def S_def)
  ultimately have "merge_sources ir (we_to e) < 2 \<longleftrightarrow> S = {we_from e}"
    by (auto simp: less_2_cases_iff card_1_singleton_iff)
  also have "\<dots> \<longleftrightarrow> (\<forall>x\<in>S. x = we_from e)"
    using \<open>we_from e \<in> S\<close> by blast
  finally show ?thesis
    by (auto simp: S_def)
qed

lemma edge_issues_iff:
  assumes "distinct (node_ids ir)" and "e \<in> set (wf_edges ir)"
  shows "edge_kind_issues ir e = [] \<and> loop_config_issues ir e = [] \<longleftrightarrow> edge_ok ir e"
proof (cases "we_kind e")
  case EkConditional
  then show ?thesis
    by (auto simp: edge_kind_issues_def loop_config_issues_def edge_ok_def unwrap_or_default_def
        split: option.splits)
next
  case EkRetry
  then show ?thesis
    by (auto simp: edge_kind_issues_def loop_config_issues_def edge_ok_def
        node_kind_of_iff [OF assms(1)])
next
  case EkMerge
  then show ?thesis
    using merge_sources_iff [OF assms(2)]
    by (simp add: edge_kind_issues_def loop_config_issues_def edge_ok_def, blast)
next
  case EkLoop
  show ?thesis
  proof (cases "find_node ir (we_from e)")
    case None
    then have "\<forall>n\<in>set (wf_nodes ir). wn_id n \<noteq> we_from e"
      by (auto simp: find_node_def find_None_iff)
    with EkLoop None show ?thesis
      by (simp add: edge_kind_issues_def loop_config_issues_def edge_ok_def control_flow_marker_def)
  next
    case (Some n)
    then have n: "n \<in> set (wf_nodes ir)" "wn_id n = we_from e"
      using find_node_SomeD by auto
    have "m = n" if "m \<in> set (wf_nodes ir)" "wn_id m = we_from e" for m
      using find_node_unique [OF assms(1) that(1)] Some that(2) by simp
    then have "(\<forall>m\<in>set (wf_nodes ir). wn_id m = we_from e \<and> marked ''loop'' m \<longrightarrow>
        map_of (wn_config m) ''max_iterations'' \<noteq> None) \<longleftrightarrow>
      (marked ''loop'' n \<longrightarrow> map_of (wn_config n) ''max_iterations'' \<noteq> None)"
      using n by blast
    moreover have "control_flow_marker ir (we_from e) = Some ''loop'' \<longleftrightarrow> marked ''loop'' n"
      using marker_iff [OF assms(1) n(1)] n(2) by simp
    ultimately show ?thesis
      using EkLoop Some
      by (simp add: edge_kind_issues_def loop_config_issues_def edge_ok_def bt_contains_def)
  qed
qed (simp_all add: edge_kind_issues_def loop_config_issues_def edge_ok_def)

lemma counts_pos:
  "0 < outgoing_count ir i \<longleftrightarrow> i \<in> Domain (edge_rel ir)"
  "0 < incoming_count ir i \<longleftrightarrow> i \<in> Range (edge_rel ir)"
  by (auto simp: outgoing_count_def incoming_count_def edge_rel_def filter_empty_conv)

lemma node_issues_iff:
  assumes "distinct (node_ids ir)" and "n \<in> set (wf_nodes ir)"
  shows "output_issues ir n = [] \<and> marker_issues ir n = [] \<and>
    scan_for_provider_keys (JObject (wn_config n)) (wn_id n) = [] \<longleftrightarrow> node_ok ir n"
proof -
  have "marker_issues ir n = [] \<longleftrightarrow>
      (marked ''split'' n \<longrightarrow> 2 \<le> outgoing_count ir (wn_id n)) \<and>
      (marked ''barrier'' n \<longrightarrow> 0 < incoming_count ir (wn_id n) \<and> 0 < outgoing_count ir (wn_id n))"
    unfolding marker_iff [OF assms, symmetric]
    by (cases "control_flow_marker ir (wn_id n)") (simp_all add: marker_issues_def not_less)
  then show ?thesis
    unfolding node_ok_def scan_iff by (simp add: output_issues_def counts_pos) blast
qed

lemma run_all_Nil:
  "run_all ir [] = [] \<longleftrightarrow> wf_version ir = WORKFLOW_IR_VERSION \<and> structural_checks ir [] = [] \<and>
    cycle_issues ir = [] \<and>
    (\<forall>e\<in>set (wf_edges ir). edge_kind_issues ir e = [] \<and> loop_config_issues ir e = []) \<and>
    (\<forall>n\<in>set (wf_nodes ir). output_issues ir n = [] \<and> marker_issues ir n = [] \<and>
       scan_for_provider_keys (JObject (wn_config n)) (wn_id n) = [])"
  unfolding run_all_def architectural_checks_def semantic_checks_def
  by (auto simp del: scan_for_provider_keys.simps)

lemma validate_Nil_iff: "validate ir = [] \<longleftrightarrow> well_formed ir"
proof (cases "structural_checks ir [] = []")
  case True
  then have "distinct (node_ids ir)" "Field (edge_rel ir) \<subseteq> set (node_ids ir)"
    by (simp_all add: structural_checks_iff)
  then show ?thesis
    using True structural_checks_iff [of ir]
    by (simp add: validate_def run_all_Nil well_formed_def graph_ok_def edge_issues_iff
        node_issues_iff cycle_issues_iff del: scan_for_provider_keys.simps)
next
  case False
  have "\<not> graph_ok ir"
    using False unfolding structural_checks_iff graph_ok_def by blast
  moreover have "validate ir \<noteq> []"
    using False by (simp add: validate_def run_all_Nil del: scan_for_provider_keys.simps)
  ultimately show ?thesis
    by (simp add: well_formed_def)
qed

text \<open>C4. Validation is exact: \<open>WorkflowIR::validate\<close> returns an empty report if and only if the
  workflow is well formed in the declarative sense: the supported version, unique node ids, no
  dangling edge, a root, every node reachable from a root, no cycle of non-Loop edges, conditions
  on Conditional edges, retryable Retry sources, two distinct sources for every Merge, bounded
  loops, arities of split and barrier nodes, no outgoing edge of an Output node, and no reserved
  provider key at any depth of a node's configuration.\<close>

theorem validate_exact: "validate ir = [] \<longleftrightarrow> well_formed ir"
  by (rule validate_Nil_iff)

end
