(* ===== verification/IR_Builder.thy ===== *)
theory IR_Builder
  imports IR_Validate
begin

text \<open>
  \<open>crates/fusion-ir/src/builder.rs\<close>: \<open>WorkflowBuilder\<close>. A method that consumes the builder and
  returns \<open>Result<Self, ValidationError>\<close> is a function to a sum. The hash set \<open>seen\<close> is a set.
  \<open>build\<close> receives the fresh id that \<open>Uuid::new_v4\<close> draws when none was given.
\<close>

section \<open>State and operations\<close>

record workflow_builder =
  wb_workflow_id :: "uuid option"
  wb_nodes :: "workflow_node list"
  wb_edges :: "workflow_edge list"
  wb_metadata :: workflow_metadata
  wb_seen :: "string set"

definition builder_new :: workflow_builder where
  "builder_new = \<lparr>wb_workflow_id = None, wb_nodes = [], wb_edges = [],
     wb_metadata = workflow_metadata_default, wb_seen = {}\<rparr>"

definition with_workflow_id :: "workflow_builder \<Rightarrow> uuid \<Rightarrow> workflow_builder" where
  "with_workflow_id b i = b\<lparr>wb_workflow_id := Some i\<rparr>"

definition builder_metadata :: "workflow_builder \<Rightarrow> workflow_metadata \<Rightarrow> workflow_builder" where
  "builder_metadata b m = b\<lparr>wb_metadata := m\<rparr>"

definition push_node :: "workflow_builder \<Rightarrow> workflow_node \<Rightarrow> validation_error + workflow_builder" where
  "push_node b n =
    (if wn_id n \<in> wb_seen b then Inl (DuplicateNodeId (wn_id n))
     else Inr (b\<lparr>wb_seen := insert (wn_id n) (wb_seen b), wb_nodes := wb_nodes b @ [n]\<rparr>))"

definition add_node ::
  "workflow_builder \<Rightarrow> string \<Rightarrow> workflow_node_kind \<Rightarrow> string option \<Rightarrow>
    validation_error + workflow_builder" where
  "add_node b i kind capability = push_node b
    \<lparr>wn_id = i, wn_kind = kind, wn_capability = capability, wn_selected_model = None, wn_config = []\<rparr>"

definition add_node_with_config ::
  "workflow_builder \<Rightarrow> string \<Rightarrow> workflow_node_kind \<Rightarrow> string option \<Rightarrow> json btree \<Rightarrow>
    validation_error + workflow_builder" where
  "add_node_with_config b i kind capability config = push_node b
    \<lparr>wn_id = i, wn_kind = kind, wn_capability = capability, wn_selected_model = None,
     wn_config = config\<rparr>"

definition add_node_with_model ::
  "workflow_builder \<Rightarrow> string \<Rightarrow> workflow_node_kind \<Rightarrow> string option \<Rightarrow> string option \<Rightarrow> json btree \<Rightarrow>
    validation_error + workflow_builder" where
  "add_node_with_model b i kind capability selected_model config = push_node b
    \<lparr>wn_id = i, wn_kind = kind, wn_capability = capability, wn_selected_model = selected_model,
     wn_config = config\<rparr>"

fun set_first_config :: "string \<Rightarrow> json btree \<Rightarrow> workflow_node list \<Rightarrow> workflow_node list" where
  "set_first_config i config [] = []"
| "set_first_config i config (n # ns) =
    (if wn_id n = i then n\<lparr>wn_config := config\<rparr> # ns else n # set_first_config i config ns)"

definition with_config ::
  "workflow_builder \<Rightarrow> string \<Rightarrow> json btree \<Rightarrow> validation_error + workflow_builder" where
  "with_config b i config =
    (if i \<in> wn_id ` set (wb_nodes b)
     then Inr (b\<lparr>wb_nodes := set_first_config i config (wb_nodes b)\<rparr>)
     else Inl (UnknownNodeRef i))"

definition builder_task where "builder_task b i c = add_node b i NkTask (Some c)"
definition builder_tool where "builder_tool b i c = add_node b i NkTool (Some c)"
definition builder_retrieval where "builder_retrieval b i c = add_node b i NkRetrieval (Some c)"
definition builder_memory where "builder_memory b i c = add_node b i NkMemory (Some c)"
definition builder_review where "builder_review b i c = add_node b i NkReview (Some c)"
definition builder_judge where "builder_judge b i c = add_node b i NkJudge (Some c)"
definition builder_security where "builder_security b i c = add_node b i NkSecurity (Some c)"
definition builder_aggregation where "builder_aggregation b i c = add_node b i NkAggregation (Some c)"
definition builder_output where "builder_output b i = add_node b i NkOutput None"

definition builder_edge ::
  "workflow_builder \<Rightarrow> string \<Rightarrow> string \<Rightarrow> workflow_edge_kind \<Rightarrow> string option \<Rightarrow>
    validation_error + workflow_builder" where
  "builder_edge b f t kind condition =
    (if f \<notin> wb_seen b then Inl (UnknownNodeRef f)
     else if t \<notin> wb_seen b then Inl (UnknownNodeRef t)
     else Inr (b\<lparr>wb_edges := wb_edges b @
       [\<lparr>we_from = f, we_to = t, we_kind = kind, we_condition = condition\<rparr>]\<rparr>))"

definition builder_sequential where "builder_sequential b f t = builder_edge b f t EkSequential None"
definition builder_parallel where "builder_parallel b f t = builder_edge b f t EkParallel None"
definition builder_conditional where
  "builder_conditional b f t c = builder_edge b f t EkConditional (Some c)"
definition builder_retry where "builder_retry b f t = builder_edge b f t EkRetry None"
definition builder_merge where "builder_merge b f t = builder_edge b f t EkMerge None"
definition builder_loop_edge where "builder_loop_edge b f t = builder_edge b f t EkLoop None"

definition built_ir :: "workflow_builder \<Rightarrow> uuid \<Rightarrow> workflow_ir" where
  "built_ir b fresh =
    \<lparr>wf_version = WORKFLOW_IR_VERSION,
     wf_workflow_id = (case wb_workflow_id b of None \<Rightarrow> fresh | Some i \<Rightarrow> i),
     wf_nodes = wb_nodes b, wf_edges = wb_edges b, wf_metadata = wb_metadata b\<rparr>"

definition build :: "workflow_builder \<Rightarrow> uuid \<Rightarrow> validation_error + workflow_ir" where
  "build b fresh =
    (let ir = built_ir b fresh in
     case first_error (validate ir) of Some e \<Rightarrow> Inl e | None \<Rightarrow> Inr ir)"

section \<open>Builders that calls can produce\<close>

inductive builder_reach :: "workflow_builder \<Rightarrow> bool" where
  new: "builder_reach builder_new"
| workflow_id: "builder_reach b \<Longrightarrow> builder_reach (with_workflow_id b i)"
| metadata: "builder_reach b \<Longrightarrow> builder_reach (builder_metadata b m)"
| node: "builder_reach b \<Longrightarrow> add_node_with_model b i k c sm cfg = Inr b' \<Longrightarrow> builder_reach b'"
| config: "builder_reach b \<Longrightarrow> with_config b i cfg = Inr b' \<Longrightarrow> builder_reach b'"
| edge: "builder_reach b \<Longrightarrow> builder_edge b f t k cond = Inr b' \<Longrightarrow> builder_reach b'"

lemma add_node_as_model:
  "add_node b i k c = add_node_with_model b i k c None []"
  "add_node_with_config b i k c cfg = add_node_with_model b i k c None cfg"
  by (simp_all add: add_node_def add_node_with_config_def add_node_with_model_def)

lemma builder_reach_add_node:
  "builder_reach b \<Longrightarrow> add_node b i k c = Inr b' \<Longrightarrow> builder_reach b'"
  unfolding add_node_as_model by (rule builder_reach.node)

definition builder_inv :: "workflow_builder \<Rightarrow> bool" where
  "builder_inv b \<longleftrightarrow> wb_seen b = set (map wn_id (wb_nodes b)) \<and> distinct (map wn_id (wb_nodes b)) \<and>
     (\<forall>e\<in>set (wb_edges b). we_from e \<in> wb_seen b \<and> we_to e \<in> wb_seen b)"

lemma set_first_config_ids [simp]: "map wn_id (set_first_config i config ns) = map wn_id ns"
  by (induction ns) auto

lemma push_node_inv: "builder_inv b \<Longrightarrow> push_node b n = Inr b' \<Longrightarrow> builder_inv b'"
  by (auto simp: push_node_def builder_inv_def split: if_splits)

lemma builder_reach_inv: "builder_reach b \<Longrightarrow> builder_inv b"
proof (induction rule: builder_reach.induct)
  case (node b i k c sm cfg b')
  then show ?case
    unfolding add_node_with_model_def by (blast intro: push_node_inv)
next
  case (config b i cfg b')
  then have "b' = b\<lparr>wb_nodes := set_first_config i cfg (wb_nodes b)\<rparr>"
    by (simp add: with_config_def split: if_splits)
  moreover have "set (map wn_id (set_first_config i cfg (wb_nodes b))) = set (map wn_id (wb_nodes b))"
    by (simp only: set_first_config_ids)
  ultimately show ?case
    using config.IH by (auto simp: builder_inv_def)
next
  case (edge b f t k cond b')
  then show ?case
    by (auto simp: builder_edge_def builder_inv_def split: if_splits)
qed (auto simp: builder_inv_def builder_new_def with_workflow_id_def builder_metadata_def)

lemma build_Inr_iff: "build b fresh = Inr ir \<longleftrightarrow> ir = built_ir b fresh \<and> well_formed ir"
  by (auto simp: build_def Let_def validate_Nil_iff [symmetric] split: option.splits)

section \<open>What is left for the final validation\<close>

fun reported_early :: "validation_error \<Rightarrow> bool" where
  "reported_early (DuplicateNodeId _) = True"
| "reported_early (UnknownNodeRef _) = True"
| "reported_early _ = False"

lemma scan_late: "i \<in> set (scan_for_provider_keys v path) \<Longrightarrow> \<not> reported_early (vi_error i)"
  by (induction v path rule: scan_for_provider_keys.induct)
    (auto simp: node_issue_def split: if_splits)

lemma edge_kind_late: "i \<in> set (edge_kind_issues ir e) \<Longrightarrow> \<not> reported_early (vi_error i)"
  by (cases "we_kind e") (auto simp: edge_kind_issues_def edge_issue_def split: if_splits)

lemma marker_late: "i \<in> set (marker_issues ir n) \<Longrightarrow> \<not> reported_early (vi_error i)"
  by (cases "control_flow_marker ir (wn_id n)")
    (auto simp: marker_issues_def node_issue_def split: if_splits)

lemma other_late:
  "i \<in> set (output_issues ir n) \<Longrightarrow> \<not> reported_early (vi_error i)"
  "i \<in> set (cycle_issues ir) \<Longrightarrow> \<not> reported_early (vi_error i)"
  "i \<in> set (loop_config_issues ir e) \<Longrightarrow> \<not> reported_early (vi_error i)"
  by (auto simp: output_issues_def cycle_issues_def loop_config_issues_def node_issue_def
      split: if_splits)

lemma semantic_late: "i \<in> set (semantic_checks ir []) \<Longrightarrow> \<not> reported_early (vi_error i)"
  unfolding semantic_checks_def using edge_kind_late marker_late other_late by auto

lemma run_all_split:
  "set (run_all ir []) = set (structural_checks ir []) \<union> set (semantic_checks ir []) \<union>
    set (architectural_checks ir [])"
  by (auto simp: run_all_def structural_checks_def semantic_checks_def architectural_checks_def)

lemma architectural_late:
  assumes "i \<in> set (architectural_checks ir [])"
  shows "\<not> reported_early (vi_error i)"
  using assms unfolding architectural_checks_def
  by (auto simp del: scan_for_provider_keys.simps dest: scan_late split: if_splits)

lemma structural_late:
  assumes "distinct (node_ids ir)" and "Field (edge_rel ir) \<subseteq> set (node_ids ir)"
    and "i \<in> set (structural_checks ir [])"
  shows "\<not> reported_early (vi_error i)"
proof -
  have "duplicate_issues [] (wf_nodes ir) = []" "dangling_issues ir = []"
    using assms(1,2) by (simp_all add: duplicate_issues_iff dangling_issues_iff node_ids_def)
  then show ?thesis
    using assms(3) by (auto simp: structural_checks_def node_issue_def Let_def split: if_splits)
qed

text \<open>The builder checks ids and references as it goes: for every builder that a sequence of
  successful calls produces, the report of the final validation contains no duplicate id and no
  unknown reference, and \<open>build\<close> succeeds exactly when the assembled workflow is well formed.\<close>

theorem builder_checks_early:
  assumes "builder_reach b"
  shows "(\<forall>i\<in>set (validate (built_ir b fresh)). \<not> reported_early (vi_error i)) \<and>
    (build b fresh = Inr ir \<longleftrightarrow> ir = built_ir b fresh \<and> well_formed ir)"
proof -
  have inv: "builder_inv b"
    using assms by (rule builder_reach_inv)
  then have "distinct (node_ids (built_ir b fresh))"
    "Field (edge_rel (built_ir b fresh)) \<subseteq> set (node_ids (built_ir b fresh))"
    by (auto simp: builder_inv_def built_ir_def node_ids_def edge_rel_def Field_def)
  then show ?thesis
    using structural_late semantic_late architectural_late
    by (auto simp: validate_def run_all_split build_Inr_iff)
qed

definition demo_builder :: workflow_builder where
  "demo_builder = \<lparr>wb_workflow_id = None,
     wb_nodes = [\<lparr>wn_id = ''a'', wn_kind = NkTask, wn_capability = Some ''CodeGeneration'',
       wn_selected_model = None, wn_config = []\<rparr>],
     wb_edges = [], wb_metadata = workflow_metadata_default, wb_seen = {''a''}\<rparr>"

theorem builder_checks_early_witness:
  "builder_task builder_new ''a'' ''CodeGeneration'' = Inr demo_builder \<and>
    build demo_builder 7 = Inr (built_ir demo_builder 7)"
proof -
  have t: "builder_task builder_new ''a'' ''CodeGeneration'' = Inr demo_builder"
    by (simp add: builder_task_def add_node_def push_node_def builder_new_def demo_builder_def)
  then have "builder_reach demo_builder"
    unfolding builder_task_def by (rule builder_reach_add_node [OF builder_reach.new])
  moreover have "well_formed (built_ir demo_builder 7)"
    unfolding validate_Nil_iff [symmetric] by code_simp
  ultimately show ?thesis
    using builder_checks_early [of demo_builder 7 "built_ir demo_builder 7"] t by blast
qed

end
