(* ===== verification/IR_Serialize.thy ===== *)
theory IR_Serialize
  imports IR_Validate
begin

text \<open>
  \<open>crates/fusion-ir/src/serialize.rs\<close>: canonical JSON of a workflow and the guarded intake. The
  text codec is serde's derived one and is a parameter: \<open>ser\<close> stands for \<open>serde_json::to_string\<close>
  and \<open>de\<close> for \<open>serde_json::from_str\<close> at type \<open>WorkflowIR\<close>.
\<close>

datatype 'e workflow_ir_error =
    SerdeError 'e
  | ValidationFailed validation_error
  | InvalidWorkflow validation_report

fun edge_kind_debug :: "workflow_edge_kind \<Rightarrow> string" where
  "edge_kind_debug EkSequential = ''Sequential''"
| "edge_kind_debug EkParallel = ''Parallel''"
| "edge_kind_debug EkConditional = ''Conditional''"
| "edge_kind_debug EkRetry = ''Retry''"
| "edge_kind_debug EkMerge = ''Merge''"
| "edge_kind_debug EkLoop = ''Loop''"

definition edge_sort_key :: "workflow_edge \<Rightarrow> string \<times> string \<times> string \<times> string" where
  "edge_sort_key e =
    (we_from e, we_to e, edge_kind_debug (we_kind e), unwrap_or_default (we_condition e))"

definition canonical :: "workflow_ir \<Rightarrow> workflow_ir" where
  "canonical ir =
    \<lparr>wf_version = wf_version ir, wf_workflow_id = wf_workflow_id ir,
     wf_nodes = sort_key wn_id (wf_nodes ir), wf_edges = sort_key edge_sort_key (wf_edges ir),
     wf_metadata = wf_metadata ir\<rparr>"

definition to_canonical_json ::
  "(workflow_ir \<Rightarrow> 'e + string) \<Rightarrow> workflow_ir \<Rightarrow> 'e workflow_ir_error + string" where
  "to_canonical_json ser ir = map_err SerdeError (ser (canonical ir))"

definition from_json ::
  "(string \<Rightarrow> 'e + workflow_ir) \<Rightarrow> string \<Rightarrow> 'e workflow_ir_error + workflow_ir" where
  "from_json de s = and_then (map_err SerdeError (de s)) (\<lambda>ir.
     if \<exists>n\<in>set (wf_nodes ir). wn_selected_model n \<noteq> None
     then Inl (ValidationFailed (ProviderField ''selected_model''))
     else (case first_error (validate ir) of
             Some first \<Rightarrow> Inl (ValidationFailed first)
           | None \<Rightarrow> Inr ir))"

section \<open>Well-formedness does not depend on the order of nodes and edges\<close>

definition same_graph :: "workflow_ir \<Rightarrow> workflow_ir \<Rightarrow> bool" where
  "same_graph ir ir' \<longleftrightarrow> wf_version ir = wf_version ir' \<and> wf_workflow_id ir = wf_workflow_id ir' \<and>
     wf_metadata ir = wf_metadata ir' \<and>
     mset (wf_nodes ir) = mset (wf_nodes ir') \<and> mset (wf_edges ir) = mset (wf_edges ir')"




section \<open>The canonical form\<close>

lemma edge_kind_debug_inject [simp]: "edge_kind_debug k = edge_kind_debug k' \<longleftrightarrow> k = k'"
  by (cases k; cases k') simp_all

lemma edge_sort_key_inject:
  assumes "we_condition e \<noteq> Some []" and "we_condition e' \<noteq> Some []"
    and "edge_sort_key e = edge_sort_key e'"
  shows "e = e'"
proof -
  have "we_from e = we_from e'" "we_to e = we_to e'" "we_kind e = we_kind e'"
    "unwrap_or_default (we_condition e) = unwrap_or_default (we_condition e')"
    using assms(3) by (simp_all add: edge_sort_key_def)
  moreover from this(4) have "we_condition e = we_condition e'"
    using assms(1,2) by (auto simp: unwrap_or_default_def split: option.splits)
  ultimately show ?thesis by simp
qed

lemma canonical_determined:
  assumes "same_graph ir ir'" and "distinct (node_ids ir)"
    and "\<forall>e\<in>set (wf_edges ir). we_condition e \<noteq> Some []"
  shows "canonical ir = canonical ir'"
proof -
  have "sort_key wn_id (wf_nodes ir) = sort_key wn_id (wf_nodes ir')"
    using assms by - (rule sort_key_determined, simp_all add: same_graph_def node_ids_def distinct_map)
  moreover have "sort_key edge_sort_key (wf_edges ir) = sort_key edge_sort_key (wf_edges ir')"
    using assms edge_sort_key_inject by - (rule sort_key_determined, auto simp: same_graph_def inj_on_def)
  ultimately show ?thesis
    using assms(1) by (simp add: canonical_def same_graph_def)
qed


lemma from_json_Inr_iff:
  "from_json de s = Inr ir \<longleftrightarrow> de s = Inr ir \<and>
    (\<forall>n\<in>set (wf_nodes ir). wn_selected_model n = None) \<and> well_formed ir"
  by (auto simp: from_json_def validate_Nil_iff [symmetric] split: if_splits option.splits)

section \<open>Properties\<close>

definition demo_node :: "string \<Rightarrow> workflow_node_kind \<Rightarrow> workflow_node" where
  "demo_node i k = \<lparr>wn_id = i, wn_kind = k, wn_capability = None, wn_selected_model = None,
     wn_config = []\<rparr>"

definition demo_edge :: workflow_edge where
  "demo_edge = \<lparr>we_from = ''a'', we_to = ''b'', we_kind = EkSequential, we_condition = None\<rparr>"

definition demo_ir :: workflow_ir where
  "demo_ir = \<lparr>wf_version = 1, wf_workflow_id = 42,
     wf_nodes = [demo_node ''b'' NkOutput, demo_node ''a'' NkTask],
     wf_edges = [demo_edge], wf_metadata = workflow_metadata_default\<rparr>"

definition demo_ir_sorted :: workflow_ir where
  "demo_ir_sorted = demo_ir\<lparr>wf_nodes := [demo_node ''a'' NkTask, demo_node ''b'' NkOutput]\<rparr>"

lemma demo_ir_valid: "well_formed demo_ir"
  unfolding validate_Nil_iff [symmetric] by code_simp


text \<open>C20. The untrusted intake is sound and complete: \<open>from_json\<close> accepts a text if and only if
  it decodes to a well-formed workflow none of whose nodes carries a pre-bound model.\<close>

theorem intake_exact:
  "from_json de s = Inr ir \<longleftrightarrow> de s = Inr ir \<and>
    (\<forall>n\<in>set (wf_nodes ir). wn_selected_model n = None) \<and> well_formed ir"
  by (rule from_json_Inr_iff)

theorem intake_exact_witness:
  "from_json (\<lambda>_. Inr demo_ir :: unit + workflow_ir) [] = Inr demo_ir"
proof -
  have "\<forall>n\<in>set (wf_nodes demo_ir). wn_selected_model n = None"
    by (simp add: demo_ir_def demo_node_def)
  then show ?thesis
    using intake_exact [of "\<lambda>_. Inr demo_ir :: unit + workflow_ir" "[]" demo_ir] demo_ir_valid by simp
qed

text \<open>Canonical JSON is deterministic: two workflows that differ only in the order of their
  nodes and edges have the same canonical text, provided node ids are unique and no edge carries an
  empty condition string (which shares its sort key with an absent condition).\<close>

theorem canonical_json_deterministic:
  assumes "same_graph ir ir'" and "distinct (node_ids ir)"
    and "\<forall>e\<in>set (wf_edges ir). we_condition e \<noteq> Some []"
  shows "to_canonical_json ser ir = to_canonical_json ser ir'"
  using canonical_determined [OF assms] by (simp add: to_canonical_json_def)

theorem canonical_json_deterministic_witness:
  "demo_ir \<noteq> demo_ir_sorted \<and>
    to_canonical_json (\<lambda>ir. Inr (concat (map wn_id (wf_nodes ir))) :: unit + string) demo_ir =
    to_canonical_json (\<lambda>ir. Inr (concat (map wn_id (wf_nodes ir)))) demo_ir_sorted"
proof -
  have "same_graph demo_ir demo_ir_sorted"
    by (simp add: same_graph_def demo_ir_def demo_ir_sorted_def add_mset_commute)
  moreover have "distinct (node_ids demo_ir)"
    by (simp add: demo_ir_def node_ids_def demo_node_def)
  moreover have "\<forall>e\<in>set (wf_edges demo_ir). we_condition e \<noteq> Some []"
    by (simp add: demo_ir_def demo_edge_def)
  moreover have "demo_ir \<noteq> demo_ir_sorted"
    by (simp add: demo_ir_def demo_ir_sorted_def demo_node_def)
  ultimately show ?thesis
    using canonical_json_deterministic by blast
qed



end
