(* ===== verification/Exec_Types.thy ===== *)
theory Exec_Types
  imports Json Monetary
begin

text \<open>
  The execution-layer types of \<open>crates/fusion-types/src/lib.rs\<close>: the IR that enters the compiler,
  strategies, the execution graph that leaves it, node states and results, and the error types. A
  \<open>HashMap\<close> keyed by strings is the finite map it denotes, as an association list in key order; no
  modelled operation depends on its iteration order.
\<close>

section \<open>Compiler input\<close>

datatype ir_node_kind =
  IkGenerate | IkReview | IkJudge | IkTransform | IkGate | IkConditional | IkLoop | IkSplit | IkJoin
  | IkBarrier

datatype strategy_kind =
  Single | Consensus | Reflection | Chain | Debate | ReAct | Fusion | Custom string

record ir_node =
  in_id :: uuid
  in_kind :: ir_node_kind
  in_strategy :: strategy_kind
  in_model :: "string option"
  in_config :: "json btree"

record ir_edge =
  ie_from :: uuid
  ie_to :: uuid
  ie_condition :: "string option"

record ir_metadata =
  im_policy_applied :: "string list"
  im_policy_version :: u64
  im_estimated_cost :: nano_usd
  im_estimated_tokens :: u64

record exec_ir =
  plan_id :: uuid
  ir_nodes :: "ir_node list"
  ir_edges :: "ir_edge list"
  ir_meta :: ir_metadata

definition as_label :: "(string \<Rightarrow> string) \<Rightarrow> strategy_kind \<Rightarrow> string" where
  \<comment> \<open>\<open>debug_str\<close> is Rust's \<open>Debug\<close> rendering of a string\<close>
  "as_label debug_str s = (case s of
     Single \<Rightarrow> ''Single'' | Consensus \<Rightarrow> ''Consensus'' | Reflection \<Rightarrow> ''Reflection''
   | Chain \<Rightarrow> ''Chain'' | Debate \<Rightarrow> ''Debate'' | ReAct \<Rightarrow> ''ReAct'' | Fusion \<Rightarrow> ''Fusion''
   | Custom name \<Rightarrow> ''Custom('' @ debug_str name @ '')'')"

fun ir_kind_name :: "ir_node_kind \<Rightarrow> string" where
  "ir_kind_name IkGenerate = ''Generate''"
| "ir_kind_name IkReview = ''Review''"
| "ir_kind_name IkJudge = ''Judge''"
| "ir_kind_name IkTransform = ''Transform''"
| "ir_kind_name IkGate = ''Gate''"
| "ir_kind_name IkConditional = ''Conditional''"
| "ir_kind_name IkLoop = ''Loop''"
| "ir_kind_name IkSplit = ''Split''"
| "ir_kind_name IkJoin = ''Join''"
| "ir_kind_name IkBarrier = ''Barrier''"

section \<open>Compiler output\<close>

datatype execution_node_kind =
  LLMGenerate | LLMReview | LLMJudge | XTransform | XGate | XConditional | XLoop | XSplit | XJoin
  | XBarrier

record retry_policy =
  max_retries :: u32
  backoff_ms :: u64

record fallback_config =
  fb_model :: string
  fb_provider :: string

record execution_edge =
  ee_from :: uuid
  ee_to :: uuid
  ee_condition :: "string option"

datatype execution_node =
  ExecutionNode
    (en_id: uuid)
    (en_kind: execution_node_kind)
    (en_strategy: strategy_kind)
    (en_model: string)
    (en_retry_policy: retry_policy)
    (en_fallback: "fallback_config option")
    (en_config: "json btree")
    (en_subgraph: "execution_subgraph option")
and execution_subgraph =
  ExecutionSubgraph
    (sg_nodes: "execution_node list")
    (sg_edges: "execution_edge list")
    (entry_node_id: uuid)
    (exit_node_id: uuid)

record graph_metadata =
  gm_estimated_cost :: nano_usd
  gm_estimated_tokens :: u64
  gm_policy_version :: u64
  gm_max_depth :: u32
  gm_node_count :: u32

record execution_graph =
  graph_id :: uuid
  eg_nodes :: "execution_node list"
  eg_edges :: "execution_edge list"
  eg_metadata :: graph_metadata
  total_tokens :: u64
  total_cost :: nano_usd
  primitive_graph_hash :: u64

section \<open>Run-time state and results\<close>

datatype node_state = Pending | Running | Succeeded | Failed string | Skipped

record usage =
  prompt_tokens :: u32
  completion_tokens :: u32
  usage_total_tokens :: u32

record node_execution_result =
  nr_state :: node_state
  nr_usage :: "usage option"
  nr_latency_ms :: u64
  nr_output :: "json option"

record node_exec_context =
  parent_outputs :: "uuid \<rightharpoonup> json"
  graph_outputs :: "uuid \<rightharpoonup> json"

record execution_result =
  instance_id :: uuid
  success :: bool
  outputs :: "uuid \<rightharpoonup> json"
  total_latency_ms :: u64
  er_total_cost :: nano_usd
  er_total_tokens :: u64
  terminal_node_id :: "uuid option"
  final_output :: "json option"

section \<open>Model catalog and compiler errors\<close>

record model_catalog =
  mc_code :: string
  mc_debug :: string
  mc_architecture :: string
  mc_general :: string
  mc_creative :: string
  mc_analysis :: string
  mc_fast :: string
  mc_cheap :: string

text \<open>The message texts the compiler formats, one constructor each.\<close>

datatype compiler_message =
    IrEmpty
  | IrTooLarge nat
  | UnknownSource uuid
  | UnknownTarget uuid
  | ConditionalNoEdge
  | ConditionalNoCondition
  | LoopNoEdge
  | LoopNoMaxIterations
  | SplitTooFew nat
  | JoinTooFew nat
  | BarrierNoIncoming
  | BarrierNoOutgoing
  | IllegalCycleDetected
  | CustomEmptyName
  | CustomUnregistered string
  | ConsensusCountZero
  | ConsensusCountTooLarge u64
  | ConsensusMembersTooMany nat
  | ReflectionZeroCycles
  | ChainStagesNotArray
  | ChainStagesEmpty
  | ChainStagesTooMany nat
  | ChainStepsNotInteger
  | ChainStepsZero
  | DebateTooFewRoles nat
  | ReActZeroRounds
  | BudgetExceeded
  | PolicyDenied string string uuid

datatype compiler_error =
    ValidationError string "uuid option" compiler_message
  | PassError string string

end
