(* ===== verification/Policy.thy ===== *)
theory Policy
  imports Exec_Types
begin

text \<open>
  \<open>crates/fusion-compiler/src/policy.rs\<close>: policy rules, wildcard matching of targets, conditions on
  node facts, and the precedence engine. \<open>json_text\<close> stands for \<open>serde_json::Value::to_string\<close>.
\<close>

section \<open>Rules\<close>

datatype policy_effect = Deny | Approval | Allow

instantiation policy_effect :: linorder
begin

definition effect_rank :: "policy_effect \<Rightarrow> nat" where
  "effect_rank e = (case e of Deny \<Rightarrow> 0 | Approval \<Rightarrow> 1 | Allow \<Rightarrow> 2)"

definition less_eq_policy_effect :: "policy_effect \<Rightarrow> policy_effect \<Rightarrow> bool" where
  "less_eq_policy_effect a b \<longleftrightarrow> effect_rank a \<le> effect_rank b"

definition less_policy_effect :: "policy_effect \<Rightarrow> policy_effect \<Rightarrow> bool" where
  "less_policy_effect a b \<longleftrightarrow> effect_rank a < effect_rank b"

instance
  by standard (auto simp: less_eq_policy_effect_def less_policy_effect_def effect_rank_def
      split: policy_effect.splits)

end

record policy_condition =
  pc_field :: string
  pc_expected :: json

record policy_action =
  pa_action_type :: string
  pa_parameters :: "json btree"

record policy_rule =
  rule_id :: string
  target_pattern :: string
  rule_priority :: u32
  rule_effect :: policy_effect
  rule_conditions :: "policy_condition list"
  rule_actions :: "policy_action list"

record policy_facts =
  pf_model :: string
  pf_strategy :: string
  pf_node_kind :: "string option"
  pf_capability :: "string option"

datatype policy_match_event = RuleMatched string string policy_effect | NodeInserted uuid uuid

section \<open>Matching\<close>

abbreviation star :: char where "star \<equiv> CHR ''*''"

fun match_segments :: "string list \<Rightarrow> string \<Rightarrow> bool" where
  "match_segments [] cursor = True"
| "match_segments (seg # segs) cursor = (case find_after seg cursor of
     Some cursor' \<Rightarrow> match_segments segs cursor'
   | None \<Rightarrow> False)"

definition pattern_matches :: "string \<Rightarrow> string \<Rightarrow> bool" where
  "pattern_matches pattern candidate = (case split_once star pattern of
     None \<Rightarrow> pattern = candidate
   | Some (prefix, suffix) \<Rightarrow>
       (case strip_prefix prefix candidate of
          None \<Rightarrow> False
        | Some rest \<Rightarrow>
            if suffix = [] then True
            else (case strip_suffix [star] suffix of
                    Some middle \<Rightarrow> match_segments (split_on star middle) rest
                  | None \<Rightarrow> ends_with rest suffix)))"

definition evaluate_condition ::
  "(json \<Rightarrow> string) \<Rightarrow> policy_condition \<Rightarrow> policy_facts \<Rightarrow> bool" where
  "evaluate_condition json_text condition facts =
    (let actual =
       (if pc_field condition = ''kind'' then pf_node_kind facts
        else if pc_field condition = ''model'' then Some (pf_model facts)
        else if pc_field condition = ''strategy'' then Some (pf_strategy facts)
        else if pc_field condition = ''capability'' then pf_capability facts
        else None)
     in case actual of
          Some v \<Rightarrow> v = (case as_str (pc_expected condition) of
                           Some s \<Rightarrow> s | None \<Rightarrow> json_text (pc_expected condition))
        | None \<Rightarrow> False)"

definition rule_matches ::
  "(json \<Rightarrow> string) \<Rightarrow> string \<Rightarrow> policy_facts \<Rightarrow> policy_rule \<Rightarrow> bool" where
  "rule_matches json_text symbol facts r \<longleftrightarrow>
    pattern_matches (target_pattern r) symbol \<and>
    list_all (\<lambda>c. evaluate_condition json_text c facts) (rule_conditions r)"

section \<open>Precedence\<close>

definition precedence_le :: "policy_rule \<Rightarrow> policy_rule \<Rightarrow> bool" where
  \<comment> \<open>comparison of the keys \<open>(Reverse(effect), priority)\<close>\<close>
  "precedence_le a b \<longleftrightarrow> rule_effect b < rule_effect a \<or>
    (rule_effect a = rule_effect b \<and> rule_priority a \<le> rule_priority b)"

fun max_rule :: "policy_rule \<Rightarrow> policy_rule list \<Rightarrow> policy_rule" where
  \<comment> \<open>\<open>Iterator::max_by_key\<close>: of equal maxima the last one\<close>
  "max_rule best [] = best"
| "max_rule best (r # rs) = max_rule (if precedence_le best r then r else best) rs"

definition evaluate_matching_rule ::
  "(json \<Rightarrow> string) \<Rightarrow> policy_rule list \<Rightarrow> string \<Rightarrow> policy_facts \<Rightarrow> policy_rule option" where
  "evaluate_matching_rule json_text rules symbol facts =
    (case filter (rule_matches json_text symbol facts) rules of
       [] \<Rightarrow> None
     | r # rs \<Rightarrow> Some (max_rule r rs))"

section \<open>The precedence engine selects a greatest matching rule\<close>

lemma precedence_le_refl [simp]: "precedence_le r r"
  by (simp add: precedence_le_def)

lemma precedence_le_trans: "precedence_le a b \<Longrightarrow> precedence_le b c \<Longrightarrow> precedence_le a c"
  by (auto simp: precedence_le_def)

lemma precedence_le_total: "precedence_le a b \<or> precedence_le b a"
  by (auto simp: precedence_le_def)

lemma max_rule_in: "max_rule best rs \<in> insert best (set rs)"
proof (induction rs arbitrary: best)
  case (Cons x xs)
  show ?case
    using Cons.IH [of "if precedence_le best x then x else best"] by (simp split: if_splits) blast+
qed simp

lemma max_rule_ge: "precedence_le best (max_rule best rs)"
proof (induction rs arbitrary: best)
  case (Cons x xs)
  show ?case
    using Cons.IH [of x] Cons.IH [of best] precedence_le_trans [of best x] by simp
qed simp

lemma max_rule_greatest: "r \<in> insert best (set rs) \<Longrightarrow> precedence_le r (max_rule best rs)"
proof (induction rs arbitrary: best)
  case (Cons x xs)
  let ?b = "if precedence_le best x then x else best"
  have "precedence_le x ?b" "precedence_le best ?b"
    using precedence_le_total [of best x] by auto
  then have "precedence_le x (max_rule ?b xs)" "precedence_le best (max_rule ?b xs)"
    using precedence_le_trans [OF _ max_rule_ge] by blast+
  then show ?case
    using Cons.IH [of ?b] Cons.prems by (simp del: if_image_distrib split del: if_split) blast
qed simp

lemma evaluate_matching_rule_Some:
  assumes "evaluate_matching_rule jt rules symbol facts = Some r"
  shows "r \<in> set rules" "rule_matches jt symbol facts r"
    "\<And>r'. r' \<in> set rules \<Longrightarrow> rule_matches jt symbol facts r' \<Longrightarrow> precedence_le r' r"
proof -
  let ?ms = "filter (rule_matches jt symbol facts) rules"
  obtain m ms where ms: "?ms = m # ms" "r = max_rule m ms"
    using assms by (auto simp: evaluate_matching_rule_def split: list.splits)
  have "r \<in> set ?ms"
    using ms max_rule_in [of m ms] by auto
  then show "r \<in> set rules" "rule_matches jt symbol facts r" by auto
  fix r' assume "r' \<in> set rules" "rule_matches jt symbol facts r'"
  then have "r' \<in> set ?ms" by simp
  then show "precedence_le r' r"
    using ms max_rule_greatest [of r' m ms] by simp
qed

lemma evaluate_matching_rule_None:
  "evaluate_matching_rule jt rules symbol facts = None \<longleftrightarrow>
    (\<forall>r\<in>set rules. \<not> rule_matches jt symbol facts r)"
proof -
  have "evaluate_matching_rule jt rules symbol facts = None \<longleftrightarrow>
      filter (rule_matches jt symbol facts) rules = []"
    by (simp add: evaluate_matching_rule_def split: list.split)
  then show ?thesis by (simp add: filter_empty_conv)
qed

section \<open>Wildcards\<close>

text \<open>The usual meaning of a pattern in which \<open>*\<close> stands for any text.\<close>

fun glob :: "string \<Rightarrow> string \<Rightarrow> bool" where
  "glob [] s = (s = [])"
| "glob (p # ps) s =
    (if p = star then glob ps s \<or> (case s of [] \<Rightarrow> False | _ # cs \<Rightarrow> glob (p # ps) cs)
     else (case s of [] \<Rightarrow> False | c # cs \<Rightarrow> p = c \<and> glob ps cs))"

lemma glob_literal:
  "star \<notin> set seg \<Longrightarrow> glob (seg @ p) s \<longleftrightarrow> (\<exists>r. s = seg @ r \<and> glob p r)"
proof (induction seg arbitrary: s)
  case (Cons x seg)
  then show ?case by (cases s) auto
qed simp

lemma glob_star: "glob (star # p) s \<longleftrightarrow> (\<exists>u v. s = u @ v \<and> glob p v)"
proof (induction s)
  case (Cons c s)
  have "(\<exists>u v. c # s = u @ v \<and> glob p v) \<longleftrightarrow> glob p (c # s) \<or> (\<exists>u v. s = u @ v \<and> glob p v)"
    by (metis (no_types, lifting) append_eq_Cons_conv)
  with Cons show ?case by simp
qed simp

lemma glob_star_mono: "glob (star # p) r \<Longrightarrow> glob (star # p) (x @ r)"
  unfolding glob_star by (metis append_assoc)

lemma glob_only_star [simp]: "glob [star] s"
  by (simp add: glob_star del: glob.simps(2))

lemma find_after_longest:
  "s = u @ seg @ r \<Longrightarrow> \<exists>x. find_after seg s = Some (x @ r)"
proof (induction u arbitrary: s)
  case Nil
  then show ?case by (intro exI [of _ "[]"]) simp
next
  case (Cons c u)
  then obtain x where x: "find_after seg (u @ seg @ r) = Some (x @ r)" by blast
  show ?case
  proof (cases "strip_prefix seg s")
    case None
    then show ?thesis using Cons.prems x by auto
  next
    case (Some r')
    then have "s = seg @ r'" by simp
    then have eq: "seg @ r' = (c # u) @ seg @ r"
      using Cons.prems by simp
    have "drop (length (c # u)) r' = drop (length seg + length (c # u)) (seg @ r')"
      by simp
    also have "\<dots> = drop (length seg + length (c # u)) ((c # u) @ seg @ r)"
      by (simp only: eq)
    also have "\<dots> = r" by simp
    finally have "r' = take (length (c # u)) r' @ r"
      by (metis append_take_drop_id)
    then show ?thesis
      using \<open>s = seg @ r'\<close> by (metis find_after_append)
  qed
qed

lemma match_segments_glob:
  "list_all (\<lambda>seg. star \<notin> set seg) segs \<Longrightarrow>
    match_segments segs s \<longleftrightarrow> glob (concat (map (\<lambda>seg. star # seg) segs) @ [star]) s"
proof (induction segs arbitrary: s)
  case (Cons seg segs)
  let ?P = "concat (map (\<lambda>seg. star # seg) segs) @ [star]"
  obtain Q where Q: "?P = star # Q" by (cases segs) auto
  have starless: "star \<notin> set seg" using Cons.prems by simp
  have "glob (concat (map (\<lambda>seg. star # seg) (seg # segs)) @ [star]) s \<longleftrightarrow>
      (\<exists>u r. s = u @ seg @ r \<and> glob ?P r)"
    using glob_star [of "seg @ ?P" s] glob_literal [OF starless, of ?P]
    by (simp del: glob.simps) blast
  also have "\<dots> \<longleftrightarrow> match_segments (seg # segs) s"
  proof (cases "find_after seg s")
    case None
    then have "\<forall>u r. s \<noteq> u @ seg @ r"
      unfolding find_after_None_iff .
    with None show ?thesis by simp
  next
    case (Some r0)
    then have "(\<exists>u r. s = u @ seg @ r \<and> glob ?P r) \<longleftrightarrow> glob ?P r0"
      using find_after_SomeD [OF Some] find_after_longest [of s _ seg] glob_star_mono [of Q]
      unfolding Q by (metis option.inject)
    with Some Cons show ?thesis by simp
  qed
  finally show ?case by simp
qed (simp del: glob.simps(2))

lemma split_on_segments: "list_all (\<lambda>seg. c \<notin> set seg) (split_on c s)"
  by (induction s) (auto split: list.splits)

lemma split_on_nonempty: "split_on c s \<noteq> []"
  by (induction s) (auto split: list.splits)

lemma split_on_join: "concat (map (\<lambda>seg. c # seg) (split_on c s)) = c # s"
proof (induction s)
  case (Cons x xs)
  then show ?case
    using split_on_nonempty [of c xs] by (cases "split_on c xs") auto
qed simp

text \<open>Target patterns mean what wildcards mean: for a pattern with at most one \<open>*\<close>, and for a
  pattern of any number of stars whose last character is one, \<open>pattern_matches\<close> accepts exactly the
  texts the pattern denotes with each \<open>*\<close> standing for an arbitrary text; in particular the greedy
  left-to-right search for the inner segments loses no match.\<close>

theorem pattern_matches_glob:
  assumes "count_list pattern star \<le> 1 \<or> last pattern = star \<and> pattern \<noteq> []"
  shows "pattern_matches pattern candidate = glob pattern candidate"
proof (cases "split_once star pattern")
  case None
  then have "star \<notin> set pattern" by (simp add: split_once_None_iff)
  from glob_literal [OF this, of "[]"] None show ?thesis
    by (auto simp: pattern_matches_def)
next
  case (Some ps)
  obtain prefix suffix where ps: "ps = (prefix, suffix)" by (cases ps)
  with Some have pat: "pattern = prefix @ star # suffix" and starless: "star \<notin> set prefix"
    by (simp_all add: split_once_Some_iff)
  have glob: "glob pattern candidate \<longleftrightarrow> (\<exists>rest. candidate = prefix @ rest \<and> glob (star # suffix) rest)"
    using glob_literal [OF starless] pat by blast
  have matches: "pattern_matches pattern candidate \<longleftrightarrow> (\<exists>rest. candidate = prefix @ rest \<and>
      (suffix = [] \<or> (case strip_suffix [star] suffix of
         Some middle \<Rightarrow> match_segments (split_on star middle) rest | None \<Rightarrow> ends_with rest suffix)))"
    by (cases "strip_prefix prefix candidate")
      (use Some ps in \<open>auto simp: pattern_matches_def\<close>)
  have "glob (star # suffix) rest \<longleftrightarrow> suffix = [] \<or> (case strip_suffix [star] suffix of
         Some middle \<Rightarrow> match_segments (split_on star middle) rest | None \<Rightarrow> ends_with rest suffix)" for rest
  proof (cases "strip_suffix [star] suffix")
    case None
    then have "star \<notin> set suffix" if "suffix \<noteq> []"
      using assms that pat by (auto simp: count_list_append count_list_0_iff)
        (metis append_butlast_last_id strip_suffix_iff option.distinct(1))
    with None show ?thesis
      by (cases "suffix = []")
        (auto simp: ends_with_iff glob_star glob_literal [of suffix "[]", simplified] simp del: glob.simps(2))
  next
    case (Some middle)
    then have "suffix = middle @ [star]" by simp
    then show ?thesis
      using Some match_segments_glob [of "split_on star middle" rest, OF split_on_segments]
      by (simp add: split_on_join del: glob.simps)
  qed
  then show ?thesis
    unfolding glob matches by blast
qed

theorem pattern_matches_glob_witness:
  "pattern_matches ''openai/*'' ''openai/gpt-4o'' = glob ''openai/*'' ''openai/gpt-4o'' \<and>
   pattern_matches ''a*b*c*'' ''axxbyc'' = glob ''a*b*c*'' ''axxbyc''"
  using pattern_matches_glob [of "''openai/*''" "''openai/gpt-4o''"]
    pattern_matches_glob [of "''a*b*c*''" "''axxbyc''"] by simp

text \<open>A pattern with two or more stars that does not end in one is not matched segment by
  segment: everything after the first star is compared literally with the end of the text, so
  \<open>a*b*c\<close> does not match \<open>axbyc\<close>.\<close>

theorem inner_star_not_matched:
  "glob ''a*b*c'' ''axbyc'' \<and> \<not> pattern_matches ''a*b*c'' ''axbyc'' \<and>
    pattern_matches ''a*b*c'' ''axb*c''"
  by code_simp

text \<open>C17. The precedence engine is exact: it returns nothing only if no rule matches, and otherwise
  a matching rule that no matching rule beats: any Deny wins over any Approval, any Approval over any
  Allow, and within one effect the highest priority wins.\<close>

theorem precedence_engine_exact:
  "case evaluate_matching_rule json_text rules symbol facts of
     None \<Rightarrow> (\<forall>r\<in>set rules. \<not> rule_matches json_text symbol facts r)
   | Some d \<Rightarrow> d \<in> set rules \<and> rule_matches json_text symbol facts d \<and>
       (\<forall>r\<in>set rules. rule_matches json_text symbol facts r \<longrightarrow>
          rule_effect d < rule_effect r \<or>
          rule_effect d = rule_effect r \<and> rule_priority r \<le> rule_priority d)"
proof (cases "evaluate_matching_rule json_text rules symbol facts")
  case None
  then have "\<forall>r\<in>set rules. \<not> rule_matches json_text symbol facts r"
    by (rule evaluate_matching_rule_None [THEN iffD1])
  with None show ?thesis by simp
next
  case (Some d)
  have "rule_effect d < rule_effect r \<or> rule_effect d = rule_effect r \<and> rule_priority r \<le> rule_priority d"
    if "r \<in> set rules" "rule_matches json_text symbol facts r" for r
    using evaluate_matching_rule_Some(3) [OF Some that] by (auto simp: precedence_le_def)
  with Some evaluate_matching_rule_Some(1,2) [OF Some] show ?thesis by simp
qed

definition demo_rule :: "string \<Rightarrow> u32 \<Rightarrow> policy_effect \<Rightarrow> policy_rule" where
  "demo_rule i p e = \<lparr>rule_id = i, target_pattern = ''openai/*'', rule_priority = p, rule_effect = e,
     rule_conditions = [], rule_actions = []\<rparr>"

definition demo_rules :: "policy_rule list" where
  "demo_rules = [demo_rule ''allow'' 9 Allow, demo_rule ''deny'' 1 Deny]"

definition demo_facts :: policy_facts where
  "demo_facts = \<lparr>pf_model = [], pf_strategy = ''Single'', pf_node_kind = None, pf_capability = None\<rparr>"

theorem precedence_engine_exact_witness:
  "evaluate_matching_rule (\<lambda>_. []) demo_rules ''openai/gpt'' demo_facts = Some (demo_rule ''deny'' 1 Deny) \<and>
   rule_effect (demo_rule ''deny'' 1 Deny) < rule_effect (demo_rule ''allow'' 9 Allow)"
proof -
  have e: "evaluate_matching_rule (\<lambda>_. []) demo_rules ''openai/gpt'' demo_facts =
      Some (demo_rule ''deny'' 1 Deny)" by code_simp
  have "rule_matches (\<lambda>_. []) ''openai/gpt'' demo_facts (demo_rule ''allow'' 9 Allow)" by code_simp
  moreover have "demo_rule ''allow'' 9 Allow \<in> set demo_rules"
    by (simp add: demo_rules_def)
  ultimately show ?thesis
    using precedence_engine_exact [where json_text = "\<lambda>_. []" and rules = demo_rules and
        symbol = "''openai/gpt''" and facts = demo_facts] e
    by (auto simp: demo_rule_def)
qed

end
