(* ===== verification/Strategy.thy ===== *)
theory Strategy
  imports Exec_Types
begin

text \<open>
  \<open>crates/fusion-compiler/src/strategy_compiler.rs\<close> (the lowering validator) and
  \<open>crates/fusion-compiler/src/strategy_expansion.rs\<close> (the subgraph each strategy expands to). The
  uuid crate is a parameter: \<open>v5_of\<close> is \<open>Uuid::new_v5\<close> (namespace, name) and \<open>show_uuid\<close> the textual form
  of a uuid.
\<close>

section \<open>Validation of strategy configuration\<close>

definition MAX_CONSENSUS_MEMBERS :: nat where "MAX_CONSENSUS_MEMBERS = 64"
definition MIN_CHAIN_STEPS :: nat where "MIN_CHAIN_STEPS = 1"
definition MAX_CHAIN_STEPS :: nat where "MAX_CHAIN_STEPS = 32"
definition DEFAULT_CHAIN_STEPS :: nat where "DEFAULT_CHAIN_STEPS = 2"

definition lowering_error :: "ir_node \<Rightarrow> compiler_message \<Rightarrow> compiler_error" where
  "lowering_error n m = ValidationError ''strategy_lowering'' (Some (in_id n)) m"

definition config_u64 :: "json btree \<Rightarrow> string \<Rightarrow> u64 option" where
  "config_u64 config k = Option.bind (map_of config k) as_u64"

definition config_array :: "json btree \<Rightarrow> string \<Rightarrow> json list option" where
  "config_array config k = Option.bind (map_of config k) as_array"

definition validate_consensus_config :: "ir_node \<Rightarrow> compiler_error + unit" where
  "validate_consensus_config n =
    and_then
      (case config_u64 (in_config n) ''count'' of
         None \<Rightarrow> Inr ()
       | Some c \<Rightarrow>
           if c = 0 then Inl (lowering_error n ConsensusCountZero)
           else if MAX_CONSENSUS_MEMBERS < unat c then Inl (lowering_error n (ConsensusCountTooLarge c))
           else Inr ())
      (\<lambda>_. case config_array (in_config n) ''members'' of
         None \<Rightarrow> Inr ()
       | Some members \<Rightarrow>
           if MAX_CONSENSUS_MEMBERS < length members
           then Inl (lowering_error n (ConsensusMembersTooMany (length members)))
           else Inr ())"

definition validate_reflection_config :: "ir_node \<Rightarrow> compiler_error + unit" where
  "validate_reflection_config n =
    (if config_u64 (in_config n) ''max_cycles'' = Some 0
     then Inl (lowering_error n ReflectionZeroCycles) else Inr ())"

definition validate_chain_config :: "ir_node \<Rightarrow> compiler_error + unit" where
  "validate_chain_config n = (case map_of (in_config n) ''stages'' of
     Some stages_val \<Rightarrow>
       and_then (ok_or (lowering_error n ChainStagesNotArray) (as_array stages_val)) (\<lambda>stages.
         if stages = [] then Inl (lowering_error n ChainStagesEmpty)
         else if MAX_CHAIN_STEPS < length stages
         then Inl (lowering_error n (ChainStagesTooMany (length stages)))
         else Inr ())
   | None \<Rightarrow> (case map_of (in_config n) ''steps'' of
       Some steps_val \<Rightarrow>
         and_then (ok_or (lowering_error n ChainStepsNotInteger) (as_u64 steps_val)) (\<lambda>steps.
           if steps = 0 then Inl (lowering_error n ChainStepsZero) else Inr ())
     | None \<Rightarrow> Inr ()))"

definition validate_debate_config :: "ir_node \<Rightarrow> compiler_error + unit" where
  "validate_debate_config n = (case config_array (in_config n) ''roles'' of
     None \<Rightarrow> Inr ()
   | Some roles \<Rightarrow>
       if length roles < 2 then Inl (lowering_error n (DebateTooFewRoles (length roles))) else Inr ())"

definition validate_react_config :: "ir_node \<Rightarrow> compiler_error + unit" where
  "validate_react_config n =
    (if config_u64 (in_config n) ''max_tool_rounds'' = Some 0
     then Inl (lowering_error n ReActZeroRounds) else Inr ())"

definition validate_fusion_config :: "ir_node \<Rightarrow> compiler_error + unit" where
  "validate_fusion_config n = Inr ()"

definition validate_strategy :: "string set \<Rightarrow> ir_node \<Rightarrow> compiler_error + unit" where
  "validate_strategy registered_custom n = (case in_strategy n of
     Single \<Rightarrow> Inr ()
   | Consensus \<Rightarrow> validate_consensus_config n
   | Reflection \<Rightarrow> validate_reflection_config n
   | Chain \<Rightarrow> validate_chain_config n
   | Debate \<Rightarrow> validate_debate_config n
   | ReAct \<Rightarrow> validate_react_config n
   | Fusion \<Rightarrow> validate_fusion_config n
   | Custom name \<Rightarrow>
       if name = [] then Inl (lowering_error n CustomEmptyName)
       else if name \<notin> registered_custom then Inl (lowering_error n (CustomUnregistered name))
       else Inr ())"

definition strategy_lowering :: "string set \<Rightarrow> exec_ir \<Rightarrow> compiler_error + exec_ir" where
  "strategy_lowering registered_custom ir =
    and_then (try_for (\<lambda>n _. validate_strategy registered_custom n) (ir_nodes ir) ()) (\<lambda>_. Inr ir)"

section \<open>Expansion\<close>

definition NAMESPACE_URL :: uuid where
  "NAMESPACE_URL = 0x6ba7b8119dad11d180b400c04fd430c8"

definition child_name :: "(uuid \<Rightarrow> string) \<Rightarrow> uuid \<Rightarrow> string \<Rightarrow> nat \<Rightarrow> string" where
  "child_name show_uuid parent role index =
    show_uuid parent @ '':'' @ role @ '':'' @ show_nat index"

definition child_id ::
  "(uuid \<Rightarrow> string \<Rightarrow> uuid) \<Rightarrow> (uuid \<Rightarrow> string) \<Rightarrow> uuid \<Rightarrow> string \<Rightarrow> nat \<Rightarrow> uuid" where
  "child_id v5_of show_uuid parent role index = v5_of NAMESPACE_URL (child_name show_uuid parent role index)"

definition child_node :: "execution_node \<Rightarrow> uuid \<Rightarrow> execution_node_kind \<Rightarrow> string \<Rightarrow> execution_node" where
  "child_node node i kind model =
    ExecutionNode i kind Single model (en_retry_policy node) (en_fallback node) (en_config node) None"

definition plain_edge :: "uuid \<Rightarrow> uuid \<Rightarrow> execution_edge" where
  "plain_edge f t = \<lparr>ee_from = f, ee_to = t, ee_condition = None\<rparr>"

definition resolved_chain_steps :: "json btree \<Rightarrow> nat" where
  "resolved_chain_steps config = (case config_array config ''stages'' of
     Some stages \<Rightarrow> clamp (length stages) MIN_CHAIN_STEPS MAX_CHAIN_STEPS
   | None \<Rightarrow> (case config_u64 config ''steps'' of
       Some steps \<Rightarrow> clamp (unat steps) MIN_CHAIN_STEPS MAX_CHAIN_STEPS
     | None \<Rightarrow> DEFAULT_CHAIN_STEPS))"

definition consensus_members :: "execution_node \<Rightarrow> string list" where
  "consensus_members node =
    (let count = clamp (case config_u64 (en_config node) ''count'' of None \<Rightarrow> 3 | Some c \<Rightarrow> unat c)
                   1 MAX_CONSENSUS_MEMBERS;
         members = take MAX_CONSENSUS_MEMBERS (case config_array (en_config node) ''members'' of
                     None \<Rightarrow> [] | Some items \<Rightarrow> List.map_filter as_str items)
     in if members = [] then replicate count (en_model node) else members)"

definition expand_consensus ::
  "(uuid \<Rightarrow> string \<Rightarrow> uuid) \<Rightarrow> (uuid \<Rightarrow> string) \<Rightarrow> execution_node \<Rightarrow> execution_subgraph" where
  "expand_consensus v5_of show_uuid node =
    (let cid = child_id v5_of show_uuid (en_id node);
         members = consensus_members node;
         gens = map (\<lambda>(i, model). child_node node (cid ''gen'' i) LLMGenerate model) (enumerate 0 members);
         judge = child_node node (cid ''judge'' 0) LLMJudge (en_model node)
     in ExecutionSubgraph (gens @ [judge])
          (map (\<lambda>g. plain_edge (en_id g) (en_id judge)) gens)
          (case gens of [] \<Rightarrow> en_id judge | g # _ \<Rightarrow> en_id g)
          (en_id judge))"

definition expand_reflection ::
  "(uuid \<Rightarrow> string \<Rightarrow> uuid) \<Rightarrow> (uuid \<Rightarrow> string) \<Rightarrow> execution_node \<Rightarrow> execution_subgraph" where
  "expand_reflection v5_of show_uuid node =
    (let gen_id = child_id v5_of show_uuid (en_id node) ''generator'' 0;
         rev_id = child_id v5_of show_uuid (en_id node) ''reviewer'' 0
     in ExecutionSubgraph
          [child_node node gen_id LLMGenerate (en_model node), child_node node rev_id LLMReview (en_model node)]
          [plain_edge gen_id rev_id] gen_id rev_id)"

definition expand_chain ::
  "(uuid \<Rightarrow> string \<Rightarrow> uuid) \<Rightarrow> (uuid \<Rightarrow> string) \<Rightarrow> execution_node \<Rightarrow> execution_subgraph" where
  "expand_chain v5_of show_uuid node =
    (let cid = child_id v5_of show_uuid (en_id node);
         steps = resolved_chain_steps (en_config node);
         nodes = map (\<lambda>i. child_node node (cid ''step'' i) LLMGenerate (en_model node)) [0..<steps];
         edges = map (\<lambda>i. plain_edge (en_id (nodes ! (i - 1))) (cid ''step'' i)) [1..<steps]
     in ExecutionSubgraph nodes edges
          (case nodes of [] \<Rightarrow> en_id node | n # _ \<Rightarrow> en_id n)
          (if nodes = [] then en_id node else en_id (last nodes)))"

definition expand_debate ::
  "(uuid \<Rightarrow> string \<Rightarrow> uuid) \<Rightarrow> (uuid \<Rightarrow> string) \<Rightarrow> execution_node \<Rightarrow> execution_subgraph" where
  "expand_debate v5_of show_uuid node =
    (let prop_id = child_id v5_of show_uuid (en_id node) ''proposer'' 0;
         opp_id = child_id v5_of show_uuid (en_id node) ''opposer'' 0;
         judge_id = child_id v5_of show_uuid (en_id node) ''judge'' 0
     in ExecutionSubgraph
          [child_node node prop_id LLMGenerate (en_model node),
           child_node node opp_id LLMGenerate (en_model node),
           child_node node judge_id LLMJudge (en_model node)]
          [plain_edge prop_id opp_id, plain_edge opp_id judge_id] prop_id judge_id)"

definition expand_react ::
  "(uuid \<Rightarrow> string \<Rightarrow> uuid) \<Rightarrow> (uuid \<Rightarrow> string) \<Rightarrow> execution_node \<Rightarrow> execution_subgraph" where
  "expand_react v5_of show_uuid node =
    (let reason_id = child_id v5_of show_uuid (en_id node) ''reason'' 0;
         tool_id = child_id v5_of show_uuid (en_id node) ''tool'' 0
     in ExecutionSubgraph
          [child_node node reason_id LLMGenerate (en_model node),
           child_node node tool_id XTransform (en_model node)]
          [plain_edge reason_id tool_id] reason_id tool_id)"

definition expand_fusion ::
  "(uuid \<Rightarrow> string \<Rightarrow> uuid) \<Rightarrow> (uuid \<Rightarrow> string) \<Rightarrow> execution_node \<Rightarrow> execution_subgraph" where
  "expand_fusion v5_of show_uuid node =
    (let cand1_id = child_id v5_of show_uuid (en_id node) ''candidate'' 0;
         cand2_id = child_id v5_of show_uuid (en_id node) ''candidate'' 1;
         merger_id = child_id v5_of show_uuid (en_id node) ''merger'' 0
     in ExecutionSubgraph
          [child_node node cand1_id LLMGenerate (en_model node),
           child_node node cand2_id LLMGenerate (en_model node),
           child_node node merger_id LLMJudge (en_model node)]
          [plain_edge cand1_id merger_id, plain_edge cand2_id merger_id] cand1_id merger_id)"

definition expand_custom ::
  "(uuid \<Rightarrow> string \<Rightarrow> uuid) \<Rightarrow> (uuid \<Rightarrow> string) \<Rightarrow> execution_node \<Rightarrow> string \<Rightarrow> execution_subgraph" where
  "expand_custom v5_of show_uuid node custom_name =
    (let custom_id = child_id v5_of show_uuid (en_id node) custom_name 0
     in ExecutionSubgraph [child_node node custom_id LLMGenerate (en_model node)] []
          custom_id custom_id)"

type_synonym strategy_compiler = "execution_node \<Rightarrow> string \<Rightarrow> execution_subgraph"

definition expanded_subgraph_with_custom ::
  "(uuid \<Rightarrow> string \<Rightarrow> uuid) \<Rightarrow> (uuid \<Rightarrow> string) \<Rightarrow> execution_node \<Rightarrow> strategy_compiler option \<Rightarrow>
    execution_subgraph option" where
  "expanded_subgraph_with_custom v5_of show_uuid node custom_compiler = (case en_strategy node of
     Single \<Rightarrow> None
   | Consensus \<Rightarrow> Some (expand_consensus v5_of show_uuid node)
   | Reflection \<Rightarrow> Some (expand_reflection v5_of show_uuid node)
   | Chain \<Rightarrow> Some (expand_chain v5_of show_uuid node)
   | Debate \<Rightarrow> Some (expand_debate v5_of show_uuid node)
   | ReAct \<Rightarrow> Some (expand_react v5_of show_uuid node)
   | Fusion \<Rightarrow> Some (expand_fusion v5_of show_uuid node)
   | Custom custom_name \<Rightarrow> map_option (\<lambda>c. c node custom_name) custom_compiler)"

definition expanded_subgraph ::
  "(uuid \<Rightarrow> string \<Rightarrow> uuid) \<Rightarrow> (uuid \<Rightarrow> string) \<Rightarrow> execution_node \<Rightarrow> execution_subgraph option" where
  "expanded_subgraph v5_of show_uuid node = expanded_subgraph_with_custom v5_of show_uuid node None"

definition expanded_subgraph_with_compilers ::
  "(uuid \<Rightarrow> string \<Rightarrow> uuid) \<Rightarrow> (uuid \<Rightarrow> string) \<Rightarrow> execution_node \<Rightarrow> (string \<rightharpoonup> strategy_compiler) \<Rightarrow>
    execution_subgraph option" where
  "expanded_subgraph_with_compilers v5_of show_uuid node custom_compilers = (case en_strategy node of
     Custom custom_name \<Rightarrow> map_option (\<lambda>c. c node custom_name) (custom_compilers custom_name)
   | _ \<Rightarrow> expanded_subgraph v5_of show_uuid node)"

section \<open>What an expansion looks like\<close>

definition sg_rel :: "execution_subgraph \<Rightarrow> (uuid \<times> uuid) set" where
  "sg_rel sg = {(ee_from e, ee_to e) | e. e \<in> set (sg_edges sg)}"

definition sg_ids :: "execution_subgraph \<Rightarrow> uuid set" where
  "sg_ids sg = en_id ` set (sg_nodes sg)"

definition closed_subgraph :: "execution_subgraph \<Rightarrow> bool" where
  "closed_subgraph sg \<longleftrightarrow> entry_node_id sg \<in> sg_ids sg \<and> exit_node_id sg \<in> sg_ids sg \<and>
     Field (sg_rel sg) \<subseteq> sg_ids sg \<and>
     (\<forall>n\<in>set (sg_nodes sg). en_strategy n = Single \<and> en_subgraph n = None) \<and>
     (\<forall>i\<in>sg_ids sg. (i, exit_node_id sg) \<in> (sg_rel sg)\<^sup>*)"

lemma child_node_simps [simp]:
  "en_id (child_node node i k m) = i" "en_kind (child_node node i k m) = k"
  "en_model (child_node node i k m) = m"
  "en_strategy (child_node node i k m) = Single" "en_subgraph (child_node node i k m) = None"
  by (simp_all add: child_node_def)

lemma plain_edge_simps [simp]: "ee_from (plain_edge f t) = f" "ee_to (plain_edge f t) = t"
  by (simp_all add: plain_edge_def)

lemma sg_rel_simp:
  "sg_rel (ExecutionSubgraph ns es i x) = (\<lambda>e. (ee_from e, ee_to e)) ` set es"
  by (auto simp: sg_rel_def)

lemma case_hd: "xs \<noteq> [] \<Longrightarrow> (case xs of [] \<Rightarrow> a | x # _ \<Rightarrow> f x) = f (hd xs)"
  by (cases xs) simp_all

lemma consensus_members_bounds:
  "0 < length (consensus_members node) \<and> length (consensus_members node) \<le> 64"
proof -
  have "1 \<le> clamp x 1 (64 :: nat) \<and> clamp x 1 64 \<le> 64" for x :: nat
    by (rule clamp_bounds) simp
  then show ?thesis
    by (auto simp: consensus_members_def Let_def MAX_CONSENSUS_MEMBERS_def not_le Suc_le_eq
        split: option.splits)
qed

lemma resolved_chain_steps_bounds:
  "0 < resolved_chain_steps config \<and> resolved_chain_steps config \<le> 32"
proof -
  have "1 \<le> clamp x 1 (32 :: nat) \<and> clamp x 1 32 \<le> 32" for x :: nat
    by (rule clamp_bounds) simp
  then show ?thesis
    by (auto simp: resolved_chain_steps_def MIN_CHAIN_STEPS_def MAX_CHAIN_STEPS_def
        DEFAULT_CHAIN_STEPS_def Suc_le_eq split: option.splits)
qed

definition gen_ids :: "(string \<Rightarrow> nat \<Rightarrow> uuid) \<Rightarrow> string list \<Rightarrow> uuid list" where
  "gen_ids cid members = map (cid ''gen'') [0..<length members]"

lemma expand_consensus_shape:
  fixes v5_of show_uuid node
  defines "cid \<equiv> child_id v5_of show_uuid (en_id node)"
  defines "sg \<equiv> expand_consensus v5_of show_uuid node"
  shows "map en_id (sg_nodes sg) = gen_ids cid (consensus_members node) @ [cid ''judge'' 0]"
    "sg_rel sg = (\<lambda>g. (g, cid ''judge'' 0)) ` set (gen_ids cid (consensus_members node))"
    "entry_node_id sg = cid ''gen'' 0" "exit_node_id sg = cid ''judge'' 0"
    "n \<in> set (sg_nodes sg) \<Longrightarrow> en_strategy n = Single \<and> en_subgraph n = None"
proof -
  let ?gens = "map (\<lambda>(i, model). child_node node (cid ''gen'' i) LLMGenerate model)
    (enumerate 0 (consensus_members node))"
  have ids: "map en_id ?gens = gen_ids cid (consensus_members node)"
    by (rule nth_equalityI) (simp_all add: gen_ids_def nth_enumerate_eq)
  obtain m ms where ms: "consensus_members node = m # ms"
    using consensus_members_bounds [of node] by (cases "consensus_members node") auto
  show "map en_id (sg_nodes sg) = gen_ids cid (consensus_members node) @ [cid ''judge'' 0]"
    using ids by (simp add: sg_def expand_consensus_def Let_def cid_def)
  have "sg_rel sg = (\<lambda>g. (g, cid ''judge'' 0)) ` set (map en_id ?gens)"
    by (simp add: sg_def expand_consensus_def Let_def cid_def sg_rel_simp image_image)
  then show "sg_rel sg = (\<lambda>g. (g, cid ''judge'' 0)) ` set (gen_ids cid (consensus_members node))"
    by (simp only: ids)
  show "entry_node_id sg = cid ''gen'' 0"
    by (simp add: sg_def expand_consensus_def Let_def cid_def ms)
  show "exit_node_id sg = cid ''judge'' 0"
    by (simp add: sg_def expand_consensus_def Let_def cid_def)
  show "n \<in> set (sg_nodes sg) \<Longrightarrow> en_strategy n = Single \<and> en_subgraph n = None"
    by (auto simp: sg_def expand_consensus_def Let_def)
qed

lemma sg_ids_map: "sg_ids sg = set (map en_id (sg_nodes sg))"
  by (simp add: sg_ids_def)

lemma consensus_closed: "closed_subgraph (expand_consensus v5_of show_uuid node)"
proof -
  let ?cid = "child_id v5_of show_uuid (en_id node)"
  note shape = expand_consensus_shape [where v5_of = v5_of and show_uuid = show_uuid and node = node]
  have "?cid ''gen'' 0 \<in> set (gen_ids ?cid (consensus_members node))"
    using consensus_members_bounds [of node] by (simp add: gen_ids_def)
  then show ?thesis
    unfolding closed_subgraph_def sg_ids_map shape(1-4)
    using shape(5) by (auto simp: Field_def)
qed

lemma expand_chain_shape:
  fixes v5_of show_uuid node
  defines "step \<equiv> child_id v5_of show_uuid (en_id node) ''step''"
  defines "k \<equiv> resolved_chain_steps (en_config node)"
  defines "sg \<equiv> expand_chain v5_of show_uuid node"
  shows "map en_id (sg_nodes sg) = map step [0..<k]"
    "sg_rel sg = (\<lambda>i. (step (i - 1), step i)) ` {1..<k}"
    "entry_node_id sg = step 0" "exit_node_id sg = step (k - 1)"
    "n \<in> set (sg_nodes sg) \<Longrightarrow> en_strategy n = Single \<and> en_subgraph n = None"
proof -
  let ?nodes = "map (\<lambda>i. child_node node (step i) LLMGenerate (en_model node)) [0..<k]"
  have k: "0 < k"
    using resolved_chain_steps_bounds by (simp add: k_def)
  have nodes: "sg_nodes sg = ?nodes"
    by (simp add: sg_def expand_chain_def Let_def step_def k_def)
  show "map en_id (sg_nodes sg) = map step [0..<k]"
    by (simp add: nodes o_def)
  have "sg_rel sg = (\<lambda>i. (en_id (?nodes ! (i - 1)), step i)) ` {1..<k}"
    by (simp add: sg_def expand_chain_def Let_def step_def k_def sg_rel_simp image_image)
  also have "\<dots> = (\<lambda>i. (step (i - 1), step i)) ` {1..<k}"
    by (intro image_cong refl) auto
  finally show "sg_rel sg = (\<lambda>i. (step (i - 1), step i)) ` {1..<k}" .
  have "entry_node_id sg = (case ?nodes of [] \<Rightarrow> en_id node | n # _ \<Rightarrow> en_id n)"
    "exit_node_id sg = (if ?nodes = [] then en_id node else en_id (last ?nodes))"
    by (simp_all only: sg_def expand_chain_def Let_def step_def k_def execution_subgraph.sel)
  moreover have "?nodes \<noteq> []" "hd ?nodes = child_node node (step 0) LLMGenerate (en_model node)"
    "last ?nodes = child_node node (step (k - 1)) LLMGenerate (en_model node)"
    using k by (simp_all add: hd_map last_map)
  moreover note case_hd [OF this(1), of "en_id node" en_id]
  ultimately show "entry_node_id sg = step 0" "exit_node_id sg = step (k - 1)"
    by (simp_all only: child_node_simps if_False)
  show "n \<in> set (sg_nodes sg) \<Longrightarrow> en_strategy n = Single \<and> en_subgraph n = None"
    by (auto simp: nodes)
qed

lemma chain_closed: "closed_subgraph (expand_chain v5_of show_uuid node)"
proof -
  let ?step = "child_id v5_of show_uuid (en_id node) ''step''"
  let ?k = "resolved_chain_steps (en_config node)"
  let ?R = "(\<lambda>i. (?step (i - 1), ?step i)) ` {1..<?k}"
  note shape = expand_chain_shape [where v5_of = v5_of and show_uuid = show_uuid and node = node]
  have k: "0 < ?k"
    using resolved_chain_steps_bounds by simp
  have reach: "i \<le> ?k - 1 \<Longrightarrow> (?step i, ?step (?k - 1)) \<in> ?R\<^sup>*" for i
  proof (induction rule: inc_induct)
    case (step n)
    then have "(?step n, ?step (Suc n)) \<in> ?R"
      by (intro image_eqI [of _ _ "Suc n"]) auto
    then show ?case
      using step.IH by (rule converse_rtrancl_into_rtrancl)
  qed simp
  have "Field ?R \<subseteq> set (map ?step [0..<?k])"
    by (auto simp: Field_def)
  moreover have "\<forall>i\<in>set (map ?step [0..<?k]). (i, ?step (?k - 1)) \<in> ?R\<^sup>*"
    using reach by auto
  ultimately show ?thesis
    unfolding closed_subgraph_def sg_ids_map shape(1-4) using k shape(5) by auto
qed

lemma small_closed:
  "closed_subgraph (expand_reflection v5_of show_uuid node)"
  "closed_subgraph (expand_debate v5_of show_uuid node)"
  "closed_subgraph (expand_react v5_of show_uuid node)"
  "closed_subgraph (expand_fusion v5_of show_uuid node)"
  "closed_subgraph (expand_custom v5_of show_uuid node name)"
  by (auto simp: closed_subgraph_def sg_ids_def sg_rel_simp Field_def Let_def expand_reflection_def
      expand_debate_def expand_react_def expand_fusion_def expand_custom_def
      intro: converse_rtrancl_into_rtrancl)

lemma expansion_size:
  "length (sg_nodes (expand_consensus v5_of show_uuid node)) = length (consensus_members node) + 1"
  "length (sg_nodes (expand_chain v5_of show_uuid node)) = resolved_chain_steps (en_config node)"
  by (simp_all add: expand_consensus_def expand_chain_def Let_def)

lemma expanded_subgraph_cases:
  assumes "expanded_subgraph v5_of show_uuid node = Some sg"
  obtains "sg = expand_consensus v5_of show_uuid node" | "sg = expand_reflection v5_of show_uuid node"
  | "sg = expand_chain v5_of show_uuid node" | "sg = expand_debate v5_of show_uuid node"
  | "sg = expand_react v5_of show_uuid node" | "sg = expand_fusion v5_of show_uuid node"
  using assms by (cases "en_strategy node")
    (simp_all add: expanded_subgraph_def expanded_subgraph_with_custom_def)

lemma expansion_closed_bounded:
  assumes "expanded_subgraph v5_of show_uuid node = Some sg"
  shows "closed_subgraph sg \<and> length (sg_nodes sg) \<le> 65"
  using assms
proof (cases rule: expanded_subgraph_cases)
  case 1
  then show ?thesis
    using consensus_members_bounds [of node] by (simp add: consensus_closed expansion_size)
next
  case 3
  then show ?thesis
    using resolved_chain_steps_bounds [of "en_config node"] by (simp add: chain_closed expansion_size)
qed (simp_all add: small_closed, simp_all add: expand_reflection_def expand_debate_def
    expand_react_def expand_fusion_def Let_def)

section \<open>Expansions are acyclic when child ids do not collide\<close>

definition expansion_roles :: "string set" where
  "expansion_roles = {''gen'', ''judge'', ''generator'', ''reviewer'', ''step'', ''proposer'',
     ''opposer'', ''reason'', ''tool'', ''candidate'', ''merger''}"

definition child_names :: "(uuid \<Rightarrow> string) \<Rightarrow> uuid \<Rightarrow> string set" where
  "child_names show_uuid parent =
    {child_name show_uuid parent role i | role i. role \<in> expansion_roles \<and> i < 65}"

lemma show_nat_no_colon: "CHR '':'' \<notin> set (show_nat n)"
proof
  assume "CHR '':'' \<in> set (show_nat n)"
  then have "is_ascii_digit (CHR '':'')"
    using show_nat_digits [of n] by (simp add: list_all_iff)
  then show False by (simp add: is_ascii_digit_def)
qed

lemma child_name_inject:
  assumes "child_name show_uuid p r i = child_name show_uuid p r' i'"
    and "CHR '':'' \<notin> set r" and "CHR '':'' \<notin> set r'"
  shows "r = r' \<and> i = i'"
proof -
  have "r @ CHR '':'' # show_nat i = r' @ CHR '':'' # show_nat i'"
    using assms(1) by (simp add: child_name_def)
  with assms(2,3) have "split_once (CHR '':'') (r' @ CHR '':'' # show_nat i') = Some (r, show_nat i)"
    "split_once (CHR '':'') (r' @ CHR '':'' # show_nat i') = Some (r', show_nat i')"
    by (simp_all add: split_once_Some_iff)
  then show ?thesis by simp
qed

lemma roles_no_colon: "r \<in> expansion_roles \<Longrightarrow> CHR '':'' \<notin> set r"
  by (auto simp: expansion_roles_def)

lemma child_id_inject:
  assumes "inj_on (v5_of NAMESPACE_URL) (child_names show_uuid p)"
    and "r \<in> expansion_roles" "r' \<in> expansion_roles" "i < 65" "i' < 65"
  shows "child_id v5_of show_uuid p r i = child_id v5_of show_uuid p r' i' \<longleftrightarrow> r = r' \<and> i = i'"
proof
  assume "child_id v5_of show_uuid p r i = child_id v5_of show_uuid p r' i'"
  then have "child_name show_uuid p r i = child_name show_uuid p r' i'"
    using assms unfolding child_id_def by (auto simp: child_names_def dest: inj_onD)
  then show "r = r' \<and> i = i'"
    using assms(2,3) by (intro child_name_inject) (auto simp: roles_no_colon)
qed simp

definition dag_subgraph :: "execution_subgraph \<Rightarrow> bool" where
  "dag_subgraph sg \<longleftrightarrow> distinct (map en_id (sg_nodes sg)) \<and> acyclic (sg_rel sg)"

lemma consensus_dag:
  assumes "inj_on (v5_of NAMESPACE_URL) (child_names show_uuid (en_id node))"
  shows "dag_subgraph (expand_consensus v5_of show_uuid node)"
proof -
  let ?cid = "child_id v5_of show_uuid (en_id node)"
  note shape = expand_consensus_shape [where v5_of = v5_of and show_uuid = show_uuid and node = node]
  have "length (consensus_members node) < 65"
    using consensus_members_bounds [of node] by simp
  then have "distinct (gen_ids ?cid (consensus_members node))"
    and judge: "?cid ''judge'' 0 \<notin> set (gen_ids ?cid (consensus_members node))"
    using child_id_inject [where v5_of = v5_of, OF assms]
    by (auto simp: gen_ids_def distinct_map inj_on_def expansion_roles_def)
  moreover have "acyclic ((\<lambda>g. (g, ?cid ''judge'' 0)) ` set (gen_ids ?cid (consensus_members node)))"
    by (rule acyclic_by_rank [where rank = "\<lambda>x. if x = ?cid ''judge'' 0 then 1 else 0"])
      (use judge in auto)
  ultimately show ?thesis
    unfolding dag_subgraph_def shape(1,2) by simp
qed

lemma chain_dag:
  assumes "inj_on (v5_of NAMESPACE_URL) (child_names show_uuid (en_id node))"
  shows "dag_subgraph (expand_chain v5_of show_uuid node)"
proof -
  let ?step = "child_id v5_of show_uuid (en_id node) ''step''"
  let ?k = "resolved_chain_steps (en_config node)"
  note shape = expand_chain_shape [where v5_of = v5_of and show_uuid = show_uuid and node = node]
  have "?k < 65"
    using resolved_chain_steps_bounds [of "en_config node"] by simp
  then have inj: "inj_on ?step {..<?k}"
    using child_id_inject [where v5_of = v5_of, OF assms]
    by (auto simp: inj_on_def expansion_roles_def)
  have rank: "inv_into {..<?k} ?step (?step i) = i" if "i < ?k" for i
    using inv_into_f_f [OF inj] that by simp
  have "acyclic ((\<lambda>i. (?step (i - 1), ?step i)) ` {1..<?k})"
    by (rule acyclic_by_rank [where rank = "inv_into {..<?k} ?step"]) (auto simp: rank)
  moreover have "distinct (map ?step [0..<?k])"
    using inj by (simp add: distinct_map atLeast0LessThan)
  ultimately show ?thesis
    unfolding dag_subgraph_def shape(1,2) by simp
qed

lemma small_dag:
  assumes "inj_on (v5_of NAMESPACE_URL) (child_names show_uuid (en_id node))"
  shows "dag_subgraph (expand_reflection v5_of show_uuid node)"
    "dag_subgraph (expand_debate v5_of show_uuid node)"
    "dag_subgraph (expand_react v5_of show_uuid node)"
    "dag_subgraph (expand_fusion v5_of show_uuid node)"
proof -
  let ?cid = "child_id v5_of show_uuid (en_id node)"
  note inject = child_id_inject [where v5_of = v5_of, OF assms] expansion_roles_def
  have "acyclic {(?cid ''generator'' 0, ?cid ''reviewer'' 0)}"
    by (rule acyclic_by_rank [where rank = "\<lambda>x. if x = ?cid ''reviewer'' 0 then 1 else 0"])
      (auto simp: inject)
  then show "dag_subgraph (expand_reflection v5_of show_uuid node)"
    by (simp add: dag_subgraph_def expand_reflection_def Let_def sg_rel_simp inject)
  have "acyclic {(?cid ''reason'' 0, ?cid ''tool'' 0)}"
    by (rule acyclic_by_rank [where rank = "\<lambda>x. if x = ?cid ''tool'' 0 then 1 else 0"])
      (auto simp: inject)
  then show "dag_subgraph (expand_react v5_of show_uuid node)"
    by (simp add: dag_subgraph_def expand_react_def Let_def sg_rel_simp inject)
  have "acyclic {(?cid ''candidate'' 0, ?cid ''merger'' 0), (?cid ''candidate'' 1, ?cid ''merger'' 0)}"
    by (rule acyclic_by_rank [where rank = "\<lambda>x. if x = ?cid ''merger'' 0 then 1 else 0"])
      (auto simp: inject)
  then show "dag_subgraph (expand_fusion v5_of show_uuid node)"
    by (simp add: dag_subgraph_def expand_fusion_def Let_def sg_rel_simp inject)
  have "acyclic {(?cid ''proposer'' 0, ?cid ''opposer'' 0), (?cid ''opposer'' 0, ?cid ''judge'' 0)}"
    by (rule acyclic_by_rank [where rank = "\<lambda>x. if x = ?cid ''judge'' 0 then 2
        else if x = ?cid ''opposer'' 0 then 1 else 0"]) (auto simp: inject)
  then show "dag_subgraph (expand_debate v5_of show_uuid node)"
    by (simp add: dag_subgraph_def expand_debate_def Let_def sg_rel_simp inject)
qed

section \<open>Properties\<close>

text \<open>A name-based id generator without collisions on short names, for the witness: the name read as a
  number in base 256.\<close>

definition text_code :: "string \<Rightarrow> nat" where
  "text_code s = foldl (\<lambda>a c. a * 256 + of_char c) 0 s"

lemma text_code_snoc [simp]: "text_code (s @ [c]) = text_code s * 256 + of_char c"
  by (simp add: text_code_def)

lemma text_code_pos: "s \<noteq> [] \<Longrightarrow> CHR 0x00 \<notin> set s \<Longrightarrow> 0 < text_code s"
proof (induction s rule: rev_induct)
  case (snoc c s)
  then have "(of_char c :: nat) \<noteq> of_char (CHR 0x00)"
    unfolding of_char_eq_iff by auto
  then show ?case by simp
qed simp

lemma text_code_inject:
  "CHR 0x00 \<notin> set s \<Longrightarrow> CHR 0x00 \<notin> set t \<Longrightarrow> text_code s = text_code t \<Longrightarrow> s = t"
proof (induction s arbitrary: t rule: rev_induct)
  case Nil
  then show ?case using text_code_pos [of t] by (auto simp: text_code_def)
next
  case (snoc c s)
  have "0 < text_code (s @ [c])"
    using snoc.prems(1) by (intro text_code_pos) auto
  then have "t \<noteq> []"
    using snoc.prems(3) by (auto simp: text_code_def)
  then obtain t' d where t: "t = t' @ [d]"
    by (metis rev_exhaust)
  have b: "of_char c < (256 :: nat)" "of_char d < (256 :: nat)"
    by simp_all
  have eq: "text_code s * 256 + of_char c = text_code t' * 256 + of_char d"
    using snoc.prems(3) t by simp
  have "text_code s = text_code t'"
    using arg_cong [OF eq, of "\<lambda>x. x div 256"] b by simp
  moreover from this eq have "(of_char c :: nat) = of_char d"
    by simp
  moreover have "CHR 0x00 \<notin> set s" "CHR 0x00 \<notin> set t'"
    using snoc.prems(1,2) t by auto
  ultimately show ?case
    using snoc.IH [of t'] t by simp
qed

lemma text_code_bound: "text_code s < 256 ^ length s"
proof (induction s rule: rev_induct)
  case (snoc c s)
  have c: "of_char c < (256 :: nat)" by simp
  have "text_code (s @ [c]) < (text_code s + 1) * 256"
    unfolding text_code_snoc using c by (simp only: add_mult_distrib mult_1 nat_add_left_cancel_less)
  also have "\<dots> \<le> 256 ^ length s * 256"
    using snoc by (intro mult_le_mono1) simp
  finally show ?case by simp
qed (simp add: text_code_def)

definition demo_v5 :: "uuid \<Rightarrow> string \<Rightarrow> uuid" where
  "demo_v5 ns name = word_of_nat (text_code name)"

lemma short_show_nat:
  assumes "n < 100"
  shows "length (show_nat n) \<le> 2"
proof -
  have "n div 10 < 10" using assms by linarith
  then show ?thesis
    by (simp add: show_nat.simps [of n] show_nat.simps [of "n div 10"])
qed

lemma demo_v5_inj: "inj_on (demo_v5 NAMESPACE_URL) (child_names (\<lambda>_. []) p)"
proof (rule inj_onI)
  have bound: "text_code x < 2 ^ 128 \<and> CHR 0x00 \<notin> set x" if "x \<in> child_names (\<lambda>_. []) p" for x
  proof -
    from that obtain r i where x: "x = child_name (\<lambda>_. []) p r i" "r \<in> expansion_roles" "i < 65"
      by (auto simp: child_names_def)
    then have "length x \<le> 13"
      using short_show_nat [of i] by (auto simp: child_name_def expansion_roles_def)
    then have "(256 :: nat) ^ length x \<le> 256 ^ 13"
      by (intro power_increasing) auto
    then have "text_code x < 2 ^ 128"
      using text_code_bound [of x] by simp
    moreover have "CHR 0x00 \<notin> set (show_nat i)"
      using show_nat_digits [of i] by (auto simp: list_all_iff is_ascii_digit_def)
    then have "CHR 0x00 \<notin> set x"
      using x by (auto simp: child_name_def expansion_roles_def)
    ultimately show ?thesis by simp
  qed
  fix x y
  assume x: "x \<in> child_names (\<lambda>_. []) p" and y: "y \<in> child_names (\<lambda>_. []) p"
    and eq: "demo_v5 NAMESPACE_URL x = demo_v5 NAMESPACE_URL y"
  have "unat (demo_v5 NAMESPACE_URL x) = text_code x" "unat (demo_v5 NAMESPACE_URL y) = text_code y"
    using bound [OF x] bound [OF y] by (simp_all add: demo_v5_def unat_of_nat)
  then have "text_code x = text_code y"
    using eq by simp
  then show "x = y"
    using bound [OF x] bound [OF y] text_code_inject by blast
qed

text \<open>Every built-in strategy expands to a proper subgraph: entry and exit are nodes of it, edges
  stay inside it, every node leads to the exit, all children are plain \<open>Single\<close> nodes, there are at
  most 65 of them whatever the client's configuration says, and, as long as \<open>Uuid::new_v5\<close> does not
  collide on the child names of this node, the ids are distinct and the edges acyclic.\<close>

theorem expansion_well_formed:
  assumes "expanded_subgraph v5_of show_uuid node = Some sg"
    and "inj_on (v5_of NAMESPACE_URL) (child_names show_uuid (en_id node))"
  shows "closed_subgraph sg \<and> length (sg_nodes sg) \<le> 65 \<and> dag_subgraph sg"
proof -
  have "dag_subgraph sg"
    using assms(1) by (cases rule: expanded_subgraph_cases)
      (simp_all add: consensus_dag chain_dag small_dag assms(2))
  then show ?thesis
    using expansion_closed_bounded [OF assms(1)] by simp
qed

definition demo_chain_node :: execution_node where
  "demo_chain_node = ExecutionNode 7 LLMGenerate Chain ''m'' \<lparr>max_retries = 2, backoff_ms = 1000\<rparr> None
     [(''steps'', JNumber (PosInt 99))] None"

theorem expansion_well_formed_witness:
  "closed_subgraph (expand_chain demo_v5 (\<lambda>_. []) demo_chain_node) \<and>
    length (sg_nodes (expand_chain demo_v5 (\<lambda>_. []) demo_chain_node)) \<le> 65 \<and>
    dag_subgraph (expand_chain demo_v5 (\<lambda>_. []) demo_chain_node)"
proof (rule expansion_well_formed [where node = demo_chain_node and v5_of = demo_v5])
  show "expanded_subgraph demo_v5 (\<lambda>_. []) demo_chain_node =
      Some (expand_chain demo_v5 (\<lambda>_. []) demo_chain_node)"
    by (simp add: expanded_subgraph_def expanded_subgraph_with_custom_def demo_chain_node_def)
qed (rule demo_v5_inj)








end
