(* ===== verification/Compiler_Passes.thy ===== *)
theory Compiler_Passes
  imports Policy Strategy Graph_Search
begin

text \<open>
  The passes of \<open>crates/fusion-compiler/src/lib.rs\<close>. A pass is a function from the IR to an error or
  the new IR. What the passes take from outside is one record of parameters: the order in which a
  hash map's keys are visited, the resource manager's \<open>can_afford\<close>, the uuid crate, and serde's and
  \<open>Debug\<close>'s renderings.
\<close>

section \<open>Parameters\<close>

record compiler_env =
  hash_order :: "uuid list \<Rightarrow> uuid list"
  can_afford :: "nano_usd \<Rightarrow> u64 \<Rightarrow> bool"
  new_v5 :: "uuid \<Rightarrow> string \<Rightarrow> uuid"
  show_uuid :: "uuid \<Rightarrow> string"
  json_text :: "json \<Rightarrow> string"
  debug_str :: "string \<Rightarrow> string"

text \<open>A hash map visits each of its keys, in some order.\<close>

definition visits_all :: "compiler_env \<Rightarrow> bool" where
  "visits_all env \<longleftrightarrow> (\<forall>ks. set (hash_order env ks) = set ks)"

section \<open>Constraint validation and model resolution\<close>

definition MAX_IR_NODES :: nat where "MAX_IR_NODES = 10000"

definition constraint_validation :: "exec_ir \<Rightarrow> compiler_error + exec_ir" where
  "constraint_validation ir =
    (if ir_nodes ir = [] then Inl (ValidationError ''constraint_validation'' None IrEmpty)
     else if MAX_IR_NODES < length (ir_nodes ir)
     then Inl (ValidationError ''constraint_validation'' None (IrTooLarge (length (ir_nodes ir))))
     else Inr ir)"

definition is_control_flow :: "ir_node_kind \<Rightarrow> bool" where
  "is_control_flow k \<longleftrightarrow> k \<in> {IkConditional, IkLoop, IkSplit, IkJoin, IkBarrier}"

definition select_model :: "model_catalog \<Rightarrow> string" where
  "select_model catalog = mc_fast catalog"

definition resolve_model :: "model_catalog \<Rightarrow> ir_node \<Rightarrow> ir_node" where
  "resolve_model catalog n =
    (if is_control_flow (in_kind n) then n
     else if in_model n = None then n\<lparr>in_model := Some (select_model catalog)\<rparr>
     else n)"

definition model_resolution :: "model_catalog \<Rightarrow> exec_ir \<Rightarrow> compiler_error + exec_ir" where
  "model_resolution catalog ir = Inr (ir\<lparr>ir_nodes := map (resolve_model catalog) (ir_nodes ir)\<rparr>)"

section \<open>Control-flow validation\<close>

definition cfv_error :: "uuid option \<Rightarrow> compiler_message \<Rightarrow> compiler_error" where
  "cfv_error n m = ValidationError ''control_flow_validation'' n m"

definition ir_ids :: "exec_ir \<Rightarrow> uuid list" where
  "ir_ids ir = map in_id (ir_nodes ir)"

definition check_edge_refs :: "exec_ir \<Rightarrow> ir_edge \<Rightarrow> unit \<Rightarrow> compiler_error + unit" where
  "check_edge_refs ir e _ =
    (if ie_from e \<notin> set (ir_ids ir) then Inl (cfv_error None (UnknownSource (ie_from e)))
     else if ie_to e \<notin> set (ir_ids ir) then Inl (cfv_error None (UnknownTarget (ie_to e)))
     else Inr ())"

definition outgoing_edges :: "exec_ir \<Rightarrow> uuid \<Rightarrow> ir_edge list" where
  "outgoing_edges ir i = filter (\<lambda>e. ie_from e = i) (ir_edges ir)"

definition incoming_edges :: "exec_ir \<Rightarrow> uuid \<Rightarrow> ir_edge list" where
  "incoming_edges ir i = filter (\<lambda>e. ie_to e = i) (ir_edges ir)"

definition check_node_kind :: "exec_ir \<Rightarrow> ir_node \<Rightarrow> unit \<Rightarrow> compiler_error + unit" where
  "check_node_kind ir n _ =
    (let outgoing = outgoing_edges ir (in_id n);
         incoming = incoming_edges ir (in_id n);
         err = (\<lambda>m. Inl (cfv_error (Some (in_id n)) m))
     in case in_kind n of
       IkConditional \<Rightarrow>
         (if outgoing = [] then err ConditionalNoEdge
          else if \<not> list_ex (\<lambda>e. ie_condition e \<noteq> None) outgoing then err ConditionalNoCondition
          else Inr ())
     | IkLoop \<Rightarrow>
         (if outgoing = [] then err LoopNoEdge
          else if \<not> bt_contains (in_config n) ''max_iterations'' then err LoopNoMaxIterations
          else Inr ())
     | IkSplit \<Rightarrow> (if length outgoing < 2 then err (SplitTooFew (length outgoing)) else Inr ())
     | IkJoin \<Rightarrow> (if length incoming < 2 then err (JoinTooFew (length incoming)) else Inr ())
     | IkBarrier \<Rightarrow>
         (if incoming = [] then err BarrierNoIncoming
          else if outgoing = [] then err BarrierNoOutgoing
          else Inr ())
     | _ \<Rightarrow> Inr ())"

definition forward_pairs :: "exec_ir \<Rightarrow> (uuid \<times> uuid) list" where
  "forward_pairs ir = map (\<lambda>e. (ie_from e, ie_to e))
     (filter (\<lambda>e. ie_condition e \<noteq> Some ''loop'') (ir_edges ir))"

definition three_color_cycle_detect ::
  "(uuid list \<Rightarrow> uuid list) \<Rightarrow> (uuid \<times> uuid) list \<Rightarrow> uuid + unit" where
  "three_color_cycle_detect order edges =
    (let graph_keys = order (remdups (concat (map (\<lambda>(f, t). [f, t]) edges)))
     in case first_back_edge edges graph_keys of None \<Rightarrow> Inr () | Some node \<Rightarrow> Inl node)"

definition detect_illegal_cycles ::
  "(uuid list \<Rightarrow> uuid list) \<Rightarrow> exec_ir \<Rightarrow> compiler_error + unit" where
  "detect_illegal_cycles order ir =
    map_err (\<lambda>n. cfv_error (Some n) IllegalCycleDetected)
      (three_color_cycle_detect order (forward_pairs ir))"

definition control_flow_validation ::
  "(uuid list \<Rightarrow> uuid list) \<Rightarrow> exec_ir \<Rightarrow> compiler_error + exec_ir" where
  "control_flow_validation order ir =
    and_then (try_for (check_edge_refs ir) (ir_edges ir) ()) (\<lambda>_.
    and_then (try_for (check_node_kind ir) (ir_nodes ir) ()) (\<lambda>_.
    and_then (detect_illegal_cycles order ir) (\<lambda>_. Inr ir)))"

section \<open>Budget pass\<close>

definition budget_optimisation ::
  "(nano_usd \<Rightarrow> u64 \<Rightarrow> bool) \<Rightarrow> exec_ir \<Rightarrow> compiler_error + exec_ir" where
  "budget_optimisation affordable ir =
    (if \<not> affordable (im_estimated_cost (ir_meta ir)) (im_estimated_tokens (ir_meta ir))
     then Inl (ValidationError ''budget_optimisation'' None BudgetExceeded)
     else Inr ir)"

section \<open>Dead-node elimination\<close>

definition all_pairs :: "exec_ir \<Rightarrow> (uuid \<times> uuid) list" where
  "all_pairs ir = map (\<lambda>e. (ie_from e, ie_to e)) (ir_edges ir)"

definition dne_roots :: "exec_ir \<Rightarrow> uuid list" where
  "dne_roots ir = filter (\<lambda>i. i \<notin> snd ` set (all_pairs ir) \<and> i \<in> fst ` set (all_pairs ir)) (ir_ids ir)"

function dne_loop :: "(uuid \<times> uuid) list \<Rightarrow> uuid list \<Rightarrow> uuid list \<Rightarrow> uuid list" where
  "dne_loop es [] reachable = reachable"
| "dne_loop es (current # queue) reachable =
    (if current \<in> set reachable then dne_loop es queue reachable
     else dne_loop es
       (queue @ filter (\<lambda>t. t \<notin> set (current # reachable)) (succs es current)) (current # reachable))"
  by pat_completeness auto

termination
proof (relation "measures [\<lambda>(es, q, r). card ((snd ` set es \<union> set q) - set r), \<lambda>(es, q, r). length q]",
    goal_cases)
  case (2 es current queue reachable)
  then have "snd ` set es \<union> set (current # queue) - set reachable
      = snd ` set es \<union> set queue - set reachable" by auto
  then show ?case by simp
next
  case (3 es current queue reachable)
  let ?new = "filter (\<lambda>t. t \<notin> set (current # reachable)) (succs es current)"
  have "snd ` set es \<union> set (queue @ ?new) - set (current # reachable)
      \<subset> snd ` set es \<union> set (current # queue) - set reachable"
    using 3 by (auto simp: image_iff) force
  then have "card (snd ` set es \<union> set (queue @ ?new) - set (current # reachable))
      < card (snd ` set es \<union> set (current # queue) - set reachable)"
    by (intro psubset_card_mono) auto
  then show ?case by simp
qed simp

definition dead_node_elimination ::
  "(uuid list \<Rightarrow> uuid list) \<Rightarrow> exec_ir \<Rightarrow> compiler_error + exec_ir" where
  "dead_node_elimination order ir =
    (if ir_nodes ir = [] then Inr ir
     else if ir_edges ir = [] then Inr ir
     else if dne_roots ir = [] then Inr ir
     else (let reachable = dne_loop (all_pairs ir) (order (remdups (dne_roots ir))) []
       in Inr (ir\<lparr>ir_nodes := filter (\<lambda>n. in_id n \<in> set reachable) (ir_nodes ir),
                 ir_edges := filter (\<lambda>e. ie_from e \<in> set reachable \<and> ie_to e \<in> set reachable)
                   (ir_edges ir)\<rparr>)))"

section \<open>Policy pass\<close>

definition node_capability :: "ir_node \<Rightarrow> string option" where
  "node_capability n = Option.bind (map_of (in_config n) ''capability'') as_str"

definition symbol_key :: "ir_node \<Rightarrow> string" where
  "symbol_key n = (case node_capability n of
     Some c \<Rightarrow> c
   | None \<Rightarrow> (case in_model n of Some m \<Rightarrow> m | None \<Rightarrow> ''general''))"

definition node_facts :: "compiler_env \<Rightarrow> ir_node \<Rightarrow> policy_facts" where
  "node_facts env n =
    \<lparr>pf_model = (case in_model n of Some m \<Rightarrow> m | None \<Rightarrow> []),
     pf_strategy = as_label (debug_str env) (in_strategy n),
     pf_node_kind = Some (ir_kind_name (in_kind n)),
     pf_capability = node_capability n\<rparr>"

record policy_state =
  ps_edges :: "ir_edge list"
  ps_inserted :: "ir_node list"
  ps_trace :: "policy_match_event list"

definition gate_id :: "compiler_env \<Rightarrow> ir_node \<Rightarrow> uuid" where
  "gate_id env n = new_v5 env (in_id n) ''policy_approval_gate''"

definition gate_node :: "compiler_env \<Rightarrow> ir_node \<Rightarrow> ir_node" where
  "gate_node env n = \<lparr>in_id = gate_id env n, in_kind = IkGate, in_strategy = Single,
     in_model = Some ''policy.approval_gate'', in_config = []\<rparr>"

definition already_guarded :: "ir_node list \<Rightarrow> ir_edge list \<Rightarrow> ir_node \<Rightarrow> bool" where
  "already_guarded new_nodes new_edges n =
    list_ex (\<lambda>e. ie_to e = in_id n \<and>
      list_ex (\<lambda>m. in_id m = ie_from e \<and> in_kind m = IkGate) new_nodes) new_edges"

definition policy_step ::
  "compiler_env \<Rightarrow> policy_rule list \<Rightarrow> exec_ir \<Rightarrow> ir_node \<Rightarrow> policy_state \<Rightarrow> compiler_error + policy_state" where
  "policy_step env rules ir n st =
    (case evaluate_matching_rule (json_text env) rules (symbol_key n) (node_facts env n) of
       None \<Rightarrow> Inr st
     | Some rule \<Rightarrow>
         (let st1 = st\<lparr>ps_trace := ps_trace st @
                [RuleMatched (rule_id rule) (symbol_key n) (rule_effect rule)]\<rparr>
          in if rule_effect rule = Deny
             then Inl (ValidationError ''policy'' (Some (in_id n))
               (PolicyDenied (rule_id rule) (target_pattern rule) (in_id n)))
             else if rule_effect rule = Approval \<and> \<not> already_guarded (ir_nodes ir) (ps_edges st1) n
             then Inr (st1\<lparr>
                 ps_trace := ps_trace st1 @ [NodeInserted (gate_id env n) (in_id n)],
                 ps_inserted := ps_inserted st1 @ [gate_node env n],
                 ps_edges := ps_edges st1 @
                   [\<lparr>ie_from = gate_id env n, ie_to = in_id n, ie_condition = None\<rparr>]\<rparr>)
             else Inr st1))"

definition policy_pass :: "compiler_env \<Rightarrow> policy_rule list \<Rightarrow> exec_ir \<Rightarrow> compiler_error + exec_ir" where
  "policy_pass env rules ir =
    and_then
      (try_for (policy_step env rules ir) (ir_nodes ir)
        \<lparr>ps_edges = ir_edges ir, ps_inserted = [], ps_trace = []\<rparr>)
      (\<lambda>st. Inr (ir\<lparr>ir_nodes := ir_nodes ir @ ps_inserted st, ir_edges := ps_edges st\<rparr>))"

section \<open>Control-flow validation is exact\<close>

definition kind_ok :: "exec_ir \<Rightarrow> ir_node \<Rightarrow> bool" where
  "kind_ok ir n \<longleftrightarrow>
    (in_kind n = IkConditional \<longrightarrow> (\<exists>e\<in>set (ir_edges ir). ie_from e = in_id n \<and> ie_condition e \<noteq> None)) \<and>
    (in_kind n = IkLoop \<longrightarrow> (\<exists>e\<in>set (ir_edges ir). ie_from e = in_id n) \<and>
       map_of (in_config n) ''max_iterations'' \<noteq> None) \<and>
    (in_kind n = IkSplit \<longrightarrow> 2 \<le> length (outgoing_edges ir (in_id n))) \<and>
    (in_kind n = IkJoin \<longrightarrow> 2 \<le> length (incoming_edges ir (in_id n))) \<and>
    (in_kind n = IkBarrier \<longrightarrow> (\<exists>e\<in>set (ir_edges ir). ie_from e = in_id n) \<and>
       (\<exists>e\<in>set (ir_edges ir). ie_to e = in_id n))"

definition refs_ok :: "exec_ir \<Rightarrow> bool" where
  "refs_ok ir \<longleftrightarrow> (\<forall>e\<in>set (ir_edges ir). ie_from e \<in> set (ir_ids ir) \<and> ie_to e \<in> set (ir_ids ir))"

definition flow_rel :: "exec_ir \<Rightarrow> (uuid \<times> uuid) set" where
  "flow_rel ir = {(ie_from e, ie_to e) | e. e \<in> set (ir_edges ir) \<and> ie_condition e \<noteq> Some ''loop''}"

lemma set_forward_pairs: "set (forward_pairs ir) = flow_rel ir"
  by (auto simp: forward_pairs_def flow_rel_def)

lemma check_node_kind_iff: "check_node_kind ir n () = Inr () \<longleftrightarrow> kind_ok ir n"
proof (cases "in_kind n")
  case IkConditional
  then show ?thesis
    by (auto simp: check_node_kind_def kind_ok_def outgoing_edges_def filter_empty_conv list_ex_iff Let_def)
next
  case IkLoop
  then show ?thesis
    by (auto simp: check_node_kind_def kind_ok_def outgoing_edges_def filter_empty_conv bt_contains_def Let_def)
next
  case IkBarrier
  then show ?thesis
    by (auto simp: check_node_kind_def kind_ok_def outgoing_edges_def incoming_edges_def
        filter_empty_conv Let_def)
qed (simp_all add: check_node_kind_def kind_ok_def not_less Let_def)

lemma three_color_acyclic:
  assumes "\<And>ks. set (order ks) = set ks"
  shows "three_color_cycle_detect order es = Inr () \<longleftrightarrow> acyclic (set es)"
proof -
  let ?ks = "order (remdups (concat (map (\<lambda>(f, t). [f, t]) es)))"
  have ks: "set ?ks = Field (set es)"
    by (auto simp: assms Field_def split_def)
  have "three_color_cycle_detect order es = Inr () \<longleftrightarrow> back_edges es ?ks = []"
    by (cases "back_edges es ?ks")
      (simp_all add: three_color_cycle_detect_def first_back_edge_eq Let_def)
  also have "\<dots> \<longleftrightarrow> (\<forall>n\<in>Field (set es). \<forall>x. (n, x) \<in> (set es)\<^sup>* \<longrightarrow> (x, x) \<notin> (set es)\<^sup>+)"
    by (simp add: back_edges_empty_iff ks)
  also have "\<dots> \<longleftrightarrow> acyclic (set es)"
  proof
    assume h: "\<forall>n\<in>Field (set es). \<forall>x. (n, x) \<in> (set es)\<^sup>* \<longrightarrow> (x, x) \<notin> (set es)\<^sup>+"
    show "acyclic (set es)"
      unfolding acyclic_def
    proof (intro allI notI)
      fix x
      assume "(x, x) \<in> (set es)\<^sup>+"
      moreover from this have "x \<in> Field (set es)"
        by (metis FieldI1 tranclD)
      ultimately show False using h by blast
    qed
  qed (auto simp: acyclic_def)
  finally show ?thesis .
qed

lemma control_flow_validation_iff:
  assumes "\<And>ks. set (order ks) = set ks"
  shows "control_flow_validation order ir = Inr ir' \<longleftrightarrow>
    ir' = ir \<and> refs_ok ir \<and> (\<forall>n\<in>set (ir_nodes ir). kind_ok ir n) \<and> acyclic (flow_rel ir)"
proof -
  have "try_for (check_edge_refs ir) (ir_edges ir) () = Inr () \<longleftrightarrow> refs_ok ir"
    unfolding try_for_unit by (auto simp: check_edge_refs_def refs_ok_def)
  moreover have "try_for (check_node_kind ir) (ir_nodes ir) () = Inr () \<longleftrightarrow>
      (\<forall>n\<in>set (ir_nodes ir). kind_ok ir n)"
    unfolding try_for_unit check_node_kind_iff ..
  moreover have "detect_illegal_cycles order ir = Inr () \<longleftrightarrow> acyclic (flow_rel ir)"
    unfolding detect_illegal_cycles_def map_err_Inr_iff
    using three_color_acyclic [OF assms] by (simp add: set_forward_pairs)
  ultimately show ?thesis
    unfolding control_flow_validation_def by auto
qed

section \<open>Dead-node elimination keeps exactly what an entry reaches\<close>

lemma dne_loop_grows: "set q \<union> set r \<subseteq> set (dne_loop es q r)"
  by (induction es q r rule: dne_loop.induct) auto

lemma dne_loop_sound: "set (dne_loop es q r) \<subseteq> set r \<union> (set es)\<^sup>* `` set q"
proof (induction es q r rule: dne_loop.induct)
  case (2 es current queue reachable)
  have "(set es)\<^sup>* `` {y. (current, y) \<in> set es} \<subseteq> (set es)\<^sup>* `` {current}"
    by (auto intro: converse_rtrancl_into_rtrancl)
  with 2 show ?case by (auto simp: Image_Un split: if_splits) blast+
qed auto

lemma dne_loop_closed:
  "\<forall>x\<in>set r. set (succs es x) \<subseteq> set r \<union> set q \<Longrightarrow>
    x \<in> set (dne_loop es q r) \<Longrightarrow> (x, y) \<in> set es \<Longrightarrow> y \<in> set (dne_loop es q r)"
proof (induction es q r rule: dne_loop.induct)
  case (2 es current queue reachable)
  then show ?case
    by (cases "current \<in> set reachable") auto
qed auto

lemma dne_loop_correct: "set (dne_loop es q []) = (set es)\<^sup>* `` set q"
proof (intro subset_antisym subsetI)
  fix y assume "y \<in> (set es)\<^sup>* `` set q"
  then obtain x where "x \<in> set q" and "(x, y) \<in> (set es)\<^sup>*" by auto
  from this(2) show "y \<in> set (dne_loop es q [])"
  proof (induction rule: rtrancl_induct)
    case base
    then show ?case using \<open>x \<in> set q\<close> dne_loop_grows [of q "[]" es] by auto
  next
    case (step u v)
    then show ?case using dne_loop_closed [of "[]" es q u v] by simp
  qed
qed (use dne_loop_sound [of es q "[]"] in auto)

definition is_entry :: "exec_ir \<Rightarrow> uuid \<Rightarrow> bool" where
  "is_entry ir i \<longleftrightarrow> i \<in> set (ir_ids ir) \<and> i \<in> fst ` set (all_pairs ir) \<and> i \<notin> snd ` set (all_pairs ir)"

definition live :: "exec_ir \<Rightarrow> uuid \<Rightarrow> bool" where
  "live ir i \<longleftrightarrow> (\<exists>r. is_entry ir r \<and> (r, i) \<in> (set (all_pairs ir))\<^sup>*)"

definition live_part :: "exec_ir \<Rightarrow> exec_ir" where
  "live_part ir = ir\<lparr>ir_nodes := filter (\<lambda>n. live ir (in_id n)) (ir_nodes ir),
     ir_edges := filter (\<lambda>e. live ir (ie_from e) \<and> live ir (ie_to e)) (ir_edges ir)\<rparr>"

lemma dne_roots_entry: "set (dne_roots ir) = {i. is_entry ir i}"
  by (auto simp: dne_roots_def is_entry_def)

lemma entry_edges: "is_entry ir i \<Longrightarrow> ir_nodes ir \<noteq> [] \<and> ir_edges ir \<noteq> []"
  by (auto simp: is_entry_def ir_ids_def all_pairs_def)

lemma dead_node_elimination_eq:
  assumes "\<And>ks. set (order ks) = set ks"
  shows "dead_node_elimination order ir = Inr (if \<exists>i. is_entry ir i then live_part ir else ir)"
proof (cases "\<exists>i. is_entry ir i")
  case True
  then have ne: "dne_roots ir \<noteq> []" "ir_nodes ir \<noteq> []" "ir_edges ir \<noteq> []"
    using dne_roots_entry [of ir] entry_edges by auto
  have "set (dne_loop (all_pairs ir) (order (remdups (dne_roots ir))) []) = {i. live ir i}"
    by (auto simp: dne_loop_correct assms dne_roots_entry live_def)
  then show ?thesis
    using True ne by (simp add: dead_node_elimination_def live_part_def Let_def)
next
  case False
  then have "dne_roots ir = []"
    using dne_roots_entry [of ir] by auto
  with False show ?thesis by (simp add: dead_node_elimination_def)
qed

lemma all_pairs_live_part:
  "set (all_pairs (live_part ir)) = {(f, t) \<in> set (all_pairs ir). live ir f \<and> live ir t}"
  by (auto simp: all_pairs_def live_part_def)

lemma live_edge: "live ir f \<Longrightarrow> (f, t) \<in> set (all_pairs ir) \<Longrightarrow> live ir t"
  unfolding live_def by (meson rtrancl.rtrancl_into_rtrancl)

lemma live_entry_or_edge:
  assumes "live ir i"
  shows "is_entry ir i \<or> (\<exists>p. live ir p \<and> (p, i) \<in> set (all_pairs ir))"
proof -
  from assms obtain r where "is_entry ir r" "(r, i) \<in> (set (all_pairs ir))\<^sup>*"
    by (auto simp: live_def)
  then show ?thesis
    by (metis live_def rtranclE)
qed

lemma is_entry_live_part: "is_entry (live_part ir) i \<longleftrightarrow> is_entry ir i"
proof
  assume e: "is_entry (live_part ir) i"
  then have "live ir i" "i \<notin> snd ` set (all_pairs (live_part ir))"
    by (auto simp: is_entry_def ir_ids_def live_part_def)
  then show "is_entry ir i"
    using live_entry_or_edge [of ir i] by (force simp: all_pairs_live_part)
next
  assume e: "is_entry ir i"
  then have l: "live ir i"
    by (auto simp: live_def)
  then have "i \<in> set (ir_ids (live_part ir))"
    using e by (auto simp: is_entry_def ir_ids_def live_part_def)
  moreover obtain t where "(i, t) \<in> set (all_pairs ir)"
    using e by (auto simp: is_entry_def)
  then have "(i, t) \<in> set (all_pairs (live_part ir))"
    using l live_edge by (auto simp: all_pairs_live_part)
  moreover have "i \<notin> snd ` set (all_pairs (live_part ir))"
    using e by (force simp: is_entry_def all_pairs_live_part)
  ultimately show "is_entry (live_part ir) i"
    by (force simp: is_entry_def)
qed

lemma live_live_part: "live ir i \<Longrightarrow> live (live_part ir) i"
proof -
  assume "live ir i"
  then obtain r where r: "is_entry ir r" and "(r, i) \<in> (set (all_pairs ir))\<^sup>*"
    by (auto simp: live_def)
  from this(2) have "(r, i) \<in> (set (all_pairs (live_part ir)))\<^sup>* \<and> live ir i"
  proof (induction rule: rtrancl_induct)
    case base
    then show ?case using r by (auto simp: live_def)
  next
    case (step y z)
    then have "(y, z) \<in> set (all_pairs (live_part ir))" "live ir z"
      using live_edge by (auto simp: all_pairs_live_part)
    with step show ?case by (meson rtrancl.rtrancl_into_rtrancl)
  qed
  then show ?thesis
    using r is_entry_live_part by (auto simp: live_def)
qed

lemma live_part_idem: "live_part (live_part ir) = live_part ir"
proof -
  have "n \<in> set (ir_nodes (live_part ir)) \<Longrightarrow> live ir (in_id n)"
    "e \<in> set (ir_edges (live_part ir)) \<Longrightarrow> live ir (ie_from e) \<and> live ir (ie_to e)" for n e
    by (simp_all add: live_part_def)
  then have "filter (\<lambda>n. live (live_part ir) (in_id n)) (ir_nodes (live_part ir)) = ir_nodes (live_part ir)"
    "filter (\<lambda>e. live (live_part ir) (ie_from e) \<and> live (live_part ir) (ie_to e))
      (ir_edges (live_part ir)) = ir_edges (live_part ir)"
    by (simp_all add: filter_id_conv live_live_part)
  then show ?thesis
    unfolding live_part_def [of "live_part ir"] by simp
qed

section \<open>The policy pass\<close>

definition gated :: "ir_node list \<Rightarrow> ir_edge list \<Rightarrow> ir_node \<Rightarrow> bool" where
  "gated nodes edges n \<longleftrightarrow> (\<exists>e\<in>set edges. ie_to e = in_id n \<and>
     (\<exists>m\<in>set nodes. in_id m = ie_from e \<and> in_kind m = IkGate))"

definition gate_edge :: "compiler_env \<Rightarrow> ir_node \<Rightarrow> ir_edge" where
  "gate_edge env n = \<lparr>ie_from = gate_id env n, ie_to = in_id n, ie_condition = None\<rparr>"

abbreviation best_rule :: "compiler_env \<Rightarrow> policy_rule list \<Rightarrow> ir_node \<Rightarrow> policy_rule option" where
  "best_rule env rules n \<equiv> evaluate_matching_rule (json_text env) rules (symbol_key n) (node_facts env n)"

lemma already_guarded_gated: "already_guarded nodes edges n \<longleftrightarrow> gated nodes edges n"
  by (simp add: already_guarded_def gated_def list_ex_iff)

lemma gated_mono:
  "gated nodes edges n \<Longrightarrow> set nodes \<subseteq> set nodes' \<Longrightarrow> set edges \<subseteq> set edges' \<Longrightarrow> gated nodes' edges' n"
  unfolding gated_def by blast

lemma policy_step_cases:
  assumes "policy_step env rules ir n st = Inr st'"
  shows "\<exists>gs. set gs \<subseteq> {n} \<and> ps_edges st' = ps_edges st @ map (gate_edge env) gs \<and>
      ps_inserted st' = ps_inserted st @ map (gate_node env) gs"
    and "\<forall>r. best_rule env rules n = Some r \<longrightarrow> rule_effect r \<noteq> Deny \<and>
      (rule_effect r = Approval \<longrightarrow> gated (ir_nodes ir @ ps_inserted st') (ps_edges st') n)"
proof -
  show "\<exists>gs. set gs \<subseteq> {n} \<and> ps_edges st' = ps_edges st @ map (gate_edge env) gs \<and>
      ps_inserted st' = ps_inserted st @ map (gate_node env) gs"
    using assms by (auto simp: policy_step_def Let_def gate_edge_def split: option.splits if_splits
        intro: exI [of _ "[]"] exI [of _ "[n]"])
  show "\<forall>r. best_rule env rules n = Some r \<longrightarrow> rule_effect r \<noteq> Deny \<and>
      (rule_effect r = Approval \<longrightarrow> gated (ir_nodes ir @ ps_inserted st') (ps_edges st') n)"
  proof (intro allI impI conjI)
    fix r
    assume r: "best_rule env rules n = Some r"
    then show "rule_effect r \<noteq> Deny"
      using assms by (auto simp: policy_step_def Let_def)
    assume a: "rule_effect r = Approval"
    show "gated (ir_nodes ir @ ps_inserted st') (ps_edges st') n"
    proof (cases "already_guarded (ir_nodes ir) (ps_edges st) n")
      case True
      then have "gated (ir_nodes ir) (ps_edges st') n"
        using assms r a by (auto simp: policy_step_def Let_def already_guarded_gated)
      then show ?thesis
        by (rule gated_mono) auto
    next
      case False
      then show ?thesis
        using assms r a by (auto simp: policy_step_def Let_def gated_def gate_node_def)
    qed
  qed
qed

lemma policy_loop:
  "try_for (policy_step env rules ir) ns st = Inr st' \<Longrightarrow>
    (\<exists>gs. set gs \<subseteq> set ns \<and> ps_edges st' = ps_edges st @ map (gate_edge env) gs \<and>
       ps_inserted st' = ps_inserted st @ map (gate_node env) gs) \<and>
    (\<forall>n\<in>set ns. \<forall>r. best_rule env rules n = Some r \<longrightarrow> rule_effect r \<noteq> Deny \<and>
       (rule_effect r = Approval \<longrightarrow> gated (ir_nodes ir @ ps_inserted st') (ps_edges st') n))"
proof (induction ns arbitrary: st)
  case (Cons n ns)
  then obtain st1 where s1: "policy_step env rules ir n st = Inr st1"
    and s2: "try_for (policy_step env rules ir) ns st1 = Inr st'" by auto
  obtain g1 where g1: "set g1 \<subseteq> {n}" "ps_edges st1 = ps_edges st @ map (gate_edge env) g1"
    "ps_inserted st1 = ps_inserted st @ map (gate_node env) g1"
    using policy_step_cases(1) [OF s1] by blast
  obtain g2 where g2: "set g2 \<subseteq> set ns" "ps_edges st' = ps_edges st1 @ map (gate_edge env) g2"
    "ps_inserted st' = ps_inserted st1 @ map (gate_node env) g2"
    using Cons.IH [OF s2] by blast
  have "\<exists>gs. set gs \<subseteq> set (n # ns) \<and> ps_edges st' = ps_edges st @ map (gate_edge env) gs \<and>
       ps_inserted st' = ps_inserted st @ map (gate_node env) gs"
    by (rule exI [of _ "g1 @ g2"]) (use g1 g2 in auto)
  moreover have "gated (ir_nodes ir @ ps_inserted st') (ps_edges st') n"
    if "gated (ir_nodes ir @ ps_inserted st1) (ps_edges st1) n"
    by (rule gated_mono [OF that]) (use g2 in auto)
  ultimately show ?case
    using Cons.IH [OF s2] policy_step_cases(2) [OF s1] by auto
qed (auto intro: exI [of _ "[]"])

section \<open>Properties\<close>

text \<open>C21. Control-flow validation is exact and changes nothing: whatever the order in which the hash
  map of the cycle search is visited, the pass succeeds if and only if every edge refers to existing
  nodes, every control-flow node satisfies the rule of its kind, and the edges without the \<open>loop\<close>
  condition are acyclic; then it returns the IR unchanged.\<close>

theorem control_flow_validation_exact:
  assumes "visits_all env"
  shows "control_flow_validation (hash_order env) ir = Inr ir' \<longleftrightarrow>
    ir' = ir \<and> refs_ok ir \<and> (\<forall>n\<in>set (ir_nodes ir). kind_ok ir n) \<and> acyclic (flow_rel ir)"
  by (rule control_flow_validation_iff) (use assms in \<open>simp add: visits_all_def\<close>)

definition demo_cenv :: compiler_env where
  "demo_cenv = \<lparr>hash_order = rev, can_afford = (\<lambda>_ _. True), new_v5 = (\<lambda>p _. p + 1),
     show_uuid = (\<lambda>_. []), json_text = (\<lambda>_. []), debug_str = (\<lambda>s. s)\<rparr>"

definition demo_ir_node :: "uuid \<Rightarrow> ir_node_kind \<Rightarrow> ir_node" where
  "demo_ir_node i k = \<lparr>in_id = i, in_kind = k, in_strategy = Single, in_model = None, in_config = []\<rparr>"

definition demo_ir_edge :: "uuid \<Rightarrow> uuid \<Rightarrow> string option \<Rightarrow> ir_edge" where
  "demo_ir_edge f t c = \<lparr>ie_from = f, ie_to = t, ie_condition = c\<rparr>"

definition demo_exec_ir :: "ir_node list \<Rightarrow> ir_edge list \<Rightarrow> exec_ir" where
  "demo_exec_ir ns es = \<lparr>plan_id = 1, ir_nodes = ns, ir_edges = es,
     ir_meta = \<lparr>im_policy_applied = [], im_policy_version = 0, im_estimated_cost = NanoUSD 5,
       im_estimated_tokens = 10\<rparr>\<rparr>"

definition demo_flow :: exec_ir where
  "demo_flow = demo_exec_ir [demo_ir_node 10 IkGenerate, demo_ir_node 20 IkReview]
     [demo_ir_edge 10 20 None, demo_ir_edge 20 10 (Some ''loop'')]"

lemma demo_cenv_visits: "visits_all demo_cenv"
  by (simp add: visits_all_def demo_cenv_def)

theorem control_flow_validation_exact_witness:
  "control_flow_validation (hash_order demo_cenv) demo_flow = Inr demo_flow \<and> acyclic (flow_rel demo_flow)"
proof -
  have "control_flow_validation (hash_order demo_cenv) demo_flow = Inr demo_flow" by code_simp
  then show ?thesis
    using control_flow_validation_exact [OF demo_cenv_visits] by blast
qed

text \<open>C22. Dead-node elimination is exact, order-preserving and idempotent: when the graph has an entry
  (a node with outgoing and without incoming edges), the result keeps, in order, exactly the nodes
  reachable from an entry and the edges between them, and running the pass again changes nothing;
  without an entry the IR is returned as it is.\<close>

theorem dead_node_elimination_exact:
  assumes "visits_all env"
  shows "dead_node_elimination (hash_order env) ir =
      Inr (if \<exists>i. is_entry ir i then live_part ir else ir) \<and>
    dead_node_elimination (hash_order env) (if \<exists>i. is_entry ir i then live_part ir else ir) =
      Inr (if \<exists>i. is_entry ir i then live_part ir else ir)"
proof -
  have "\<And>ks. set (hash_order env ks) = set ks"
    using assms by (simp add: visits_all_def)
  note eq = dead_node_elimination_eq [OF this]
  show ?thesis
    unfolding eq by (auto simp: is_entry_live_part live_part_idem)
qed

definition demo_orphan :: exec_ir where
  "demo_orphan = demo_exec_ir
     [demo_ir_node 10 IkGenerate, demo_ir_node 20 IkReview, demo_ir_node 30 IkJudge]
     [demo_ir_edge 10 20 None]"

theorem dead_node_elimination_exact_witness:
  "dead_node_elimination (hash_order demo_cenv) demo_orphan = Inr (live_part demo_orphan) \<and>
    map in_id (ir_nodes (live_part demo_orphan)) = [10, 20]"
proof -
  have "is_entry demo_orphan 10" by code_simp
  then have e: "\<exists>i. is_entry demo_orphan i" ..
  have d: "dead_node_elimination (hash_order demo_cenv) demo_orphan =
      Inr (demo_orphan\<lparr>ir_nodes := [demo_ir_node 10 IkGenerate, demo_ir_node 20 IkReview]\<rparr>)"
    by code_simp
  have "dead_node_elimination (hash_order demo_cenv) demo_orphan = Inr (live_part demo_orphan)"
    using dead_node_elimination_exact [OF demo_cenv_visits, of demo_orphan] e by simp
  moreover from this d have "live_part demo_orphan =
      demo_orphan\<lparr>ir_nodes := [demo_ir_node 10 IkGenerate, demo_ir_node 20 IkReview]\<rparr>" by simp
  ultimately show ?thesis
    by (simp add: demo_ir_node_def)
qed

text \<open>Dead-node elimination can delete live work: a loop that control-flow validation accepts and
  whose head starts the workflow is removed as soon as another, loop-free entry exists, because the
  legal \<open>loop\<close> back edge counts as an incoming edge of the head.\<close>

theorem loop_entry_eliminated:
  "let ir = demo_exec_ir
       [demo_ir_node 10 IkGenerate, demo_ir_node 20 IkReview, demo_ir_node 30 IkGenerate, demo_ir_node 40 IkJudge]
       [demo_ir_edge 10 20 None, demo_ir_edge 20 10 (Some ''loop''), demo_ir_edge 30 40 None]
   in control_flow_validation (hash_order demo_cenv) ir = Inr ir \<and>
      map_option (map in_id \<circ> ir_nodes)
        (case dead_node_elimination (hash_order demo_cenv) ir of Inl _ \<Rightarrow> None | Inr r \<Rightarrow> Some r)
      = Some [30, 40]"
  by code_simp

text \<open>C16. The policy pass enforces its rules: if it succeeds, no node's governing rule is a Deny, every
  node governed by an Approval rule has a Gate node as a direct predecessor in the result, and the
  result is the original graph with only gates and their edges appended.\<close>

theorem policy_pass_enforces:
  assumes "policy_pass env rules ir = Inr ir'"
  shows "(\<exists>gs. set gs \<subseteq> set (ir_nodes ir) \<and>
      ir' = ir\<lparr>ir_nodes := ir_nodes ir @ map (gate_node env) gs,
               ir_edges := ir_edges ir @ map (gate_edge env) gs\<rparr>) \<and>
    (\<forall>n\<in>set (ir_nodes ir). \<forall>r. best_rule env rules n = Some r \<longrightarrow> rule_effect r \<noteq> Deny \<and>
      (rule_effect r = Approval \<longrightarrow> gated (ir_nodes ir') (ir_edges ir') n))"
proof -
  from assms obtain st where st: "try_for (policy_step env rules ir) (ir_nodes ir)
      \<lparr>ps_edges = ir_edges ir, ps_inserted = [], ps_trace = []\<rparr> = Inr st"
    and ir': "ir' = ir\<lparr>ir_nodes := ir_nodes ir @ ps_inserted st, ir_edges := ps_edges st\<rparr>"
    by (auto simp: policy_pass_def)
  show ?thesis
    using policy_loop [OF st] by (auto simp: ir')
qed

definition demo_approval :: "policy_rule list" where
  "demo_approval = [\<lparr>rule_id = ''r1'', target_pattern = ''general'', rule_priority = 1,
     rule_effect = Approval, rule_conditions = [], rule_actions = []\<rparr>]"

theorem policy_pass_enforces_witness:
  "\<exists>ir'. policy_pass demo_cenv demo_approval (demo_exec_ir [demo_ir_node 10 IkGenerate] []) = Inr ir' \<and>
    gated (ir_nodes ir') (ir_edges ir') (demo_ir_node 10 IkGenerate)"
proof -
  let ?ir = "demo_exec_ir [demo_ir_node 10 IkGenerate] []"
  let ?out = "demo_exec_ir [demo_ir_node 10 IkGenerate, gate_node demo_cenv (demo_ir_node 10 IkGenerate)]
    [demo_ir_edge 11 10 None]"
  have p: "policy_pass demo_cenv demo_approval ?ir = Inr ?out" by code_simp
  have b: "best_rule demo_cenv demo_approval (demo_ir_node 10 IkGenerate) = Some (hd demo_approval)"
    by code_simp
  have "rule_effect (hd demo_approval) = Approval"
    by (simp add: demo_approval_def)
  moreover have "demo_ir_node 10 IkGenerate \<in> set (ir_nodes ?ir)"
    by (simp add: demo_exec_ir_def)
  ultimately show ?thesis
    using policy_pass_enforces [OF p] p b by blast
qed

end
