(* ===== verification/Compiler.thy ===== *)
theory Compiler
  imports Compiler_Passes
begin

text \<open>
  The rest of \<open>crates/fusion-compiler\<close>: the content hash (\<open>content_hash.rs\<close>), lowering to the execution
  graph, the pass pipeline and the engine (\<open>lib.rs\<close>). Timings and the floating-point route scores of
  the report are left out.
\<close>

unbundle bit_operations_syntax

section \<open>Content hash\<close>

definition FNV_OFFSET :: u64 where "FNV_OFFSET = 0xcbf29ce484222325"
definition FNV_PRIME :: u64 where "FNV_PRIME = 0x100000001b3"

definition mix :: "u64 \<Rightarrow> u64 \<Rightarrow> u64" where
  "mix h byte = (h XOR byte) * FNV_PRIME"

definition le_bytes :: "u64 \<Rightarrow> u64 list" where
  "le_bytes v = map (\<lambda>i. drop_bit (8 * i) v AND 0xff) [0..<8]"

definition mix_u64 :: "u64 \<Rightarrow> u64 \<Rightarrow> u64" where
  "mix_u64 h v = foldl mix h (le_bytes v)"

definition mix_str :: "u64 \<Rightarrow> string \<Rightarrow> u64" where
  "mix_str h s = foldl (\<lambda>h c. mix h (of_char c)) (mix_u64 h (word_of_nat (length s))) s"

definition low_half :: "uuid \<Rightarrow> u64" where
  "low_half i = ucast i"

definition high_half :: "uuid \<Rightarrow> u64" where
  "high_half i = ucast (drop_bit 64 i)"

fun canonicalize :: "json \<Rightarrow> json" where
  "canonicalize (JObject m) = JObject (bt_of_list (map (\<lambda>kv. (fst kv, canonicalize (snd kv))) (sort_key fst m)))"
| "canonicalize (JArray items) = JArray (map canonicalize items)"
| "canonicalize v = v"

definition canonical_config_json :: "(json \<Rightarrow> string) \<Rightarrow> json btree \<Rightarrow> string option" where
  "canonical_config_json jt config =
    (if config = [] then None else Some (jt (canonicalize (JObject (bt_of_list config)))))"

definition hash_node :: "compiler_env \<Rightarrow> u64 \<Rightarrow> ir_node \<Rightarrow> u64" where
  "hash_node env h n =
    (let h1 = mix_u64 (mix_u64 h (low_half (in_id n))) (high_half (in_id n));
         h2 = mix_str (mix_str h1 (ir_kind_name (in_kind n))) (as_label (debug_str env) (in_strategy n));
         h3 = (case in_model n of Some m \<Rightarrow> mix_str h2 m | None \<Rightarrow> mix h2 0)
     in case canonical_config_json (json_text env) (in_config n) of Some c \<Rightarrow> mix_str h3 c | None \<Rightarrow> h3)"

definition hash_edge :: "u64 \<Rightarrow> ir_edge \<Rightarrow> u64" where
  "hash_edge h e =
    (let h1 = mix_u64 (mix_u64 h (low_half (ie_from e))) (low_half (ie_to e))
     in case ie_condition e of Some c \<Rightarrow> mix_str h1 c | None \<Rightarrow> mix h1 0)"

definition compute_workflow_content_hash :: "compiler_env \<Rightarrow> exec_ir \<Rightarrow> u64" where
  "compute_workflow_content_hash env ir =
    (let h0 = mix_u64 (mix_u64 FNV_OFFSET (low_half (plan_id ir))) (high_half (plan_id ir));
         h1 = mix_u64 (mix_u64 h0 (im_policy_version (ir_meta ir))) (word_of_nat (length (ir_nodes ir)));
         h2 = foldl (hash_node env) h1 (sort_key in_id (ir_nodes ir))
     in foldl hash_edge h2 (sort_key (\<lambda>e. (ie_from e, ie_to e)) (ir_edges ir)))"

section \<open>Lowering\<close>

fun lower_kind :: "ir_node_kind \<Rightarrow> execution_node_kind" where
  "lower_kind IkGenerate = LLMGenerate"
| "lower_kind IkReview = LLMReview"
| "lower_kind IkJudge = LLMJudge"
| "lower_kind IkTransform = XTransform"
| "lower_kind IkGate = XGate"
| "lower_kind IkConditional = XConditional"
| "lower_kind IkLoop = XLoop"
| "lower_kind IkSplit = XSplit"
| "lower_kind IkJoin = XJoin"
| "lower_kind IkBarrier = XBarrier"

definition lower_retry :: "json btree \<Rightarrow> retry_policy" where
  "lower_retry config =
    \<lparr>max_retries = (case config_u64 config ''max_retries'' of Some v \<Rightarrow> ucast (clamp v 0 10) | None \<Rightarrow> 2),
     backoff_ms = (case config_u64 config ''backoff_ms'' of Some v \<Rightarrow> clamp v 0 60000 | None \<Rightarrow> 1000)\<rparr>"

definition lower_node ::
  "compiler_env \<Rightarrow> (string \<rightharpoonup> strategy_compiler) \<Rightarrow> ir_node \<Rightarrow> execution_node" where
  "lower_node env custom_compilers n =
    (let node = ExecutionNode (in_id n) (lower_kind (in_kind n)) (in_strategy n)
           (case in_model n of Some m \<Rightarrow> m | None \<Rightarrow> []) (lower_retry (in_config n)) None (in_config n) None
     in ExecutionNode (en_id node) (en_kind node) (en_strategy node) (en_model node)
          (en_retry_policy node) (en_fallback node) (en_config node)
          (expanded_subgraph_with_compilers (new_v5 env) (show_uuid env) node custom_compilers))"

definition lower_edge :: "ir_edge \<Rightarrow> execution_edge" where
  "lower_edge e = \<lparr>ee_from = ie_from e, ee_to = ie_to e, ee_condition = ie_condition e\<rparr>"

definition lower_to_graph_with_compilers ::
  "compiler_env \<Rightarrow> exec_ir \<Rightarrow> (string \<rightharpoonup> strategy_compiler) \<Rightarrow> compiler_error + execution_graph" where
  "lower_to_graph_with_compilers env ir custom_compilers = Inr
    \<lparr>graph_id = plan_id ir,
     eg_nodes = map (lower_node env custom_compilers) (ir_nodes ir),
     eg_edges = map lower_edge (ir_edges ir),
     eg_metadata = \<lparr>gm_estimated_cost = im_estimated_cost (ir_meta ir),
       gm_estimated_tokens = im_estimated_tokens (ir_meta ir),
       gm_policy_version = im_policy_version (ir_meta ir),
       gm_max_depth = 1, gm_node_count = word_of_nat (length (ir_nodes ir))\<rparr>,
     total_tokens = im_estimated_tokens (ir_meta ir),
     total_cost = im_estimated_cost (ir_meta ir),
     primitive_graph_hash = compute_workflow_content_hash env ir\<rparr>"


section \<open>Pipeline and engine\<close>

datatype compiler_pass =
    ConstraintValidationPass
  | ModelResolutionPass model_catalog
  | ControlFlowValidationPass
  | StrategyLoweringPass "string set"
  | DeadNodeEliminationPass
  | BudgetOptimisationPass
  | PolicyCompilerPass "policy_rule list"

fun pass_name :: "compiler_pass \<Rightarrow> string" where
  "pass_name ConstraintValidationPass = ''constraint_validation''"
| "pass_name (ModelResolutionPass _) = ''model_resolution''"
| "pass_name ControlFlowValidationPass = ''control_flow_validation''"
| "pass_name (StrategyLoweringPass _) = ''strategy_lowering''"
| "pass_name DeadNodeEliminationPass = ''dead_node_elimination''"
| "pass_name BudgetOptimisationPass = ''budget_optimisation''"
| "pass_name (PolicyCompilerPass _) = ''policy''"

fun apply_pass :: "compiler_env \<Rightarrow> compiler_pass \<Rightarrow> exec_ir \<Rightarrow> compiler_error + exec_ir" where
  "apply_pass env ConstraintValidationPass ir = constraint_validation ir"
| "apply_pass env (ModelResolutionPass catalog) ir = model_resolution catalog ir"
| "apply_pass env ControlFlowValidationPass ir = control_flow_validation (hash_order env) ir"
| "apply_pass env (StrategyLoweringPass registered) ir = strategy_lowering registered ir"
| "apply_pass env DeadNodeEliminationPass ir = dead_node_elimination (hash_order env) ir"
| "apply_pass env BudgetOptimisationPass ir = budget_optimisation (can_afford env) ir"
| "apply_pass env (PolicyCompilerPass rules) ir = policy_pass env rules ir"

record pass_diff =
  pd_pass_number :: nat
  pd_pass_name :: string
  pd_input_nodes :: nat
  pd_output_nodes :: nat

datatype platform_error =
    EmptyIntent
  | PassFailed string compiler_error
  | LowerFailed compiler_error

fun run_pass_pipeline ::
  "compiler_env \<Rightarrow> nat \<Rightarrow> compiler_pass list \<Rightarrow> exec_ir \<Rightarrow>
    platform_error + string list \<times> pass_diff list \<times> exec_ir" where
  "run_pass_pipeline env idx [] ir = Inr ([], [], ir)"
| "run_pass_pipeline env idx (p # passes) ir =
    and_then (map_err (PassFailed (pass_name p)) (apply_pass env p ir)) (\<lambda>ir'.
    and_then (run_pass_pipeline env (idx + 1) passes ir') (\<lambda>(names, diffs, out).
      Inr (pass_name p # names,
           \<lparr>pd_pass_number = idx + 1, pd_pass_name = pass_name p,
            pd_input_nodes = length (ir_nodes ir), pd_output_nodes = length (ir_nodes ir')\<rparr> # diffs,
           out)))"

record compiler_engine =
  engine_passes :: "compiler_pass list"
  custom_compilers :: "string \<rightharpoonup> strategy_compiler"

record compiler_report =
  report_intent :: string
  passes_executed :: "string list"
  pass_diffs :: "pass_diff list"
  report_graph_id :: string

definition compile_and_lower ::
  "compiler_env \<Rightarrow> compiler_engine \<Rightarrow> string \<Rightarrow> exec_ir \<Rightarrow> platform_error + compiler_report \<times> execution_graph" where
  "compile_and_lower env engine intent ir =
    (if intent = [] then Inl EmptyIntent
     else and_then (run_pass_pipeline env 0 (engine_passes engine) ir) (\<lambda>(names, diffs, current_ir).
       and_then (map_err LowerFailed (lower_to_graph_with_compilers env current_ir (custom_compilers engine)))
         (\<lambda>graph. Inr
           (\<lparr>report_intent = intent, passes_executed = names, pass_diffs = diffs,
             report_graph_id = ''graph_'' @ show_uuid env (plan_id ir)\<rparr>, graph))))"

definition compile :: "compiler_env \<Rightarrow> compiler_engine \<Rightarrow> string \<Rightarrow> exec_ir \<Rightarrow> platform_error + compiler_report" where
  "compile env engine intent ir = and_then (compile_and_lower env engine intent ir) (\<lambda>(report, _). Inr report)"

definition register_custom_compiler ::
  "compiler_engine \<Rightarrow> string \<Rightarrow> strategy_compiler \<Rightarrow> compiler_engine" where
  "register_custom_compiler engine name c = engine\<lparr>custom_compilers := (custom_compilers engine)(name \<mapsto> c)\<rparr>"

definition add_pass :: "compiler_engine \<Rightarrow> compiler_pass \<Rightarrow> compiler_engine" where
  "add_pass engine p = engine\<lparr>engine_passes := engine_passes engine @ [p]\<rparr>"

definition with_resource_manager_custom :: compiler_engine where
  "with_resource_manager_custom = \<lparr>engine_passes = [], custom_compilers = Map.empty\<rparr>"

definition build_compiler :: "model_catalog \<Rightarrow> policy_rule list option \<Rightarrow> compiler_engine" where
  "build_compiler catalog policy_ir =
    (let engine = fold (\<lambda>p e. add_pass e p)
       [ConstraintValidationPass, ControlFlowValidationPass, StrategyLoweringPass {},
        DeadNodeEliminationPass, ModelResolutionPass catalog, BudgetOptimisationPass]
       with_resource_manager_custom
     in case policy_ir of None \<Rightarrow> engine | Some rules \<Rightarrow> add_pass engine (PolicyCompilerPass rules))"

definition with_model_catalog :: "model_catalog \<Rightarrow> compiler_engine" where
  "with_model_catalog catalog =
    \<lparr>engine_passes = [ConstraintValidationPass, ControlFlowValidationPass, StrategyLoweringPass {},
       DeadNodeEliminationPass, ModelResolutionPass catalog, BudgetOptimisationPass],
     custom_compilers = Map.empty\<rparr>"

section \<open>The mandatory pipeline\<close>

lemma build_compiler_passes:
  "engine_passes (build_compiler catalog None) =
    [ConstraintValidationPass, ControlFlowValidationPass, StrategyLoweringPass {},
     DeadNodeEliminationPass, ModelResolutionPass catalog, BudgetOptimisationPass]"
  "engine_passes (build_compiler catalog (Some rules)) =
    [ConstraintValidationPass, ControlFlowValidationPass, StrategyLoweringPass {},
     DeadNodeEliminationPass, ModelResolutionPass catalog, BudgetOptimisationPass,
     PolicyCompilerPass rules]"
  "custom_compilers (build_compiler catalog p) = Map.empty"
  by (simp_all add: build_compiler_def add_pass_def with_resource_manager_custom_def Let_def
      split: option.split)

lemma strategy_lowering_iff:
  "strategy_lowering reg ir = Inr ir' \<longleftrightarrow>
    ir' = ir \<and> (\<forall>n\<in>set (ir_nodes ir). validate_strategy reg n = Inr ())"
proof -
  have "try_for (\<lambda>n _. validate_strategy reg n) (ir_nodes ir) () = Inr () \<longleftrightarrow>
      (\<forall>n\<in>set (ir_nodes ir). validate_strategy reg n = Inr ())"
    by (rule try_for_unit)
  then show ?thesis
    by (auto simp: strategy_lowering_def)
qed

lemma constraint_validation_iff:
  "constraint_validation ir = Inr ir' \<longleftrightarrow> ir' = ir \<and> ir_nodes ir \<noteq> [] \<and> length (ir_nodes ir) \<le> MAX_IR_NODES"
  by (auto simp: constraint_validation_def not_less split: if_splits)


definition trimmed :: "exec_ir \<Rightarrow> exec_ir" where
  "trimmed ir = (if \<exists>i. is_entry ir i then live_part ir else ir)"

definition resolved :: "model_catalog \<Rightarrow> exec_ir \<Rightarrow> exec_ir" where
  "resolved catalog ir = ir\<lparr>ir_nodes := map (resolve_model catalog) (ir_nodes ir)\<rparr>"


lemma trimmed_meta [simp]: "ir_meta (trimmed ir) = ir_meta ir" "plan_id (trimmed ir) = plan_id ir"
  by (simp_all add: trimmed_def live_part_def)

lemma resolved_simps [simp]:
  "ir_meta (resolved c ir) = ir_meta ir" "plan_id (resolved c ir) = plan_id ir"
  "ir_edges (resolved c ir) = ir_edges ir" "ir_ids (resolved c ir) = ir_ids ir"
  "ir_nodes (resolved c ir) = map (resolve_model c) (ir_nodes ir)"
  by (simp_all add: resolved_def ir_ids_def o_def resolve_model_def cong: map_cong)


section \<open>What trimming keeps\<close>





section \<open>What lowering produces\<close>





lemma resolve_model_simps [simp]:
  "in_id (resolve_model c n) = in_id n" "in_kind (resolve_model c n) = in_kind n"
  "in_strategy (resolve_model c n) = in_strategy n" "in_config (resolve_model c n) = in_config n"
  by (simp_all add: resolve_model_def)



section \<open>The whole compiler\<close>




lemma lower_node_id [simp]: "en_id (lower_node env cc n) = in_id n"
  by (simp add: lower_node_def Let_def)



lemma resolved_flow [simp]: "flow_rel (resolved c ir) = flow_rel ir" "refs_ok (resolved c ir) = refs_ok ir"
  by (simp_all add: flow_rel_def refs_ok_def)



definition demo_catalog :: model_catalog where
  "demo_catalog = \<lparr>mc_code = ''c'', mc_debug = ''d'', mc_architecture = ''a'', mc_general = ''g'',
     mc_creative = ''w'', mc_analysis = ''n'', mc_fast = ''f'', mc_cheap = ''p''\<rparr>"




text \<open>The content hash identifies the program, not its listing: two programs that differ only in the
  order of their nodes and edges have the same hash, provided node ids are unique and no two edges are
  parallel.\<close>

theorem content_hash_order_independent:
  assumes "mset (ir_nodes ir) = mset (ir_nodes ir')" and "mset (ir_edges ir) = mset (ir_edges ir')"
    and "plan_id ir = plan_id ir'" and "ir_meta ir = ir_meta ir'"
    and "distinct (map in_id (ir_nodes ir))" and "distinct (map (\<lambda>e. (ie_from e, ie_to e)) (ir_edges ir))"
  shows "compute_workflow_content_hash env ir = compute_workflow_content_hash env ir'"
proof -
  have "sort_key in_id (ir_nodes ir) = sort_key in_id (ir_nodes ir')"
    using assms(1,5) by (intro sort_key_determined) (simp_all add: distinct_map)
  moreover have "sort_key (\<lambda>e. (ie_from e, ie_to e)) (ir_edges ir) =
      sort_key (\<lambda>e. (ie_from e, ie_to e)) (ir_edges ir')"
    using assms(2,6) by - (rule sort_key_determined, simp_all add: distinct_map)
  moreover have "length (ir_nodes ir) = length (ir_nodes ir')"
    using assms(1) by (rule mset_eq_length)
  ultimately show ?thesis
    using assms(3,4) by (simp add: compute_workflow_content_hash_def)
qed

definition demo_orphan_rev :: exec_ir where
  "demo_orphan_rev = demo_orphan\<lparr>ir_nodes := rev (ir_nodes demo_orphan)\<rparr>"

theorem content_hash_order_independent_witness:
  "demo_orphan \<noteq> demo_orphan_rev \<and>
    compute_workflow_content_hash demo_cenv demo_orphan = compute_workflow_content_hash demo_cenv demo_orphan_rev"
proof -
  have "ir_nodes demo_orphan \<noteq> ir_nodes demo_orphan_rev" by code_simp
  then have "demo_orphan \<noteq> demo_orphan_rev" by metis
  moreover have "compute_workflow_content_hash demo_cenv demo_orphan = compute_workflow_content_hash demo_cenv demo_orphan_rev"
  proof (rule content_hash_order_independent)
    show "distinct (map in_id (ir_nodes demo_orphan))"
    "distinct (map (\<lambda>e. (ie_from e, ie_to e)) (ir_edges demo_orphan))" by code_simp+
  qed (simp_all add: demo_orphan_rev_def)
  ultimately show ?thesis ..
qed

lemma registered_passes:
  "engine_passes (register_custom_compiler engine name c) = engine_passes engine"
  by (simp add: register_custom_compiler_def)

text \<open>A custom strategy is never compiled: whatever compiler is registered on an engine of
  build_compiler, a program with a Custom node is refused, because the lowering pass of that engine
  keeps its own, empty set of registered names.\<close>

theorem registered_custom_refused:
  assumes "n \<in> set (ir_nodes ir)" and "in_strategy n = Custom name"
  shows "\<not> is_ok (compile_and_lower env
    (register_custom_compiler (build_compiler catalog policy) name c) intent ir)"
proof -
  have bad: "strategy_lowering {} ir' \<noteq> Inr out" if "ir_nodes ir' = ir_nodes ir" for ir' out
  proof -
    have "validate_strategy {} n \<noteq> Inr ()"
      using assms(2) by (simp add: validate_strategy_def)
    then show ?thesis
      using assms(1) that by (auto simp: strategy_lowering_iff)
  qed
  have "run_pass_pipeline env 0 (ConstraintValidationPass # ControlFlowValidationPass #
      StrategyLoweringPass {} # rest) ir \<noteq> Inr r" for rest r
    using bad [of ir] by (auto simp: constraint_validation_iff control_flow_validation_def)
  then have "run_pass_pipeline env 0 (engine_passes
      (register_custom_compiler (build_compiler catalog policy) name c)) ir \<noteq> Inr r" for r
    unfolding registered_passes by (cases policy) (simp_all only: build_compiler_passes not_False_eq_True)
  then show ?thesis
    by (cases "run_pass_pipeline env 0 (engine_passes
      (register_custom_compiler (build_compiler catalog policy) name c)) ir")
      (auto simp: compile_and_lower_def)
qed

definition demo_custom :: exec_ir where
  "demo_custom = demo_exec_ir [(demo_ir_node 10 IkGenerate)\<lparr>in_strategy := Custom ''c''\<rparr>] []"

theorem registered_custom_refused_witness:
  "\<not> is_ok (compile_and_lower demo_cenv
    (register_custom_compiler (build_compiler demo_catalog None) ''c'' (\<lambda>n _. ExecutionSubgraph [n] [] (en_id n) (en_id n))) ''x'' demo_custom)"
  by (rule registered_custom_refused [of "(demo_ir_node 10 IkGenerate)\<lparr>in_strategy := Custom ''c''\<rparr>"])
    (simp_all add: demo_custom_def demo_exec_ir_def demo_ir_node_def)

end
