(* ===== verification/Work_Queue.thy ===== *)
theory Work_Queue
  imports Exec_Types Graph_Search
begin

text \<open>
  \<open>crates/fusion-scheduler/src/work_queue.rs\<close>: the dispatch state of a running execution graph.
  Hash sets are sets. A hash map that is only read with a default is the function from keys to that
  default or the stored value; the four adjacency maps are built once by \<open>new\<close>. For graphs without
  loops and conditionals the second half gives the invariant that ties the counters to the completed
  predecessors.
\<close>

section \<open>State and construction\<close>

record work_queue =
  wq_graph :: execution_graph
  wq_completed :: "uuid set"
  wq_in_progress :: "uuid set"
  wq_failed :: "uuid set"
  wq_ready :: "uuid set"
  wq_outgoing :: "uuid \<Rightarrow> (uuid \<times> string option) list"
  wq_incoming :: "uuid \<Rightarrow> uuid list"
  wq_outgoing_edges :: "uuid \<Rightarrow> execution_edge list"
  wq_incoming_edges :: "uuid \<Rightarrow> execution_edge list"
  wq_total_incoming :: "uuid \<Rightarrow> nat"
  wq_satisfied_incoming :: "uuid \<Rightarrow> nat"
  wq_activated_edges :: "(uuid \<times> uuid) set"
  wq_selective_sources :: "uuid set"
  wq_back_edges :: "(uuid \<times> uuid) set"
  max_concurrent_nodes :: nat

definition eg_ids :: "execution_graph \<Rightarrow> uuid list" where
  "eg_ids g = map en_id (eg_nodes g)"

definition eg_pairs :: "execution_graph \<Rightarrow> (uuid \<times> uuid) list" where
  "eg_pairs g = map (\<lambda>e. (ee_from e, ee_to e)) (eg_edges g)"

definition loop_node_ids :: "execution_graph \<Rightarrow> uuid list" where
  "loop_node_ids g = map en_id (filter (\<lambda>n. en_kind n = XLoop) (eg_nodes g))"

fun push_unseen :: "uuid list \<Rightarrow> uuid list \<Rightarrow> uuid set \<Rightarrow> uuid list \<times> uuid set" where
  "push_unseen [] stack seen = (stack, seen)"
| "push_unseen (to # targets) stack seen =
    (if to \<in> seen then push_unseen targets stack seen
     else push_unseen targets (to # stack) (insert to seen))"

lemma push_unseen_result:
  "set (fst (push_unseen ts stack seen)) = set stack \<union> (set ts - seen) \<and>
    snd (push_unseen ts stack seen) = seen \<union> set ts"
  by (induction ts arbitrary: stack seen) auto

lemma push_unseen_same:
  "set ts \<subseteq> seen \<Longrightarrow> push_unseen ts stack seen = (stack, seen)"
  by (induction ts arbitrary: stack seen) auto

lemma push_unseen_smaller:
  assumes "push_unseen (succs es current) stack seen = (stack', seen')"
  shows "card (snd ` set es - seen') < card (snd ` set es - seen) \<or>
    card (snd ` set es - seen') = card (snd ` set es - seen) \<and> length stack' < Suc (length stack)"
proof (cases "set (succs es current) \<subseteq> seen")
  case True
  then show ?thesis
    using push_unseen_same [OF True, of stack] assms by simp
next
  case False
  have "seen' = seen \<union> set (succs es current)"
    using push_unseen_result [of "succs es current" stack seen] assms by (metis snd_conv)
  then have "snd ` set es - seen' \<subset> snd ` set es - seen"
    using False by (auto simp: image_iff) force
  then have "card (snd ` set es - seen') < card (snd ` set es - seen)"
    by (intro psubset_card_mono) auto
  then show ?thesis ..
qed

function body_walk :: "(uuid \<times> uuid) list \<Rightarrow> uuid list \<Rightarrow> uuid set \<Rightarrow> uuid set" where
  "body_walk es [] seen = seen"
| "body_walk es (current # stack) seen =
    (case push_unseen (succs es current) stack seen of
       (stack', seen') \<Rightarrow> body_walk es stack' seen')"
  by pat_completeness auto

termination
  by (relation "measures [\<lambda>(es, st, seen). card (snd ` set es - seen), \<lambda>(es, st, seen). length st]")
    (auto split: prod.splits dest!: push_unseen_smaller)

definition loop_back_edges :: "execution_graph \<Rightarrow> (uuid \<times> uuid) set" where
  "loop_back_edges g =
    set (concat (map (\<lambda>loop_id.
      let seen = body_walk (eg_pairs g) [loop_id] {} in
      filter (\<lambda>(from, to). to = loop_id \<and> (from = loop_id \<or> from \<in> seen)) (eg_pairs g))
      (loop_node_ids g))) \<union>
    set (map (\<lambda>e. (ee_from e, ee_to e))
      (filter (\<lambda>e. ee_to e \<in> set (loop_node_ids g) \<and> ee_condition e = Some ''loop'') (eg_edges g)))"

definition gating_count :: "execution_graph \<Rightarrow> uuid \<Rightarrow> nat" where
  "gating_count g i = length (filter (\<lambda>(from, to). to = i \<and> (from, to) \<notin> loop_back_edges g) (eg_pairs g))"

definition work_queue_new :: "execution_graph \<Rightarrow> work_queue" where
  "work_queue_new g =
    \<lparr>wq_graph = g, wq_completed = {}, wq_in_progress = {}, wq_failed = {},
     wq_ready = set (filter (\<lambda>i. gating_count g i = 0) (eg_ids g)),
     wq_outgoing = (\<lambda>i. map (\<lambda>e. (ee_to e, ee_condition e)) (filter (\<lambda>e. ee_from e = i) (eg_edges g))),
     wq_incoming = (\<lambda>i. map ee_from (filter (\<lambda>e. ee_to e = i) (eg_edges g))),
     wq_outgoing_edges = (\<lambda>i. filter (\<lambda>e. ee_from e = i) (eg_edges g)),
     wq_incoming_edges = (\<lambda>i. filter (\<lambda>e. ee_to e = i) (eg_edges g)),
     wq_total_incoming = gating_count g,
     wq_satisfied_incoming = (\<lambda>_. 0),
     wq_activated_edges = {},
     wq_selective_sources = set (map en_id (filter (\<lambda>n. en_kind n \<in> {XLoop, XConditional}) (eg_nodes g))),
     wq_back_edges = loop_back_edges g,
     max_concurrent_nodes = 16\<rparr>"

definition with_max_concurrent_nodes :: "work_queue \<Rightarrow> nat \<Rightarrow> work_queue" where
  "with_max_concurrent_nodes q n = q\<lparr>max_concurrent_nodes := max n 1\<rparr>"

section \<open>Operations\<close>

definition satisfy :: "work_queue \<Rightarrow> uuid \<Rightarrow> uuid \<Rightarrow> work_queue" where
  "satisfy q from to =
    (let q1 = q\<lparr>wq_activated_edges := insert (from, to) (wq_activated_edges q),
              wq_satisfied_incoming := (wq_satisfied_incoming q)(to := wq_satisfied_incoming q to + 1)\<rparr>
     in if wq_satisfied_incoming q1 to = wq_total_incoming q1 to
           \<and> to \<notin> wq_completed q1 \<and> to \<notin> wq_failed q1
        then q1\<lparr>wq_ready := insert to (wq_ready q1)\<rparr> else q1)"

definition try_activate_downstream :: "work_queue \<Rightarrow> uuid \<Rightarrow> work_queue" where
  "try_activate_downstream q from =
    (if from \<in> wq_selective_sources q then q
     else fold (\<lambda>to q. if (from, to) \<in> wq_activated_edges q then q else satisfy q from to)
       (map fst (wq_outgoing q from)) q)"

definition is_terminal :: "node_state option \<Rightarrow> bool" where
  "is_terminal s = (case s of
     Some Succeeded \<Rightarrow> True | Some (Failed _) \<Rightarrow> True | Some Skipped \<Rightarrow> True | _ \<Rightarrow> False)"

definition get_ready :: "work_queue \<Rightarrow> (uuid \<rightharpoonup> node_state) \<Rightarrow> execution_node list" where
  "get_ready q node_states =
    (let result = filter (\<lambda>n. en_id n \<in> wq_ready q \<and> en_id n \<notin> wq_completed q \<and>
           en_id n \<notin> wq_in_progress q \<and> en_id n \<notin> wq_failed q \<and> \<not> is_terminal (node_states (en_id n)))
           (eg_nodes (wq_graph q));
         available = max_concurrent_nodes q - card (wq_in_progress q)
     in if length result > available then take available (sort_key en_id result) else result)"

definition mark_completed :: "work_queue \<Rightarrow> uuid \<Rightarrow> work_queue" where
  "mark_completed q i = try_activate_downstream
    (q\<lparr>wq_completed := insert i (wq_completed q), wq_in_progress := wq_in_progress q - {i},
       wq_ready := wq_ready q - {i}\<rparr>) i"

definition mark_conditional_completed :: "work_queue \<Rightarrow> uuid \<Rightarrow> work_queue" where
  "mark_conditional_completed q i =
    q\<lparr>wq_completed := insert i (wq_completed q), wq_in_progress := wq_in_progress q - {i},
      wq_ready := wq_ready q - {i}\<rparr>"

definition activate_edge :: "work_queue \<Rightarrow> uuid \<Rightarrow> uuid \<Rightarrow> work_queue" where
  "activate_edge q from to =
    (if (from, to) \<in> wq_back_edges q then q\<lparr>wq_ready := insert to (wq_ready q)\<rparr>
     else if (from, to) \<in> wq_activated_edges q then q
     else satisfy q from to)"

definition mark_failed :: "work_queue \<Rightarrow> uuid \<Rightarrow> work_queue" where
  "mark_failed q i = q\<lparr>wq_failed := insert i (wq_failed q), wq_in_progress := wq_in_progress q - {i},
     wq_ready := wq_ready q - {i}\<rparr>"

definition mark_in_progress :: "work_queue \<Rightarrow> uuid \<Rightarrow> work_queue" where
  "mark_in_progress q i = q\<lparr>wq_in_progress := insert i (wq_in_progress q), wq_ready := wq_ready q - {i}\<rparr>"

definition reset_body_node :: "uuid \<Rightarrow> work_queue \<Rightarrow> work_queue" where
  "reset_body_node i q =
    (let q1 = q\<lparr>wq_completed := wq_completed q - {i}, wq_in_progress := wq_in_progress q - {i},
              wq_failed := wq_failed q - {i}, wq_ready := wq_ready q - {i}\<rparr>;
         total = wq_total_incoming q1 i;
         satisfied = length (filter (\<lambda>from. from \<in> wq_completed q1 \<and> (from, i) \<in> wq_activated_edges q1)
           (wq_incoming q1 i));
         q2 = q1\<lparr>wq_satisfied_incoming := (wq_satisfied_incoming q1)(i := satisfied)\<rparr>
     in if satisfied = total \<and> satisfied > 0 then q2\<lparr>wq_ready := insert i (wq_ready q2)\<rparr> else q2)"

definition reset_loop_body :: "work_queue \<Rightarrow> uuid list \<Rightarrow> work_queue" where
  "reset_loop_body q body_ids = fold reset_body_node body_ids q"

definition is_done :: "work_queue \<Rightarrow> (uuid \<rightharpoonup> node_state) \<Rightarrow> bool" where
  "is_done q node_states = list_all (\<lambda>n. en_id n \<in> wq_completed q \<or> en_id n \<in> wq_failed q \<or>
     is_terminal (node_states (en_id n))) (eg_nodes (wq_graph q))"

definition any_in_progress :: "work_queue \<Rightarrow> bool" where
  "any_in_progress q \<longleftrightarrow> wq_in_progress q \<noteq> {}"

definition loop_back_target :: "work_queue \<Rightarrow> uuid \<Rightarrow> uuid option" where
  "loop_back_target q i = map_option fst (find (\<lambda>(to, _). (i, to) \<in> wq_back_edges q) (wq_outgoing q i))"

definition has_loop_back_edge :: "work_queue \<Rightarrow> uuid \<Rightarrow> bool" where
  "has_loop_back_edge q i = list_ex (\<lambda>(to, _). (i, to) \<in> wq_back_edges q) (wq_outgoing q i)"

definition reset_ready :: "work_queue \<Rightarrow> uuid \<Rightarrow> work_queue" where
  "reset_ready q i = q\<lparr>wq_completed := wq_completed q - {i}, wq_in_progress := wq_in_progress q - {i},
     wq_failed := wq_failed q - {i}, wq_ready := insert i (wq_ready q)\<rparr>"

section \<open>Iteration back edges\<close>

lemma body_walk_grows: "seen \<subseteq> body_walk es stack seen"
proof (induction es stack seen rule: body_walk.induct)
  case (2 es current stack seen)
  obtain stack' seen' where p: "push_unseen (succs es current) stack seen = (stack', seen')" by fastforce
  then have "seen \<subseteq> seen'"
    using push_unseen_result [of "succs es current" stack seen] by auto
  then show ?case
    using 2 [OF p [symmetric]] by (simp add: p)
qed simp

lemma body_walk_sound: "body_walk es stack seen \<subseteq> seen \<union> (set es)\<^sup>+ `` set stack"
proof (induction es stack seen rule: body_walk.induct)
  case (2 es current stack seen)
  obtain stack' seen' where p: "push_unseen (succs es current) stack seen = (stack', seen')" by fastforce
  then have eqs: "set stack' = set stack \<union> (set (succs es current) - seen)"
      "seen' = seen \<union> set (succs es current)"
    using push_unseen_result [of "succs es current" stack seen] by auto
  have "body_walk es stack' seen' \<subseteq> seen' \<union> (set es)\<^sup>+ `` set stack'"
    using 2 [OF p [symmetric]] .
  moreover have "(current, x) \<in> (set es)\<^sup>+" if "(current, y) \<in> set es" "(y, x) \<in> (set es)\<^sup>+" for x y
    using that by (rule trancl_into_trancl2)
  ultimately show ?case
    by (simp add: p eqs) (blast intro: r_into_trancl)
qed simp

lemma body_walk_closed:
  assumes "\<forall>x\<in>seen. x \<in> set stack \<or> set es `` {x} \<subseteq> seen"
  shows "set es `` (body_walk es stack seen \<union> set stack) \<subseteq> body_walk es stack seen"
  using assms
proof (induction es stack seen rule: body_walk.induct)
  case (2 es current stack seen)
  obtain stack' seen' where p: "push_unseen (succs es current) stack seen = (stack', seen')" by fastforce
  then have eqs: "set stack' = set stack \<union> (set (succs es current) - seen)"
      "seen' = seen \<union> set (succs es current)"
    using push_unseen_result [of "succs es current" stack seen] by auto
  have "\<forall>x\<in>seen'. x \<in> set stack' \<or> set es `` {x} \<subseteq> seen'"
    using 2(2) by (auto simp: eqs)
  from 2(1) [OF p [symmetric] this]
  have "set es `` (body_walk es stack' seen' \<union> set stack') \<subseteq> body_walk es stack' seen'" .
  moreover have "set es `` {current} \<subseteq> body_walk es stack' seen'"
    using body_walk_grows [of seen' es stack'] by (auto simp: eqs)
  ultimately show ?case
    by (auto simp: p eqs)
qed auto

lemma body_walk_correct: "body_walk es [l] {} = (set es)\<^sup>+ `` {l}"
proof
  show "(set es)\<^sup>+ `` {l} \<subseteq> body_walk es [l] {}"
  proof clarify
    fix x
    assume "(l, x) \<in> (set es)\<^sup>+"
    then show "x \<in> body_walk es [l] {}"
      by (induction rule: trancl_induct)
        (use body_walk_closed [of "{}" "[l]" es] in \<open>auto simp del: body_walk.simps\<close>)
  qed
qed (use body_walk_sound [of es "[l]" "{}"] in simp)

definition is_back_edge :: "execution_graph \<Rightarrow> uuid \<Rightarrow> uuid \<Rightarrow> bool" where
  "is_back_edge g f t \<longleftrightarrow> (\<exists>n\<in>set (eg_nodes g). en_id n = t \<and> en_kind n = XLoop) \<and>
     ((f, t) \<in> set (eg_pairs g) \<and> (t, f) \<in> (set (eg_pairs g))\<^sup>* \<or>
      (\<exists>e\<in>set (eg_edges g). ee_from e = f \<and> ee_to e = t \<and> ee_condition e = Some ''loop''))"

lemma set_loop_node_ids: "set (loop_node_ids g) = {en_id n | n. n \<in> set (eg_nodes g) \<and> en_kind n = XLoop}"
  by (auto simp: loop_node_ids_def)

lemma loop_back_edges_iff: "(f, t) \<in> loop_back_edges g \<longleftrightarrow> is_back_edge g f t"
proof -
  have "(f, t) \<in> loop_back_edges g \<longleftrightarrow>
      t \<in> set (loop_node_ids g) \<and> (f, t) \<in> set (eg_pairs g) \<and> (f = t \<or> (t, f) \<in> (set (eg_pairs g))\<^sup>+) \<or>
      t \<in> set (loop_node_ids g) \<and> (\<exists>e\<in>set (eg_edges g). ee_from e = f \<and> ee_to e = t \<and> ee_condition e = Some ''loop'')"
    unfolding loop_back_edges_def by (auto simp: Let_def body_walk_correct simp del: body_walk.simps)
  then show ?thesis
    unfolding is_back_edge_def set_loop_node_ids rtrancl_eq_or_trancl by blast
qed

lemma gating_count_0: "gating_count g i = 0 \<longleftrightarrow> (\<forall>f. (f, i) \<in> set (eg_pairs g) \<longrightarrow> is_back_edge g f i)"
  by (auto simp: gating_count_def filter_empty_conv loop_back_edges_iff)

text \<open>What is ready at the start: a node of a fresh queue is ready if and only if every edge into it is an
  iteration back edge, that is an edge into a loop node that comes from the loop's own body or is
  marked as a loop edge.\<close>

theorem initial_ready_exact:
  "i \<in> wq_ready (work_queue_new g) \<longleftrightarrow>
    i \<in> set (eg_ids g) \<and> {f. (f, i) \<in> set (eg_pairs g)} \<subseteq> {f. is_back_edge g f i}"
  by (auto simp: work_queue_new_def gating_count_0)

section \<open>Plain graphs\<close>

text \<open>A plain graph is what lowering gives for a program without loops and conditionals: unique ids,
  simple acyclic edges between its nodes.\<close>

definition plain_graph :: "execution_graph \<Rightarrow> bool" where
  "plain_graph g \<longleftrightarrow> distinct (eg_ids g) \<and> distinct (eg_pairs g) \<and>
     Field (set (eg_pairs g)) \<subseteq> set (eg_ids g) \<and> acyclic (set (eg_pairs g)) \<and>
     (\<forall>n\<in>set (eg_nodes g). en_kind n \<noteq> XLoop \<and> en_kind n \<noteq> XConditional)"

definition preds :: "execution_graph \<Rightarrow> uuid \<Rightarrow> uuid set" where
  "preds g t = {f. (f, t) \<in> set (eg_pairs g)}"

lemma finite_preds [simp]: "finite (preds g t)"
proof -
  have "preds g t \<subseteq> fst ` set (eg_pairs g)" by (force simp: preds_def)
  then show ?thesis by (rule finite_subset) simp
qed

lemma plain_back_edges: "plain_graph g \<Longrightarrow> loop_back_edges g = {}"
  using loop_back_edges_iff [of _ _ g] by (force simp: is_back_edge_def plain_graph_def)

lemma plain_gating: "plain_graph g \<Longrightarrow> gating_count g t = card (preds g t)"
proof -
  assume g: "plain_graph g"
  have "gating_count g t = length (filter (\<lambda>p. snd p = t) (eg_pairs g))"
    by (simp add: gating_count_def plain_back_edges [OF g] case_prod_beta')
  also have "\<dots> = card (set (filter (\<lambda>p. snd p = t) (eg_pairs g)))"
    using g by (intro distinct_card [symmetric]) (simp add: plain_graph_def)
  also have "\<dots> = card (fst ` set (filter (\<lambda>p. snd p = t) (eg_pairs g)))"
    by (rule card_image [symmetric]) (auto simp: inj_on_def)
  also have "fst ` set (filter (\<lambda>p. snd p = t) (eg_pairs g)) = preds g t"
    by (force simp: preds_def)
  finally show ?thesis .
qed

lemma plain_selective: "plain_graph g \<Longrightarrow> wq_selective_sources (work_queue_new g) = {}"
  by (auto simp: plain_graph_def work_queue_new_def)

lemma plain_targets:
  "map fst (wq_outgoing (work_queue_new g) i) = succs (eg_pairs g) i"
  by (simp add: work_queue_new_def succs_def eg_pairs_def filter_map o_def)

lemma plain_targets_distinct: "plain_graph g \<Longrightarrow> distinct (succs (eg_pairs g) i)"
  by (auto simp: plain_graph_def succs_def distinct_map inj_on_def)

section \<open>The queue of a plain graph\<close>

definition wq_static :: "execution_graph \<Rightarrow> work_queue \<Rightarrow> bool" where
  "wq_static g q \<longleftrightarrow> wq_graph q = g \<and> wq_outgoing q = wq_outgoing (work_queue_new g) \<and>
     wq_outgoing_edges q = wq_outgoing_edges (work_queue_new g) \<and>
     wq_total_incoming q = gating_count g \<and> wq_selective_sources q = {} \<and> wq_back_edges q = {} \<and>
     1 \<le> max_concurrent_nodes q"

definition wq_inv :: "execution_graph \<Rightarrow> work_queue \<Rightarrow> bool" where
  "wq_inv g q \<longleftrightarrow> wq_static g q \<and>
     wq_activated_edges q = {(f, t). (f, t) \<in> set (eg_pairs g) \<and> f \<in> wq_completed q} \<and>
     (\<forall>t. wq_satisfied_incoming q t = card (preds g t \<inter> wq_completed q)) \<and>
     wq_ready q \<union> wq_in_progress q \<union> wq_completed q \<subseteq> {t \<in> set (eg_ids g). preds g t \<subseteq> wq_completed q} \<and>
     {t \<in> set (eg_ids g). preds g t \<subseteq> wq_completed q}
       \<subseteq> wq_ready q \<union> wq_in_progress q \<union> wq_completed q \<union> wq_failed q \<and>
     wq_ready q \<inter> wq_in_progress q = {} \<and> (wq_ready q \<union> wq_in_progress q) \<inter> (wq_completed q \<union> wq_failed q) = {} \<and>
     wq_completed q \<inter> wq_failed q = {} \<and> wq_failed q \<subseteq> set (eg_ids g)"

lemma wq_inv_new:
  assumes "plain_graph g"
  shows "wq_inv g (with_max_concurrent_nodes (work_queue_new g) n)"
proof -
  have "wq_static g (with_max_concurrent_nodes (work_queue_new g) n)"
    using plain_selective [OF assms] plain_back_edges [OF assms]
    by (simp add: wq_static_def with_max_concurrent_nodes_def work_queue_new_def)
  then show ?thesis
    using plain_gating [OF assms]
    by (auto simp: wq_inv_def with_max_concurrent_nodes_def work_queue_new_def)
qed

lemma activate_all:
  assumes "distinct ts" and "\<forall>t\<in>set ts. (i, t) \<notin> wq_activated_edges q"
  shows "fold (\<lambda>to q. if (i, to) \<in> wq_activated_edges q then q else satisfy q i to) ts q =
    q\<lparr>wq_activated_edges := wq_activated_edges q \<union> Pair i ` set ts,
      wq_satisfied_incoming := (\<lambda>t. wq_satisfied_incoming q t + (if t \<in> set ts then 1 else 0)),
      wq_ready := wq_ready q \<union> {t \<in> set ts. wq_satisfied_incoming q t + 1 = wq_total_incoming q t
        \<and> t \<notin> wq_completed q \<and> t \<notin> wq_failed q}\<rparr>"
  using assms
proof (induction ts arbitrary: q)
  case (Cons x xs)
  let ?q = "satisfy q i x"
  have fixed: "wq_activated_edges ?q = insert (i, x) (wq_activated_edges q)"
    "wq_satisfied_incoming ?q = (wq_satisfied_incoming q)(x := wq_satisfied_incoming q x + 1)"
    "wq_total_incoming ?q = wq_total_incoming q" "wq_completed ?q = wq_completed q" "wq_failed ?q = wq_failed q"
    "wq_ready ?q = wq_ready q \<union> (if wq_satisfied_incoming q x + 1 = wq_total_incoming q x
       \<and> x \<notin> wq_completed q \<and> x \<notin> wq_failed q then {x} else {})"
    by (auto simp: satisfy_def Let_def)
  have shape: "?q\<lparr>wq_activated_edges := A, wq_satisfied_incoming := S, wq_ready := R\<rparr> =
      q\<lparr>wq_activated_edges := A, wq_satisfied_incoming := S, wq_ready := R\<rparr>" for A S R
    by (simp add: satisfy_def Let_def)
  have "fold (\<lambda>to q. if (i, to) \<in> wq_activated_edges q then q else satisfy q i to) (x # xs) q =
      fold (\<lambda>to q. if (i, to) \<in> wq_activated_edges q then q else satisfy q i to) xs ?q"
    using Cons.prems by simp
  also have "\<dots> = ?q\<lparr>wq_activated_edges := wq_activated_edges ?q \<union> Pair i ` set xs,
      wq_satisfied_incoming := (\<lambda>t. wq_satisfied_incoming ?q t + (if t \<in> set xs then 1 else 0)),
      wq_ready := wq_ready ?q \<union> {t \<in> set xs. wq_satisfied_incoming ?q t + 1 = wq_total_incoming ?q t
        \<and> t \<notin> wq_completed ?q \<and> t \<notin> wq_failed ?q}\<rparr>"
    by (rule Cons.IH) (use Cons.prems in \<open>auto simp: fixed\<close>)
  also have "wq_activated_edges ?q \<union> Pair i ` set xs = wq_activated_edges q \<union> Pair i ` set (x # xs)"
    by (simp add: fixed)
  also have "(\<lambda>t. wq_satisfied_incoming ?q t + (if t \<in> set xs then 1 else 0)) =
      (\<lambda>t. wq_satisfied_incoming q t + (if t \<in> set (x # xs) then 1 else 0))"
    using Cons.prems by (auto simp: fixed)
  also have "wq_ready ?q \<union> {t \<in> set xs. wq_satisfied_incoming ?q t + 1 = wq_total_incoming ?q t
        \<and> t \<notin> wq_completed ?q \<and> t \<notin> wq_failed ?q} =
      wq_ready q \<union> {t \<in> set (x # xs). wq_satisfied_incoming q t + 1 = wq_total_incoming q t
        \<and> t \<notin> wq_completed q \<and> t \<notin> wq_failed q}"
    using Cons.prems by (auto simp: fixed)
  finally show ?case
    by (simp only: shape)
qed simp

lemma wq_inv_static: "wq_inv g q \<Longrightarrow> wq_static g q"
  by (simp add: wq_inv_def)

lemma wq_inv_mark_in_progress:
  "wq_inv g q \<Longrightarrow> i \<in> wq_ready q \<Longrightarrow> wq_inv g (mark_in_progress q i)"
  by (auto simp: wq_inv_def wq_static_def mark_in_progress_def)

lemma wq_inv_mark_failed:
  "wq_inv g q \<Longrightarrow> i \<in> set (eg_ids g) - wq_completed q \<Longrightarrow> wq_inv g (mark_failed q i)"
  by (auto simp: wq_inv_def wq_static_def mark_failed_def)

lemma wq_inv_started:
  "wq_inv g q \<Longrightarrow> t \<in> wq_ready q \<union> wq_in_progress q \<union> wq_completed q \<Longrightarrow>
    t \<in> set (eg_ids g) \<and> preds g t \<subseteq> wq_completed q"
  unfolding wq_inv_def by blast

lemma wq_inv_enabled:
  "wq_inv g q \<Longrightarrow> t \<in> set (eg_ids g) \<Longrightarrow> preds g t \<subseteq> wq_completed q \<Longrightarrow>
    t \<in> wq_ready q \<union> wq_in_progress q \<union> wq_completed q \<union> wq_failed q"
  unfolding wq_inv_def by blast

lemma wq_inv_apart:
  "wq_inv g q \<Longrightarrow> t \<in> wq_ready q \<union> wq_in_progress q \<Longrightarrow> t \<notin> wq_completed q \<and> t \<notin> wq_failed q"
  unfolding wq_inv_def by blast

lemma mark_completed_eq:
  assumes g: "plain_graph g" and q: "wq_inv g q" and i: "i \<in> wq_in_progress q"
  shows "mark_completed q i = q\<lparr>wq_completed := insert i (wq_completed q),
    wq_in_progress := wq_in_progress q - {i}, 
    wq_ready := (wq_ready q - {i}) \<union> {t. (i, t) \<in> set (eg_pairs g) \<and> preds g t \<subseteq> insert i (wq_completed q)
        \<and> t \<notin> insert i (wq_completed q) \<and> t \<notin> wq_failed q},
    wq_satisfied_incoming := (\<lambda>t. card (preds g t \<inter> insert i (wq_completed q))),
    wq_activated_edges := {(f, t). (f, t) \<in> set (eg_pairs g) \<and> f \<in> insert i (wq_completed q)}\<rparr>"
proof -
  have new: "i \<notin> wq_completed q" and sel: "wq_selective_sources q = {}"
    and out: "map fst (wq_outgoing q i) = succs (eg_pairs g) i"
    and tot: "\<And>t. wq_total_incoming q t = card (preds g t)"
    and act: "wq_activated_edges q = {(f, t). (f, t) \<in> set (eg_pairs g) \<and> f \<in> wq_completed q}"
    and sat: "\<And>t. wq_satisfied_incoming q t = card (preds g t \<inter> wq_completed q)"
    using q i plain_targets [of g i] plain_gating [OF g] by (auto simp: wq_inv_def wq_static_def)
  have card_ins: "card (preds g t \<inter> insert i (wq_completed q)) =
      card (preds g t \<inter> wq_completed q) + (if (i, t) \<in> set (eg_pairs g) then 1 else 0)" for t
    using new by (simp add: preds_def Int_insert_right)
  have full: "card (preds g t \<inter> wq_completed q) + 1 = card (preds g t) \<longleftrightarrow> preds g t \<subseteq> insert i (wq_completed q)"
    if "(i, t) \<in> set (eg_pairs g)" for t
  proof -
    have "card (preds g t \<inter> wq_completed q) + 1 = card (preds g t \<inter> insert i (wq_completed q))"
      using that by (simp add: card_ins)
    also have "\<dots> = card (preds g t) \<longleftrightarrow> preds g t \<inter> insert i (wq_completed q) = preds g t"
      by (metis card_subset_eq finite_preds inf_le1)
    finally show ?thesis by auto
  qed
  have acts: "{(f, t). (f, t) \<in> set (eg_pairs g) \<and> f \<in> wq_completed q} \<union> Pair i ` {y. (i, y) \<in> set (eg_pairs g)} =
      {(f, t). (f, t) \<in> set (eg_pairs g) \<and> (f = i \<or> f \<in> wq_completed q)}"
    by auto
  have readies: "{t. (i, t) \<in> set (eg_pairs g) \<and> Suc (card (preds g t \<inter> wq_completed q)) = card (preds g t) \<and> P t} =
      {t. (i, t) \<in> set (eg_pairs g) \<and> preds g t \<subseteq> insert i (wq_completed q) \<and> P t}" for P
    using full by auto
  show ?thesis
    unfolding mark_completed_def try_activate_downstream_def
    using new by (simp add: sel out activate_all plain_targets_distinct [OF g] act tot sat card_ins acts readies)
qed

lemma wq_inv_mark_completed:
  assumes g: "plain_graph g" and q: "wq_inv g q" and i: "i \<in> wq_in_progress q"
  shows "wq_inv g (mark_completed q i)"
proof -
  have ids: "t \<in> set (eg_ids g)" if "(i, t) \<in> set (eg_pairs g)" for t
    using g that by (auto simp: plain_graph_def Field_def)
  have irrefl: "(i, i) \<notin> set (eg_pairs g)"
    using g by (auto simp: plain_graph_def acyclic_def)
  have early: "t \<in> wq_ready q \<union> wq_in_progress q \<union> wq_completed q \<Longrightarrow> (i, t) \<notin> set (eg_pairs g)" for t
    using wq_inv_started [OF q, of t] wq_inv_apart [OF q, of i] i by (auto simp: preds_def)
  have late: "preds g t \<subseteq> wq_completed q" if "preds g t \<subseteq> insert i (wq_completed q)" "(i, t) \<notin> set (eg_pairs g)" for t
    using that by (auto simp: preds_def)
  have new: "i \<notin> wq_completed q \<and> i \<notin> wq_failed q \<and> i \<notin> wq_ready q"
    using q i unfolding wq_inv_def by blast
  note started = wq_inv_started [OF q]
  note apart = wq_inv_apart [OF q]
  have sets: "wq_ready q \<inter> wq_in_progress q = {}" "wq_completed q \<inter> wq_failed q = {}"
    "wq_failed q \<subseteq> set (eg_ids g)"
    using q by (simp_all add: wq_inv_def)
  have enabled: "t \<in> wq_ready q \<or> t \<in> wq_in_progress q \<or> t \<in> wq_completed q \<or> t \<in> wq_failed q \<or>
      (i, t) \<in> set (eg_pairs g)" if "t \<in> set (eg_ids g)" "preds g t \<subseteq> insert i (wq_completed q)" for t
    using that wq_inv_enabled [OF q that(1)] late [OF that(2)] by blast
  show ?thesis
    unfolding mark_completed_eq [OF assms] wq_inv_def
  proof (intro conjI, goal_cases)
    case 1
    then show ?case
      using wq_inv_static [OF q] by (simp add: wq_static_def)
  next
    case 4
    then show ?case
      using started ids i by fastforce
  next
    case 5
    then show ?case
      using enabled by auto
  next
    case 6
    then show ?case
      using sets(1) early by auto
  next
    case 7
    then show ?case
      using apart by auto
  next
    case 8
    then show ?case
      using sets(2) new by auto
  qed (use sets(3) in simp_all)
qed

end
