(* ===== verification/Loops.thy ===== *)
theory Loops
  imports Fusion_Prelude
begin

text \<open>
  Loops whose number of rounds is not bounded by the data they walk over. \<open>run_loop\<close> runs a body at
  most \<open>fuel\<close> times; the body either leaves the loop with a result or goes round with a new state.
  The locale \<open>measured_loop\<close> is the contract under which enough fuel always gives a result.
\<close>

fun run_loop :: "nat \<Rightarrow> ('s \<Rightarrow> 'r + 's) \<Rightarrow> 's \<Rightarrow> 'r option" where
  "run_loop 0 body s = None"
| "run_loop (Suc fuel) body s = (case body s of Inl r \<Rightarrow> Some r | Inr s' \<Rightarrow> run_loop fuel body s')"

lemma run_loop_more:
  "run_loop fuel body s = Some r \<Longrightarrow> fuel \<le> fuel' \<Longrightarrow> run_loop fuel' body s = Some r"
proof (induction fuel arbitrary: s fuel')
  case (Suc fuel)
  then obtain f where "fuel' = Suc f" by (cases fuel') auto
  with Suc show ?case by (auto split: sum.splits)
qed simp

lemma run_loop_diverges:
  assumes "I s" and "\<And>s. I s \<Longrightarrow> \<exists>s'. body s = Inr s' \<and> I s'"
  shows "run_loop fuel body s = None"
  using assms(1)
proof (induction fuel arbitrary: s)
  case (Suc fuel)
  then show ?case using assms(2) [of s] by auto
qed simp

lemma run_loop_post:
  assumes "run_loop fuel body s = Some r" and "I s"
    and "\<And>s s'. I s \<Longrightarrow> body s = Inr s' \<Longrightarrow> I s'" and "\<And>s r. I s \<Longrightarrow> body s = Inl r \<Longrightarrow> Q r"
  shows "Q r"
  using assms(1,2)
proof (induction fuel arbitrary: s)
  case (Suc fuel)
  then show ?case using assms(3,4) [of s] by (cases "body s") auto
qed simp

locale measured_loop =
  fixes body :: "'s \<Rightarrow> 'r + 's"
    and inv :: "'s \<Rightarrow> bool"
    and remaining :: "'s \<Rightarrow> nat"
    and post :: "'r \<Rightarrow> bool"
  assumes round: "inv s \<Longrightarrow> body s = Inr s' \<Longrightarrow> inv s' \<and> remaining s' < remaining s"
    and leave: "inv s \<Longrightarrow> body s = Inl r \<Longrightarrow> post r"
begin

lemma returns: "inv s \<Longrightarrow> remaining s < fuel \<Longrightarrow> \<exists>r. run_loop fuel body s = Some r \<and> post r"
proof (induction fuel arbitrary: s)
  case (Suc fuel)
  show ?case
  proof (cases "body s")
    case (Inl r)
    then show ?thesis using leave [OF Suc.prems(1)] by simp
  next
    case (Inr s')
    then have "inv s'" "remaining s' < fuel"
      using round [OF Suc.prems(1) Inr] Suc.prems(2) by auto
    from Suc.IH [OF this] Inr show ?thesis by simp
  qed
qed simp

end

end
