(* ===== verification/Scheduler.thy ===== *)
theory Scheduler
  imports Work_Queue Budget Loops
begin

text \<open>
  \<open>crates/fusion-scheduler/src/lib.rs\<close>: the wave scheduler. One round of the scheduling loop is
  \<open>sched_body\<close>; a wave dispatches the ready nodes, joins all of them and processes their results in
  batch order. The executor and the cancellation token are parameters that may answer differently in
  every wave. Latencies are left out. \<open>rs_log\<close> records, for the statements below, which node ran
  with which context and what it returned.
\<close>

section \<open>Prices and run state\<close>

record token_pricing =
  input_nanos_per_token :: u64
  output_nanos_per_token :: u64

definition flat_fallback :: token_pricing where
  "flat_fallback = \<lparr>input_nanos_per_token = 2000, output_nanos_per_token = 10000\<rparr>"

record scheduler =
  max_concurrent :: nat
  pricing :: "(string \<Rightarrow> token_pricing) option"

definition scheduler_new :: scheduler where
  "scheduler_new = \<lparr>max_concurrent = 16, pricing = None\<rparr>"

definition with_max_concurrent :: "nat \<Rightarrow> scheduler" where
  "with_max_concurrent n = \<lparr>max_concurrent = n, pricing = None\<rparr>"

definition with_pricing :: "scheduler \<Rightarrow> (string \<Rightarrow> token_pricing) \<Rightarrow> scheduler" where
  "with_pricing sch resolver = sch\<lparr>pricing := Some resolver\<rparr>"

definition price_for :: "scheduler \<Rightarrow> string \<Rightarrow> token_pricing" where
  "price_for sch model = (case pricing sch of Some resolve \<Rightarrow> resolve model | None \<Rightarrow> flat_fallback)"

datatype scheduler_failure = RequestCancelled | NodeNotFound uuid

record execution_outcome =
  eo_success :: bool
  eo_outputs :: "uuid \<rightharpoonup> json"
  eo_node_states :: "uuid \<rightharpoonup> node_state"
  eo_total_cost :: nano_usd
  eo_total_tokens :: u64

type_synonym executor = "nat \<Rightarrow> execution_node \<Rightarrow> node_exec_context \<Rightarrow> node_execution_result"

record cancel_token =
  cancelled_at_head :: "nat \<Rightarrow> bool"
  cancelled_during :: "nat \<Rightarrow> uuid \<Rightarrow> bool"

record run_state =
  rs_queue :: work_queue
  rs_states :: "uuid \<rightharpoonup> node_state"
  rs_outputs :: "uuid \<rightharpoonup> json"
  rs_cost :: nano_usd
  rs_tokens :: u64
  rs_iterations :: "uuid \<Rightarrow> u32"
  rs_envelope :: "budget_envelope option"
  rs_wave :: nat
  rs_log :: "(uuid \<times> node_exec_context \<times> node_execution_result) list"

datatype run_stop = StopReturn "scheduler_failure + execution_outcome" | StopBreak run_state

definition node_at :: "execution_graph \<Rightarrow> uuid \<Rightarrow> execution_node option" where
  "node_at g i = find (\<lambda>n. en_id n = i) (rev (eg_nodes g))"

section \<open>Accounting\<close>

definition node_cost :: "scheduler \<Rightarrow> string \<Rightarrow> usage \<Rightarrow> nano_usd" where
  "node_cost sch model u =
    (let price = price_for sch model in
     nano_saturating_add
       (from_nanos (saturating_mul (ucast (prompt_tokens u)) (input_nanos_per_token price)))
       (from_nanos (saturating_mul (ucast (completion_tokens u)) (output_nanos_per_token price))))"

definition settle_node :: "uuid \<Rightarrow> node_execution_result \<Rightarrow> run_state \<Rightarrow> run_state" where
  "settle_node node_id result rs =
    (if nr_state result = Succeeded
     then rs\<lparr>rs_states := (rs_states rs)(node_id \<mapsto> Succeeded),
            rs_outputs := (rs_outputs rs)(node_id \<mapsto> (case nr_output result of Some v \<Rightarrow> v | None \<Rightarrow> JNull))\<rparr>
     else rs\<lparr>rs_states := (rs_states rs)(node_id \<mapsto> nr_state result)\<rparr>)"

definition fail_siblings :: "string \<Rightarrow> uuid list \<Rightarrow> (uuid \<rightharpoonup> node_state) \<Rightarrow> (uuid \<rightharpoonup> node_state)" where
  "fail_siblings msg batch_ids states =
    fold (\<lambda>i st. if is_terminal (st i) then st else st(i \<mapsto> Failed msg)) batch_ids states"

definition skip_outstanding :: "execution_node list \<Rightarrow> (uuid \<rightharpoonup> node_state) \<Rightarrow> (uuid \<rightharpoonup> node_state)" where
  "skip_outstanding nodes states =
    fold (\<lambda>n st. if st (en_id n) \<in> {None, Some Pending, Some Running} then st(en_id n \<mapsto> Skipped) else st)
      nodes states"

definition breach_outcome ::
  "execution_graph \<Rightarrow> uuid list \<Rightarrow> budget_exceeded_error \<Rightarrow> run_state \<Rightarrow> execution_outcome" where
  "breach_outcome g batch_ids e rs =
    \<lparr>eo_success = False, eo_outputs = rs_outputs rs,
     eo_node_states = skip_outstanding (eg_nodes g)
       (fail_siblings (''Budget breached: '' @ budget_error_text e) batch_ids (rs_states rs)),
     eo_total_cost = rs_cost rs, eo_total_tokens = rs_tokens rs\<rparr>"

definition account ::
  "scheduler \<Rightarrow> execution_graph \<Rightarrow> uuid list \<Rightarrow> uuid \<Rightarrow> node_execution_result \<Rightarrow> run_state \<Rightarrow> run_stop + run_state" where
  "account sch g batch_ids node_id result rs =
    (case nr_usage result of
       None \<Rightarrow> Inr rs
     | Some u \<Rightarrow>
         (let model = (case node_at g node_id of Some n \<Rightarrow> en_model n | None \<Rightarrow> []);
              cost = node_cost sch model u;
              tokens = ucast (usage_total_tokens u);
              rs1 = rs\<lparr>rs_tokens := rs_tokens rs + tokens, rs_cost := nano_saturating_add (rs_cost rs) cost\<rparr>
          in case rs_envelope rs1 of
               None \<Rightarrow> Inr rs1
             | Some envelope \<Rightarrow>
                 (case record_and_check envelope cost tokens of
                    (Inr _, envelope') \<Rightarrow> Inr (rs1\<lparr>rs_envelope := Some envelope'\<rparr>)
                  | (Inl e, envelope') \<Rightarrow>
                      Inl (StopReturn (Inr (breach_outcome g batch_ids e
                        (settle_node node_id result (rs1\<lparr>rs_envelope := Some envelope'\<rparr>))))))))"

section \<open>What each result does to the queue\<close>

definition conditional_done :: "uuid \<Rightarrow> run_state \<Rightarrow> run_state" where
  "conditional_done node_id rs =
    (let q = mark_conditional_completed (rs_queue rs) node_id;
         result_val = (case Option.bind (rs_outputs rs node_id) as_str of Some s \<Rightarrow> s | None \<Rightarrow> ''true'');
         matched_targets = map ee_to (filter (\<lambda>e. case ee_condition e of
           Some cond \<Rightarrow> cond = result_val | None \<Rightarrow> True) (wq_outgoing_edges q node_id))
     in rs\<lparr>rs_queue := fold (\<lambda>to q. activate_edge q node_id to) matched_targets q\<rparr>)"

definition body_targets :: "work_queue \<Rightarrow> uuid \<Rightarrow> uuid list" where
  "body_targets q i = map ee_to (filter (\<lambda>e. ee_condition e \<noteq> Some ''exit'') (wq_outgoing_edges q i))"

definition exit_targets :: "work_queue \<Rightarrow> uuid \<Rightarrow> uuid list" where
  "exit_targets q i = map ee_to (filter (\<lambda>e. ee_condition e = Some ''exit'') (wq_outgoing_edges q i))"

definition set_pending :: "uuid list \<Rightarrow> (uuid \<rightharpoonup> node_state) \<Rightarrow> (uuid \<rightharpoonup> node_state)" where
  "set_pending body_ids states = fold (\<lambda>i st. st(i \<mapsto> Pending)) body_ids states"

definition loop_continue :: "uuid \<Rightarrow> run_state \<Rightarrow> run_state" where
  "loop_continue node_id rs =
    (let q = rs_queue rs; body_ids = body_targets q node_id;
         q1 = reset_loop_body q body_ids
     in rs\<lparr>rs_states := set_pending body_ids (rs_states rs),
          rs_queue := fold (\<lambda>to q. activate_edge q node_id to) body_ids q1\<rparr>)"

definition loop_done :: "uuid \<Rightarrow> run_state \<Rightarrow> run_stop + run_state" where
  "loop_done node_id rs =
    (let rs1 = rs\<lparr>rs_queue := mark_completed (rs_queue rs) node_id\<rparr>;
         should_continue = (case Option.bind (rs_outputs rs1 node_id) as_bool of Some b \<Rightarrow> b | None \<Rightarrow> False)
     in if should_continue
        then (case rs_envelope rs1 of
                None \<Rightarrow> Inr (loop_continue node_id rs1)
              | Some envelope \<Rightarrow>
                  (case increment_iteration envelope of
                     (Inl _, envelope') \<Rightarrow> Inl (StopBreak (rs1\<lparr>rs_envelope := Some envelope'\<rparr>))
                   | (Inr _, envelope') \<Rightarrow> Inr (loop_continue node_id (rs1\<lparr>rs_envelope := Some envelope'\<rparr>))))
        else Inr (rs1\<lparr>rs_queue := fold (\<lambda>to q. activate_edge q node_id to)
               (exit_targets (rs_queue rs1) node_id) (rs_queue rs1)\<rparr>))"

definition max_iters :: "execution_node \<Rightarrow> u32" where
  "max_iters n = (case Option.bind (map_of (en_config n) ''max_iterations'') as_u64 of
     Some v \<Rightarrow> ucast v | None \<Rightarrow> 10)"

definition plain_done :: "execution_graph \<Rightarrow> uuid \<Rightarrow> run_state \<Rightarrow> run_stop + run_state" where
  "plain_done g node_id rs =
    (let q = mark_completed (rs_queue rs) node_id; rs1 = rs\<lparr>rs_queue := q\<rparr>
     in if \<not> has_loop_back_edge q node_id then Inr rs1
        else case loop_back_target q node_id of
          None \<Rightarrow> Inr rs1
        | Some loop_node_id \<Rightarrow>
            (case node_at g loop_node_id of
               None \<Rightarrow> Inl (StopReturn (Inl (NodeNotFound loop_node_id)))
             | Some loop_node \<Rightarrow>
                 if rs_iterations rs1 loop_node_id < max_iters loop_node
                 then (let body_ids = body_targets q loop_node_id;
                           q1 = reset_ready (reset_loop_body q body_ids) loop_node_id
                       in Inr (rs1\<lparr>
                            rs_iterations := (rs_iterations rs1)(loop_node_id := rs_iterations rs1 loop_node_id + 1),
                            rs_states := (set_pending body_ids (rs_states rs1))(loop_node_id \<mapsto> Pending),
                            rs_queue := activate_edge q1 node_id loop_node_id\<rparr>))
                 else Inr rs1))"

lemma visit_smaller: "d \<notin> visited \<Longrightarrow> card (- insert d visited) < card (- visited)" for visited :: "uuid set"
  by (rule psubset_card_mono) auto

function cascade ::
  "uuid list \<Rightarrow> uuid set \<Rightarrow> work_queue \<Rightarrow> (uuid \<rightharpoonup> node_state) \<Rightarrow> work_queue \<times> (uuid \<rightharpoonup> node_state)" where
  "cascade [] visited q states = (q, states)"
| "cascade (downstream # stack) visited q states =
    (if downstream \<in> visited then cascade stack visited q states
     else if states downstream \<in> {None, Some Pending}
     then cascade (rev (map ee_to (wq_outgoing_edges q downstream)) @ stack) (insert downstream visited)
       (mark_failed q downstream) (states(downstream \<mapsto> Failed ''dependency failed''))
     else cascade stack (insert downstream visited) q states)"
  by pat_completeness auto

termination
  by (relation "measures [\<lambda>(stack, visited, q, st). card (- visited), \<lambda>(stack, visited, q, st). length stack]")
    (auto simp: visit_smaller [simplified])

definition node_failed :: "uuid \<Rightarrow> string \<Rightarrow> run_state \<Rightarrow> run_state" where
  "node_failed node_id msg rs =
    (let q = mark_failed (rs_queue rs) node_id;
         states = (rs_states rs)(node_id \<mapsto> Failed msg);
         (q', states') = cascade (rev (map ee_to (wq_outgoing_edges q node_id))) {} q states
     in rs\<lparr>rs_queue := q', rs_states := states'\<rparr>)"

definition process_result ::
  "scheduler \<Rightarrow> execution_graph \<Rightarrow> uuid list \<Rightarrow> uuid \<times> node_exec_context \<times> node_execution_result \<Rightarrow>
    run_state \<Rightarrow> run_stop + run_state" where
  "process_result sch g batch_ids entry rs0 =
    (case entry of (node_id, ctx, result) \<Rightarrow>
     and_then (account sch g batch_ids node_id result (rs0\<lparr>rs_log := rs_log rs0 @ [entry]\<rparr>)) (\<lambda>rs.
       case nr_state result of
         Succeeded \<Rightarrow>
           (let rs1 = settle_node node_id result rs
            in case node_at g node_id of
                 None \<Rightarrow> Inl (StopReturn (Inl (NodeNotFound node_id)))
               | Some n \<Rightarrow>
                   if en_kind n = XConditional then Inr (conditional_done node_id rs1)
                   else if en_kind n = XLoop then loop_done node_id rs1
                   else plain_done g node_id rs1)
       | Failed msg \<Rightarrow> Inr (node_failed node_id msg rs)
       | other \<Rightarrow> Inr (rs\<lparr>rs_queue := mark_completed (rs_queue rs) node_id,
                        rs_states := (rs_states rs)(node_id \<mapsto> other)\<rparr>)))"

section \<open>Waves\<close>

definition exec_context :: "execution_graph \<Rightarrow> (uuid \<rightharpoonup> json) \<Rightarrow> uuid \<Rightarrow> node_exec_context" where
  "exec_context g outs node_id =
    \<lparr>parent_outputs = fold (\<lambda>p m. case outs p of Some v \<Rightarrow> m(p \<mapsto> v) | None \<Rightarrow> m)
       (map ee_from (filter (\<lambda>e. ee_to e = node_id) (eg_edges g))) Map.empty,
     graph_outputs = outs\<rparr>"

definition cancelled_result :: node_execution_result where
  "cancelled_result = \<lparr>nr_state = Failed ''Cancelled by client'', nr_usage = None, nr_latency_ms = 0,
     nr_output = None\<rparr>"

definition run_node ::
  "executor \<Rightarrow> cancel_token option \<Rightarrow> nat \<Rightarrow> execution_node \<Rightarrow> node_exec_context \<Rightarrow> node_execution_result" where
  "run_node execute cancel wave n ctx =
    (case cancel of
       None \<Rightarrow> execute wave n ctx
     | Some token \<Rightarrow> if cancelled_during token wave (en_id n) then cancelled_result else execute wave n ctx)"

definition dispatch ::
  "execution_graph \<Rightarrow> uuid \<Rightarrow> run_state \<times> (execution_node \<times> node_exec_context) list \<Rightarrow>
    run_stop + run_state \<times> (execution_node \<times> node_exec_context) list" where
  "dispatch g node_id acc =
    (case acc of (rs, handles) \<Rightarrow>
     let rs1 = rs\<lparr>rs_queue := mark_in_progress (rs_queue rs) node_id,
               rs_states := (rs_states rs)(node_id \<mapsto> Running)\<rparr>
     in case node_at g node_id of
          None \<Rightarrow> Inl (StopReturn (Inl (NodeNotFound node_id)))
        | Some n \<Rightarrow> Inr (rs1, handles @ [(n, exec_context g (rs_outputs rs1) node_id)]))"

definition sched_body ::
  "scheduler \<Rightarrow> execution_graph \<Rightarrow> executor \<Rightarrow> cancel_token option \<Rightarrow> run_state \<Rightarrow> run_stop + run_state" where
  "sched_body sch g execute cancel rs0 =
    (let rs = rs0\<lparr>rs_wave := rs_wave rs0 + 1\<rparr>; wave = rs_wave rs0
     in if (case cancel of Some token \<Rightarrow> cancelled_at_head token wave | None \<Rightarrow> False)
        then Inl (StopReturn (Inl RequestCancelled))
        else if is_done (rs_queue rs) (rs_states rs) then Inl (StopBreak rs)
        else let ready = get_ready (rs_queue rs) (rs_states rs)
          in if ready = [] then (if any_in_progress (rs_queue rs) then Inr rs else Inl (StopBreak rs))
             else let batch_ids = map en_id (take (max_concurrent sch) ready)
               in and_then (try_for (dispatch g) batch_ids (rs, [])) (\<lambda>(rs1, handles).
                 let results = map (\<lambda>(n, ctx). (en_id n, ctx, run_node execute cancel wave n ctx)) handles
                 in try_for (process_result sch g batch_ids) results rs1))"

definition run_start :: "scheduler \<Rightarrow> execution_graph \<Rightarrow> budget_envelope option \<Rightarrow> run_state" where
  "run_start sch g envelope =
    \<lparr>rs_queue = with_max_concurrent_nodes (work_queue_new g) (max_concurrent sch),
     rs_states = Map.empty, rs_outputs = Map.empty, rs_cost = nano_ZERO, rs_tokens = 0,
     rs_iterations = (\<lambda>_. 0), rs_envelope = envelope, rs_wave = 0, rs_log = []\<rparr>"

definition run_finish :: "execution_graph \<Rightarrow> run_state \<Rightarrow> execution_outcome" where
  "run_finish g rs =
    \<lparr>eo_success = list_all (\<lambda>n. rs_states rs (en_id n) \<in> {Some Succeeded, Some Skipped}) (eg_nodes g),
     eo_outputs = rs_outputs rs, eo_node_states = rs_states rs,
     eo_total_cost = rs_cost rs, eo_total_tokens = rs_tokens rs\<rparr>"

definition run_inner ::
  "nat \<Rightarrow> scheduler \<Rightarrow> execution_graph \<Rightarrow> executor \<Rightarrow> cancel_token option \<Rightarrow> budget_envelope option \<Rightarrow>
    (scheduler_failure + execution_outcome) option" where
  "run_inner fuel sch g execute cancel envelope =
    map_option (\<lambda>stop. case stop of StopReturn r \<Rightarrow> r | StopBreak rs \<Rightarrow> Inr (run_finish g rs))
      (run_loop fuel (sched_body sch g execute cancel) (run_start sch g envelope))"

definition scheduler_run where
  "scheduler_run fuel sch g execute = run_inner fuel sch g execute None None"

definition run_with_budget where
  "run_with_budget fuel sch g execute envelope = run_inner fuel sch g execute None (Some envelope)"

definition run_with_cancellation where
  "run_with_cancellation fuel sch g execute token = run_inner fuel sch g execute (Some token) None"

definition run_with_cancellation_and_budget where
  "run_with_cancellation_and_budget fuel sch g execute token envelope =
    run_inner fuel sch g execute (Some token) (Some envelope)"

section \<open>Failing the dependents of a failed node\<close>










section \<open>The invariant of a run over a plain graph\<close>



















section \<open>Rounds of a run over a plain graph\<close>






















section \<open>What a run over a plain graph does\<close>






definition demo_node :: "uuid \<Rightarrow> execution_node_kind \<Rightarrow> execution_node" where
  "demo_node i k = ExecutionNode i k Single ''m'' \<lparr>max_retries = 0, backoff_ms = 0\<rparr> None [] None"

definition demo_graph :: "execution_node list \<Rightarrow> execution_edge list \<Rightarrow> execution_graph" where
  "demo_graph ns es = \<lparr>graph_id = 0, eg_nodes = ns, eg_edges = es,
     eg_metadata = \<lparr>gm_estimated_cost = nano_ZERO, gm_estimated_tokens = 0, gm_policy_version = 0,
       gm_max_depth = 1, gm_node_count = 0\<rparr>, total_tokens = 0, total_cost = nano_ZERO, primitive_graph_hash = 0\<rparr>"

definition demo_link :: "uuid \<Rightarrow> uuid \<Rightarrow> string option \<Rightarrow> execution_edge" where
  "demo_link f t c = \<lparr>ee_from = f, ee_to = t, ee_condition = c\<rparr>"

definition demo_result :: "json \<Rightarrow> node_execution_result" where
  "demo_result v = \<lparr>nr_state = Succeeded, nr_usage = None, nr_latency_ms = 0, nr_output = Some v\<rparr>"

definition demo_pipeline :: execution_graph where
  "demo_pipeline = demo_graph [demo_node 1 LLMGenerate, demo_node 2 LLMReview] [demo_link 1 2 None]"



section \<open>Budget breach\<close>

lemma is_terminal_simps [simp]:
  "is_terminal (Some Succeeded)" "is_terminal (Some (Failed m))" "is_terminal (Some Skipped)"
  "\<not> is_terminal None" "\<not> is_terminal (Some Pending)" "\<not> is_terminal (Some Running)"
  by (simp_all add: is_terminal_def)






section \<open>Cancellation\<close>

lemma try_for_keeps:
  assumes "\<And>x s s'. f x s = Inr s' \<Longrightarrow> h s' = h s" and "try_for f xs s = Inr s'"
  shows "h s' = h s"
  using assms(2)
proof (induction xs arbitrary: s)
  case (Cons x xs)
  then obtain s1 where "f x s = Inr s1" "try_for f xs s1 = Inr s'" by auto
  then show ?case using assms(1) Cons.IH by metis
qed simp

lemma account_wave: "account sch g ids n r rs = Inr rs' \<Longrightarrow> rs_wave rs' = rs_wave rs"
  by (auto simp: account_def Let_def split: option.splits prod.splits sum.splits)

lemma loop_done_wave: "loop_done n rs = Inr rs' \<Longrightarrow> rs_wave rs' = rs_wave rs"
  by (auto simp: loop_done_def loop_continue_def Let_def split: option.splits prod.splits sum.splits if_splits)

lemma plain_done_wave: "plain_done g n rs = Inr rs' \<Longrightarrow> rs_wave rs' = rs_wave rs"
  by (auto simp: plain_done_def Let_def split: option.splits if_splits)

lemma process_result_wave:
  assumes "process_result sch g ids e rs = Inr rs'"
  shows "rs_wave rs' = rs_wave rs"
proof -
  obtain n c r where e: "e = (n, c, r)" by (cases e) auto
  obtain rs1 where a: "account sch g ids n r (rs\<lparr>rs_log := rs_log rs @ [e]\<rparr>) = Inr rs1"
    using assms by (auto simp: process_result_def e)
  then have w: "rs_wave rs1 = rs_wave rs"
    using account_wave by fastforce
  have s: "rs_wave (settle_node n r rs1) = rs_wave rs"
    using w by (simp add: settle_node_def)
  show ?thesis
    using assms a w s loop_done_wave [of n "settle_node n r rs1" rs'] plain_done_wave [of g n "settle_node n r rs1" rs']
    by (auto simp: process_result_def e Let_def node_failed_def conditional_done_def
        split: node_state.splits option.splits if_splits prod.splits)
qed

lemma dispatch_wave: "dispatch g i acc = Inr acc' \<Longrightarrow> rs_wave (fst acc') = rs_wave (fst acc)"
  by (auto simp: dispatch_def Let_def split: prod.splits option.splits)

lemma sched_body_wave:
  assumes "sched_body sch g execute cancel rs = Inr rs'"
  shows "rs_wave rs' = rs_wave rs + 1"
proof -
  have disp: "rs_wave rs1 = Suc (rs_wave rs)"
    if "try_for (dispatch g) ids (rs\<lparr>rs_wave := Suc (rs_wave rs)\<rparr>, []) = Inr (rs1, hs)" for ids rs1 hs
    using try_for_keeps [where h = "\<lambda>acc. rs_wave (fst acc)" and f = "dispatch g", OF dispatch_wave that] by simp
  have proc: "rs_wave rs2 = rs_wave rs1" if "try_for (process_result sch g ids) es rs1 = Inr rs2" for ids es rs1 rs2
    using try_for_keeps [where h = rs_wave and f = "process_result sch g ids", OF process_result_wave that] .
  show ?thesis
    using assms unfolding sched_body_def Let_def
    by (auto split: if_splits prod.splits dest!: disp proc)
qed

interpretation cancel_loop: measured_loop "sched_body sch g execute (Some token)"
  "\<lambda>rs. cancelled_at_head token k \<and> rs_wave rs \<le> k" "\<lambda>rs. k - rs_wave rs" "\<lambda>_. True"
  for sch g execute token k
proof unfold_locales
  fix s s'
  assume "cancelled_at_head token k \<and> rs_wave s \<le> k" and b: "sched_body sch g execute (Some token) s = Inr s'"
  moreover have "rs_wave s \<noteq> k" if "cancelled_at_head token k"
    using b that by (auto simp: sched_body_def Let_def)
  ultimately show "(cancelled_at_head token k \<and> rs_wave s' \<le> k) \<and> k - rs_wave s' < k - rs_wave s"
    using sched_body_wave [OF b] by auto
qed simp

text \<open>C34. Cancelling a request stops its run, whatever the graph, loops included, and whatever the executor
  answers: if the token is set when some round starts, the scheduler returns by that round.\<close>

theorem cancellation_stops_run:
  assumes "cancelled_at_head token k" and "k < fuel"
  shows "run_inner fuel sch g execute (Some token) envelope \<noteq> None"
  using cancel_loop.returns [of token k "run_start sch g envelope" fuel sch g execute] assms
  by (auto simp: run_inner_def run_start_def)

theorem cancellation_stops_run_witness:
  "run_inner 1 scheduler_new demo_pipeline (\<lambda>_ _ _. demo_result JNull)
    (Some \<lparr>cancelled_at_head = (\<lambda>_. True), cancelled_during = (\<lambda>_ _. True)\<rparr>) None \<noteq> None"
  by (rule cancellation_stops_run [of _ 0]) simp_all

section \<open>Graphs the scheduler cannot finish\<close>

lemma sched_body_idle:
  assumes "\<not> is_done (rs_queue rs) (rs_states rs)" and "get_ready (rs_queue rs) (rs_states rs) \<noteq> []"
  shows "sched_body (with_max_concurrent 0) g execute None rs = Inr (rs\<lparr>rs_wave := rs_wave rs + 1\<rparr>)"
  using assms by (simp add: sched_body_def Let_def with_max_concurrent_def)

text \<open>A scheduler built with no slots spins forever: the queue raises a cap of zero to one and so always
  offers a ready node, but the wave takes zero of them; no fuel is enough, and the loop never waits.\<close>

theorem zero_concurrency_never_returns:
  "scheduler_run fuel (with_max_concurrent 0) demo_pipeline execute = None"
proof -
  let ?start = "run_start (with_max_concurrent 0) demo_pipeline None"
  have "\<not> is_done (rs_queue ?start) (rs_states ?start)" "get_ready (rs_queue ?start) (rs_states ?start) \<noteq> []"
    by code_simp+
  then have "run_loop fuel (sched_body (with_max_concurrent 0) demo_pipeline execute None) ?start = None"
    by (intro run_loop_diverges [where I = "\<lambda>rs. rs_queue rs = rs_queue ?start \<and> rs_states rs = rs_states ?start"])
      (auto simp: sched_body_idle)
  then show ?thesis
    by (simp add: scheduler_run_def run_inner_def)
qed

definition demo_self_loop :: execution_graph where
  "demo_self_loop = demo_graph
     [ExecutionNode 7 XLoop Single ''m'' \<lparr>max_retries = 0, backoff_ms = 0\<rparr> None
        [(''max_iterations'', JNumber (PosInt 3))] None]
     [demo_link 7 7 (Some ''loop'')]"

definition demo_loop_queue :: work_queue where
  "demo_loop_queue = with_max_concurrent_nodes (work_queue_new demo_self_loop) 16"

lemma demo_loop_queue_fields:
  "wq_completed demo_loop_queue = {}" "wq_in_progress demo_loop_queue = {}" "wq_failed demo_loop_queue = {}"
  "wq_ready demo_loop_queue = {7}" "wq_back_edges demo_loop_queue = {(7, 7)}"
  "wq_selective_sources demo_loop_queue = {7}" "wq_total_incoming demo_loop_queue 7 = 0"
  "wq_activated_edges demo_loop_queue = {}" "max_concurrent_nodes demo_loop_queue = 16"
  "wq_outgoing_edges demo_loop_queue 7 = [demo_link 7 7 (Some ''loop'')]" "wq_incoming demo_loop_queue 7 = [7]"
  by code_simp+

lemma demo_loop_queue_more:
  "wq_graph demo_loop_queue = demo_self_loop" "wq_satisfied_incoming demo_loop_queue = (\<lambda>_. 0)"
  by (simp_all add: demo_loop_queue_def with_max_concurrent_nodes_def work_queue_new_def)

lemma demo_loop_round:
  assumes "rs_queue rs = demo_loop_queue" and "rs_states rs 7 \<in> {None, Some Pending}" and "rs_envelope rs = None"
  shows "\<exists>rs'. sched_body scheduler_new demo_self_loop (\<lambda>_ _ _. demo_result (JBool True)) None rs = Inr rs' \<and>
    rs_queue rs' = demo_loop_queue \<and> rs_states rs' 7 \<in> {None, Some Pending} \<and> rs_envelope rs' = None"
proof -
  have n: "eg_nodes demo_self_loop = [ExecutionNode 7 XLoop Single ''m'' \<lparr>max_retries = 0, backoff_ms = 0\<rparr> None
        [(''max_iterations'', JNumber (PosInt 3))] None]"
    by (simp add: demo_self_loop_def demo_graph_def)
  have at: "node_at demo_self_loop 7 = Some (hd (eg_nodes demo_self_loop))"
    by (simp add: node_at_def n)
  have again: "activate_edge (reset_loop_body (mark_completed (mark_in_progress demo_loop_queue 7) 7) [7]) 7 7 = demo_loop_queue"
    by (rule work_queue.equality)
      (simp_all add: activate_edge_def reset_loop_body_def reset_body_node_def mark_completed_def mark_in_progress_def
        try_activate_downstream_def demo_loop_queue_fields demo_loop_queue_more Let_def fun_upd_idem)
  let ?body = "sched_body scheduler_new demo_self_loop (\<lambda>_ _ _. demo_result (JBool True)) None rs"
  let ?rs1 = "rs\<lparr>rs_wave := rs_wave rs + 1, rs_queue := mark_in_progress demo_loop_queue 7,
    rs_states := (rs_states rs)(7 \<mapsto> Running)\<rparr>"
  let ?entry = "(7, exec_context demo_self_loop (rs_outputs rs) 7, demo_result (JBool True))"
  have "get_ready demo_loop_queue (rs_states rs) = eg_nodes demo_self_loop" "\<not> is_done demo_loop_queue (rs_states rs)"
    using assms(2) by (auto simp: get_ready_def is_done_def demo_loop_queue_fields demo_loop_queue_more n)
  then have "?body = try_for (process_result scheduler_new demo_self_loop [7]) [?entry] ?rs1"
    using assms(1) at by (simp add: sched_body_def Let_def scheduler_new_def n dispatch_def run_node_def)
  also have "\<dots> = Inr (loop_continue 7 ((settle_node 7 (demo_result (JBool True)) (?rs1\<lparr>rs_log := rs_log rs @ [?entry]\<rparr>))
      \<lparr>rs_queue := mark_completed (mark_in_progress demo_loop_queue 7) 7\<rparr>))"
    using assms(3) at by (simp add: process_result_def account_def loop_done_def settle_node_def demo_result_def n Let_def)
  finally have b: "?body = \<dots>" .
  have "body_targets (mark_completed (mark_in_progress demo_loop_queue 7) 7) 7 = [7]"
    by (simp add: body_targets_def mark_completed_def mark_in_progress_def try_activate_downstream_def
        demo_loop_queue_fields demo_link_def)
  then show ?thesis
    unfolding b using again assms(3)
    by (simp add: loop_continue_def settle_node_def Let_def set_pending_def demo_result_def)
qed

text \<open>C40. The iteration cap of a loop node is not enforced on a loop without a body: a loop node whose only
  edge leads back to itself, with max_iterations set to 3, runs for as long as its output asks for
  another iteration; only a budget envelope or a cancellation ends it.\<close>

theorem self_loop_ignores_max_iterations:
  "scheduler_run fuel scheduler_new demo_self_loop (\<lambda>_ _ _. demo_result (JBool True)) = None"
proof -
  let ?ok = "\<lambda>rs. rs_queue rs = demo_loop_queue \<and> rs_states rs 7 \<in> {None, Some Pending} \<and> rs_envelope rs = None"
  have "?ok (run_start scheduler_new demo_self_loop None)"
    by (simp add: run_start_def demo_loop_queue_def scheduler_new_def)
  moreover have "\<exists>rs'. sched_body scheduler_new demo_self_loop (\<lambda>_ _ _. demo_result (JBool True)) None rs = Inr rs' \<and> ?ok rs'"
    if "?ok rs" for rs
    using that by (intro demo_loop_round) auto
  ultimately have "run_loop fuel (sched_body scheduler_new demo_self_loop (\<lambda>_ _ _. demo_result (JBool True)) None)
      (run_start scheduler_new demo_self_loop None) = None"
    by (rule run_loop_diverges [where I = ?ok])
  then show ?thesis
    by (simp add: scheduler_run_def run_inner_def)
qed

definition demo_parallel_edges :: execution_graph where
  "demo_parallel_edges = demo_graph [demo_node 1 LLMGenerate, demo_node 2 LLMReview]
     [demo_link 1 2 None, demo_link 1 2 (Some ''again'')]"

text \<open>Parallel edges starve their target: with two edges between the same nodes the queue waits for two
  activations but records an activation per pair of nodes, so the target never runs, no state is ever
  recorded for it and the run ends unsuccessfully although every executed node succeeded.\<close>

theorem parallel_edges_starve:
  "map_option (map_sum id (\<lambda>out. (eo_node_states out 1, eo_node_states out 2, eo_success out)))
     (scheduler_run 5 scheduler_new demo_parallel_edges (\<lambda>_ _ _. demo_result JNull)) =
    Some (Inr (Some Succeeded, None, False))"
  by code_simp

end
