(* ===== verification/Leases.thy ===== *)
theory Leases
  imports Json
begin

text \<open>
  \<open>crates/fusion-scheduler/src/leases.rs\<close>: execution leases. Both maps are behind locks that every
  operation holds for its whole effect (\<open>renew_lease\<close> first reads the owner under its own lock, which
  changes nothing), so any concurrent use is a sequence of \<open>lease_step\<close>s. The wall clock is the time
  argument of each operation and may jump; where a statement needs a clock that does not go back it
  says so.
\<close>

section \<open>State and operations\<close>

definition DEFAULT_MAX_RENEWALS :: u32 where "DEFAULT_MAX_RENEWALS = 100"
definition MAX_LEASE_ABSOLUTE_LIFETIME_MS :: u64 where "MAX_LEASE_ABSOLUTE_LIFETIME_MS = 86400000"
definition MAX_LEASE_TTL_MS :: u64 where "MAX_LEASE_TTL_MS = MAX_LEASE_ABSOLUTE_LIFETIME_MS"
definition MIN_LEASE_TTL_MS :: u64 where "MIN_LEASE_TTL_MS = 1"
definition DEFAULT_LEASE_TTL_MS :: u64 where "DEFAULT_LEASE_TTL_MS = 60000"

record execution_lease =
  lease_key :: string
  lease_execution_id :: string
  lease_node_id :: string
  lease_worker_id :: string
  lease_epoch :: u64
  granted_at_ms :: u64
  ttl_ms :: u64
  is_revoked :: bool
  lease_owner :: string
  created_at_ms :: u64
  renewal_count :: u32
  lease_max_renewals :: u32

definition is_expired :: "execution_lease \<Rightarrow> u64 \<Rightarrow> bool" where
  "is_expired l current_time_ms \<longleftrightarrow> is_revoked l \<or>
     (0 < ttl_ms l \<and> saturating_add (granted_at_ms l) (ttl_ms l) \<le> current_time_ms)"

record lease_manager =
  lm_leases :: "execution_lease btree"
  lm_epochs :: "string \<times> string \<rightharpoonup> u64"

definition lease_manager_new :: lease_manager where
  "lease_manager_new = \<lparr>lm_leases = [], lm_epochs = Map.empty\<rparr>"

datatype lease_error = LeaseViolation string string

definition make_lease_key :: "string \<Rightarrow> string \<Rightarrow> string \<Rightarrow> string" where
  "make_lease_key exec_id node_id worker_id = ''lease:'' @ exec_id @ '':'' @ node_id @ '':'' @ worker_id"

definition prune_expired :: "lease_manager \<Rightarrow> u64 \<Rightarrow> lease_manager" where
  "prune_expired m now_ms =
    (let pruned = filter (\<lambda>kv. is_expired (snd kv) now_ms) (lm_leases m)
     in \<lparr>lm_leases = filter (\<lambda>kv. \<not> is_expired (snd kv) now_ms) (lm_leases m),
         lm_epochs = fold (\<lambda>kv es. es((lease_execution_id (snd kv), lease_node_id (snd kv)) := None))
           pruned (lm_epochs m)\<rparr>)"

definition bounded_ttl :: "u64 \<Rightarrow> u64" where
  "bounded_ttl t = (if t = 0 then DEFAULT_LEASE_TTL_MS else clamp t MIN_LEASE_TTL_MS MAX_LEASE_TTL_MS)"

definition new_lease :: "u64 \<Rightarrow> string \<Rightarrow> string \<Rightarrow> string \<Rightarrow> u64 \<Rightarrow> u64 \<Rightarrow> execution_lease" where
  "new_lease next_epoch exec_id node_id worker_id ttl now_ms =
    \<lparr>lease_key = make_lease_key exec_id node_id worker_id,
     lease_execution_id = exec_id, lease_node_id = node_id, lease_worker_id = worker_id,
     lease_epoch = next_epoch, granted_at_ms = now_ms, ttl_ms = bounded_ttl ttl,
     is_revoked = False, lease_owner = worker_id, created_at_ms = now_ms,
     renewal_count = 0, lease_max_renewals = DEFAULT_MAX_RENEWALS\<rparr>"

definition grant_lease ::
  "lease_manager \<Rightarrow> string \<Rightarrow> string \<Rightarrow> string \<Rightarrow> u64 \<Rightarrow> u64 \<Rightarrow> (lease_error + execution_lease) \<times> lease_manager" where
  "grant_lease m0 exec_id node_id worker_id ttl now_ms =
    (let m = prune_expired m0 now_ms
     in case find (\<lambda>kv. lease_execution_id (snd kv) = exec_id \<and> lease_node_id (snd kv) = node_id \<and>
            \<not> is_expired (snd kv) now_ms \<and> lease_worker_id (snd kv) \<noteq> worker_id) (lm_leases m) of
          Some kv \<Rightarrow> (Inl (LeaseViolation node_id (lease_worker_id (snd kv))), m)
        | None \<Rightarrow>
            (let prev_epoch = (case lm_epochs m (exec_id, node_id) of Some e \<Rightarrow> e | None \<Rightarrow> 0);
                 lease = new_lease (prev_epoch + 1) exec_id node_id worker_id ttl now_ms
             in (Inr lease, m\<lparr>lm_epochs := (lm_epochs m)((exec_id, node_id) \<mapsto> prev_epoch + 1),
                   lm_leases := bt_insert (lease_key lease) lease (lm_leases m)\<rparr>)))"

definition renew_lease_by :: "lease_manager \<Rightarrow> string \<Rightarrow> string \<Rightarrow> u64 \<Rightarrow> bool \<times> lease_manager" where
  "renew_lease_by m key owner now_ms =
    (case map_of (lm_leases m) key of
       None \<Rightarrow> (False, m)
     | Some lease \<Rightarrow>
         if lease_owner lease \<noteq> owner then (False, m)
         else if is_expired lease now_ms then (False, m)
         else if lease_max_renewals lease \<le> renewal_count lease then (False, m)
         else if MAX_LEASE_ABSOLUTE_LIFETIME_MS \<le> saturating_sub now_ms (created_at_ms lease) then (False, m)
         else (let lease' = lease\<lparr>renewal_count := renewal_count lease + 1, lease_epoch := lease_epoch lease + 1,
                     granted_at_ms := now_ms\<rparr>
               in (True, m\<lparr>lm_leases := bt_insert key lease' (lm_leases m),
                     lm_epochs := (lm_epochs m)((lease_execution_id lease', lease_node_id lease') \<mapsto> lease_epoch lease')\<rparr>)))"

definition renew_lease :: "lease_manager \<Rightarrow> string \<Rightarrow> u64 \<Rightarrow> bool \<times> lease_manager" where
  "renew_lease m key now_ms =
    (case map_of (lm_leases m) key of
       None \<Rightarrow> (False, m)
     | Some lease \<Rightarrow> renew_lease_by m key (lease_owner lease) now_ms)"

definition revoke_lease :: "lease_manager \<Rightarrow> string \<Rightarrow> bool \<times> lease_manager" where
  "revoke_lease m key =
    (case map_of (lm_leases m) key of
       None \<Rightarrow> (False, m)
     | Some lease \<Rightarrow> (True, m\<lparr>lm_leases := bt_insert key (lease\<lparr>is_revoked := True\<rparr>) (lm_leases m)\<rparr>))"

datatype lease_op =
    Grant string string string u64
  | RenewBy string string
  | Renew string
  | Revoke string

fun lease_step :: "lease_manager \<Rightarrow> u64 \<times> lease_op \<Rightarrow> lease_manager" where
  "lease_step m (now_ms, Grant e n w ttl) = snd (grant_lease m e n w ttl now_ms)"
| "lease_step m (now_ms, RenewBy key owner) = snd (renew_lease_by m key owner now_ms)"
| "lease_step m (now_ms, Renew key) = snd (renew_lease m key now_ms)"
| "lease_step m (now_ms, Revoke key) = snd (revoke_lease m key)"

definition lease_run :: "lease_manager \<Rightarrow> (u64 \<times> lease_op) list \<Rightarrow> lease_manager" where
  "lease_run m ops = foldl lease_step m ops"

section \<open>What holds in every reachable state\<close>

definition lease_ok :: "string \<times> execution_lease \<Rightarrow> bool" where
  "lease_ok kv \<longleftrightarrow> (case kv of (key, l) \<Rightarrow>
     key = make_lease_key (lease_execution_id l) (lease_node_id l) (lease_worker_id l) \<and> lease_key l = key \<and>
     lease_owner l = lease_worker_id l \<and> lease_max_renewals l = 100 \<and> renewal_count l \<le> 100 \<and>
     1 \<le> unat (ttl_ms l) \<and> unat (ttl_ms l) \<le> 86400000 \<and>
     unat (granted_at_ms l) < unat (created_at_ms l) + 86400000)"

definition one_worker :: "(string \<times> execution_lease) set \<Rightarrow> bool" where
  "one_worker S \<longleftrightarrow> (\<forall>a\<in>S. \<forall>b\<in>S.
     lease_execution_id (snd a) = lease_execution_id (snd b) \<longrightarrow> lease_node_id (snd a) = lease_node_id (snd b) \<longrightarrow>
     lease_worker_id (snd a) = lease_worker_id (snd b))"

definition manager_ok :: "lease_manager \<Rightarrow> bool" where
  "manager_ok m \<longleftrightarrow> bt_ok (lm_leases m) \<and> (\<forall>kv\<in>set (lm_leases m). lease_ok kv) \<and>
     one_worker (set (lm_leases m))"

lemma one_worker_empty [simp]: "one_worker {}"
  by (simp add: one_worker_def)

lemma one_worker_mono: "one_worker S \<Longrightarrow> T \<subseteq> S \<Longrightarrow> one_worker T"
  unfolding one_worker_def by blast

lemma manager_ok_new [simp]: "manager_ok lease_manager_new"
  by (simp add: manager_ok_def lease_manager_new_def)

lemma prune_ok: "manager_ok m \<Longrightarrow> manager_ok (prune_expired m now)"
  by (auto simp: manager_ok_def prune_expired_def Let_def intro: bt_filter_ok elim: one_worker_mono)

lemma prune_leases: "set (lm_leases (prune_expired m now)) = {kv \<in> set (lm_leases m). \<not> is_expired (snd kv) now}"
  by (auto simp: prune_expired_def Let_def)

lemma bounded_ttl_range: "1 \<le> unat (bounded_ttl t) \<and> unat (bounded_ttl t) \<le> 86400000"
proof (cases "t = 0")
  case False
  have "MIN_LEASE_TTL_MS \<le> clamp t MIN_LEASE_TTL_MS MAX_LEASE_TTL_MS \<and>
      clamp t MIN_LEASE_TTL_MS MAX_LEASE_TTL_MS \<le> MAX_LEASE_TTL_MS"
    by (rule clamp_bounds) (simp add: MIN_LEASE_TTL_MS_def MAX_LEASE_TTL_MS_def MAX_LEASE_ABSOLUTE_LIFETIME_MS_def)
  then show ?thesis
    using False by (simp add: bounded_ttl_def MIN_LEASE_TTL_MS_def MAX_LEASE_TTL_MS_def
        MAX_LEASE_ABSOLUTE_LIFETIME_MS_def word_le_nat_alt)
qed (simp add: bounded_ttl_def DEFAULT_LEASE_TTL_MS_def)

lemma manager_ok_unique:
  "manager_ok m \<Longrightarrow> a \<in> set (lm_leases m) \<Longrightarrow> b \<in> set (lm_leases m) \<Longrightarrow>
    lease_execution_id (snd a) = lease_execution_id (snd b) \<Longrightarrow> lease_node_id (snd a) = lease_node_id (snd b) \<Longrightarrow>
    lease_worker_id (snd a) = lease_worker_id (snd b)"
  unfolding manager_ok_def one_worker_def by blast

lemma manager_ok_insert:
  assumes m: "manager_ok m" and l: "lease_ok (key, l)"
    and same: "\<And>kv. kv \<in> set (lm_leases m) \<Longrightarrow> fst kv \<noteq> key \<Longrightarrow>
      lease_execution_id (snd kv) = lease_execution_id l \<Longrightarrow> lease_node_id (snd kv) = lease_node_id l \<Longrightarrow>
      lease_worker_id (snd kv) = lease_worker_id l"
  shows "manager_ok (m\<lparr>lm_leases := bt_insert key l (lm_leases m), lm_epochs := es\<rparr>)"
proof -
  have b: "bt_ok (lm_leases m)" and ok: "\<forall>kv\<in>set (lm_leases m). lease_ok kv"
    using m by (simp_all add: manager_ok_def)
  have "lease_worker_id (snd x) = lease_worker_id (snd y)"
    if xy: "x \<in> insert (key, l) {kv \<in> set (lm_leases m). fst kv \<noteq> key}"
      "y \<in> insert (key, l) {kv \<in> set (lm_leases m). fst kv \<noteq> key}"
      "lease_execution_id (snd x) = lease_execution_id (snd y)" "lease_node_id (snd x) = lease_node_id (snd y)" for x y
  proof -
    consider "x = (key, l)" "y = (key, l)" | "x = (key, l)" "y \<in> set (lm_leases m)" "fst y \<noteq> key"
      | "y = (key, l)" "x \<in> set (lm_leases m)" "fst x \<noteq> key" | "x \<in> set (lm_leases m)" "y \<in> set (lm_leases m)"
      using xy(1,2) by blast
    then show ?thesis
    proof cases
      case 2
      then have "lease_worker_id (snd y) = lease_worker_id l"
        using xy(3,4) by (intro same) auto
      then show ?thesis using 2 by simp
    next
      case 3
      then have "lease_worker_id (snd x) = lease_worker_id l"
        using xy(3,4) by (intro same) auto
      then show ?thesis using 3 by simp
    next
      case 4
      then show ?thesis using xy(3,4) by (rule manager_ok_unique [OF m])
    qed simp
  qed
  then have "one_worker (insert (key, l) {kv \<in> set (lm_leases m). fst kv \<noteq> key})"
    unfolding one_worker_def by blast
  then show ?thesis
    using l ok by (simp add: manager_ok_def set_bt_insert [OF b] bt_insert_ok [OF b])
qed

definition may_grant :: "lease_manager \<Rightarrow> string \<Rightarrow> string \<Rightarrow> string \<Rightarrow> u64 \<Rightarrow> bool" where
  "may_grant m e n w now \<longleftrightarrow> (\<forall>kv\<in>set (lm_leases m). lease_execution_id (snd kv) = e \<longrightarrow>
     lease_node_id (snd kv) = n \<longrightarrow> \<not> is_expired (snd kv) now \<longrightarrow> lease_worker_id (snd kv) = w)"

lemma grant_lease_granted:
  assumes "may_grant m e n w now"
  obtains epoch es where "grant_lease m e n w ttl now = (Inr (new_lease epoch e n w ttl now), (prune_expired m now)
    \<lparr>lm_leases := bt_insert (make_lease_key e n w) (new_lease epoch e n w ttl now) (lm_leases (prune_expired m now)),
     lm_epochs := es\<rparr>)"
proof -
  have "find (\<lambda>kv. lease_execution_id (snd kv) = e \<and> lease_node_id (snd kv) = n \<and>
      \<not> is_expired (snd kv) now \<and> lease_worker_id (snd kv) \<noteq> w) (lm_leases (prune_expired m now)) = None"
    using assms unfolding find_None_iff prune_leases may_grant_def by blast
  then have "grant_lease m e n w ttl now =
      (let epoch = (case lm_epochs (prune_expired m now) (e, n) of Some p \<Rightarrow> p | None \<Rightarrow> 0) + 1
       in (Inr (new_lease epoch e n w ttl now), (prune_expired m now)
         \<lparr>lm_leases := bt_insert (make_lease_key e n w) (new_lease epoch e n w ttl now) (lm_leases (prune_expired m now)),
          lm_epochs := (lm_epochs (prune_expired m now))((e, n) \<mapsto> epoch)\<rparr>))"
    by (simp add: grant_lease_def Let_def new_lease_def)
  then show thesis
    unfolding Let_def by (rule that)
qed

lemma grant_lease_refused:
  assumes "\<not> may_grant m e n w now"
  obtains kv where "grant_lease m e n w ttl now = (Inl (LeaseViolation n (lease_worker_id (snd kv))), prune_expired m now)"
    "kv \<in> set (lm_leases m)" "lease_execution_id (snd kv) = e" "lease_node_id (snd kv) = n"
proof -
  let ?P = "\<lambda>kv. lease_execution_id (snd kv) = e \<and> lease_node_id (snd kv) = n \<and>
      \<not> is_expired (snd kv) now \<and> lease_worker_id (snd kv) \<noteq> w"
  have "find ?P (lm_leases (prune_expired m now)) \<noteq> None"
    using assms unfolding find_None_iff prune_leases may_grant_def by blast
  then obtain kv where kv: "find ?P (lm_leases (prune_expired m now)) = Some kv" by blast
  then have "kv \<in> set (lm_leases (prune_expired m now))" "?P kv"
    using nth_mem [of _ "lm_leases (prune_expired m now)"] by (auto simp: find_Some_iff)
  then show thesis
    using that [of kv] kv by (simp add: grant_lease_def Let_def prune_leases)
qed

lemma new_lease_ok: "lease_ok (make_lease_key e n w, new_lease epoch e n w ttl now)"
  using bounded_ttl_range [of ttl] by (simp add: lease_ok_def new_lease_def DEFAULT_MAX_RENEWALS_def)

lemma grant_ok:
  assumes "manager_ok m"
  shows "manager_ok (snd (grant_lease m e n w ttl now))"
proof (cases "may_grant m e n w now")
  case True
  obtain epoch es where g: "grant_lease m e n w ttl now = (Inr (new_lease epoch e n w ttl now), (prune_expired m now)
    \<lparr>lm_leases := bt_insert (make_lease_key e n w) (new_lease epoch e n w ttl now) (lm_leases (prune_expired m now)),
     lm_epochs := es\<rparr>)"
    by (rule grant_lease_granted [OF True])
  have "lease_worker_id (snd kv) = w" if "kv \<in> set (lm_leases (prune_expired m now))"
      "lease_execution_id (snd kv) = e" "lease_node_id (snd kv) = n" for kv
    using True that by (simp add: may_grant_def prune_leases)
  then show ?thesis
    unfolding g snd_conv
    by (intro manager_ok_insert prune_ok [OF assms] new_lease_ok) (simp add: new_lease_def)
next
  case False
  then show ?thesis
    using prune_ok [OF assms] by (metis grant_lease_refused snd_conv)
qed

lemma manager_ok_update:
  assumes "manager_ok m" and "map_of (lm_leases m) key = Some l" and "lease_ok (key, l')"
    and "lease_execution_id l' = lease_execution_id l" "lease_node_id l' = lease_node_id l"
      "lease_worker_id l' = lease_worker_id l"
  shows "manager_ok (m\<lparr>lm_leases := bt_insert key l' (lm_leases m), lm_epochs := es\<rparr>)"
proof (rule manager_ok_insert [OF assms(1,3)])
  fix kv
  have "(key, l) \<in> set (lm_leases m)"
    using assms(1,2) by (simp add: manager_ok_def bt_lookup)
  then show "lease_worker_id (snd kv) = lease_worker_id l'" if "kv \<in> set (lm_leases m)"
      "lease_execution_id (snd kv) = lease_execution_id l'" "lease_node_id (snd kv) = lease_node_id l'"
    using manager_ok_unique [OF assms(1) that(1), of "(key, l)"] assms(4-) that by simp
qed

lemma manager_ok_lookup: "manager_ok m \<Longrightarrow> map_of (lm_leases m) key = Some l \<Longrightarrow> lease_ok (key, l)"
  by (auto simp: manager_ok_def bt_lookup)

lemma renew_by_ok:
  assumes "manager_ok m"
  shows "manager_ok (snd (renew_lease_by m key owner now))"
proof (cases "map_of (lm_leases m) key")
  case (Some l)
  let ?l = "l\<lparr>renewal_count := renewal_count l + 1, lease_epoch := lease_epoch l + 1, granted_at_ms := now\<rparr>"
  have l: "lease_ok (key, l)"
    by (rule manager_ok_lookup [OF assms Some])
  have "lease_ok (key, ?l)" if "\<not> lease_max_renewals l \<le> renewal_count l"
    "\<not> MAX_LEASE_ABSOLUTE_LIFETIME_MS \<le> saturating_sub now (created_at_ms l)"
  proof -
    have "renewal_count l < 100"
      using that(1) l by (simp add: lease_ok_def)
    then have "renewal_count l + 1 \<le> 100"
      by (rule inc_le)
    moreover have "unat now < unat (created_at_ms l) + 86400000"
      using that(2) by (simp add: MAX_LEASE_ABSOLUTE_LIFETIME_MS_def word_le_nat_alt rust_arith)
    ultimately show ?thesis
      using l by (simp add: lease_ok_def)
  qed
  then show ?thesis
    using assms manager_ok_update [OF assms Some, of ?l]
    by (simp add: renew_lease_by_def Some Let_def)
qed (simp add: renew_lease_by_def assms)

lemma revoke_ok:
  assumes "manager_ok m"
  shows "manager_ok (snd (revoke_lease m key))"
proof (cases "map_of (lm_leases m) key")
  case (Some l)
  have "lease_ok (key, l\<lparr>is_revoked := True\<rparr>)"
    using manager_ok_lookup [OF assms Some] by (simp add: lease_ok_def)
  then show ?thesis
    using manager_ok_update [OF assms Some, of "l\<lparr>is_revoked := True\<rparr>" "lm_epochs m"]
    by (simp add: revoke_lease_def Some)
qed (simp add: revoke_lease_def assms)

lemma lease_step_ok: "manager_ok m \<Longrightarrow> manager_ok (lease_step m x)"
proof (cases x)
  case (Pair now op)
  assume "manager_ok m"
  then show ?thesis
    by (cases op) (auto simp: Pair grant_ok renew_by_ok revoke_ok renew_lease_def split: option.split)
qed

lemma lease_run_ok: "manager_ok m \<Longrightarrow> manager_ok (lease_run m ops)"
  unfolding lease_run_def by (induction ops arbitrary: m) (simp_all add: lease_step_ok)

section \<open>Exclusivity\<close>

lemma separator_inject:
  "c \<notin> set xs \<Longrightarrow> c \<notin> set xs' \<Longrightarrow> xs @ c # ys = xs' @ c # ys' \<longleftrightarrow> xs = xs' \<and> ys = ys'"
proof (induction xs arbitrary: xs')
  case Nil
  then show ?case by (cases xs') auto
next
  case (Cons x xs)
  then show ?case by (cases xs') auto
qed

definition plain_id :: "string \<Rightarrow> bool" where
  "plain_id s \<longleftrightarrow> CHR '':'' \<notin> set s"

lemma make_lease_key_inject:
  "plain_id e \<Longrightarrow> plain_id n \<Longrightarrow> plain_id e' \<Longrightarrow> plain_id n' \<Longrightarrow>
    make_lease_key e n w = make_lease_key e' n' w' \<longleftrightarrow> e = e' \<and> n = n' \<and> w = w'"
  by (simp add: make_lease_key_def plain_id_def separator_inject)

text \<open>The lease of a worker is still in force: its record is there, perhaps renewed.\<close>

definition in_force :: "execution_lease \<Rightarrow> lease_manager \<Rightarrow> bool" where
  "in_force l0 m \<longleftrightarrow> (\<exists>l. map_of (lm_leases m) (lease_key l0) = Some l \<and>
     lease_execution_id l = lease_execution_id l0 \<and> lease_node_id l = lease_node_id l0 \<and>
     lease_worker_id l = lease_worker_id l0 \<and> \<not> is_revoked l \<and>
     granted_at_ms l0 \<le> granted_at_ms l \<and> ttl_ms l = ttl_ms l0)"

definition leaves_alone :: "execution_lease \<Rightarrow> lease_op \<Rightarrow> bool" where
  "leaves_alone l0 op \<longleftrightarrow> (case op of
     Grant e n w _ \<Rightarrow> plain_id e \<and> plain_id n \<and>
       \<not> (e = lease_execution_id l0 \<and> n = lease_node_id l0 \<and> w = lease_worker_id l0)
   | Revoke key \<Rightarrow> key \<noteq> lease_key l0
   | _ \<Rightarrow> True)"

lemma saturating_add_mono: "a \<le> b \<Longrightarrow> saturating_add a c \<le> saturating_add b (c :: u64)"
  by (simp add: word_le_nat_alt rust_arith)

lemma unexpired_later:
  assumes "granted_at_ms l0 \<le> granted_at_ms l" "ttl_ms l = ttl_ms l0" "\<not> is_revoked l"
    and "now < saturating_add (granted_at_ms l0) (ttl_ms l0)"
  shows "\<not> is_expired l now"
proof -
  have "saturating_add (granted_at_ms l0) (ttl_ms l0) \<le> saturating_add (granted_at_ms l) (ttl_ms l)"
    using saturating_add_mono [OF assms(1)] assms(2) by simp
  then have "now < saturating_add (granted_at_ms l) (ttl_ms l)"
    using assms(4) by (rule less_le_trans [rotated])
  then show ?thesis
    using assms(3) by (simp add: is_expired_def not_le)
qed

lemma prune_keeps:
  assumes "manager_ok m" and "map_of (lm_leases m) key = Some l" and "\<not> is_expired l now"
  shows "map_of (lm_leases (prune_expired m now)) key = Some l"
proof -
  have b: "bt_ok (lm_leases m)" "bt_ok (lm_leases (prune_expired m now))"
    using assms(1) prune_ok [OF assms(1)] by (simp_all add: manager_ok_def)
  then show ?thesis
    using assms(2,3) by (simp add: bt_lookup prune_leases)
qed

lemma in_force_step:
  assumes ok: "manager_ok m" and l0: "in_force l0 m" "plain_id (lease_execution_id l0)" "plain_id (lease_node_id l0)"
    and key: "lease_key l0 = make_lease_key (lease_execution_id l0) (lease_node_id l0) (lease_worker_id l0)"
    and time: "granted_at_ms l0 \<le> now" "now < saturating_add (granted_at_ms l0) (ttl_ms l0)"
    and op: "leaves_alone l0 op"
  shows "in_force l0 (lease_step m (now, op))"
proof -
  obtain l where l: "map_of (lm_leases m) (lease_key l0) = Some l"
    and same: "lease_execution_id l = lease_execution_id l0" "lease_node_id l = lease_node_id l0"
      "lease_worker_id l = lease_worker_id l0" "\<not> is_revoked l" "granted_at_ms l0 \<le> granted_at_ms l"
      "ttl_ms l = ttl_ms l0"
    using l0(1) by (auto simp: in_force_def)
  have live: "\<not> is_expired l now"
    by (rule unexpired_later [OF same(5,6,4) time(2)])
  have pruned: "in_force l0 (prune_expired m now)"
    using prune_keeps [OF ok l live] same by (auto simp: in_force_def)
  have renewed: "in_force l0 (snd (renew_lease_by m k owner now))" for k owner
    using l same time(1) l0(1)
    by (cases "k = lease_key l0") (auto simp: renew_lease_by_def in_force_def Let_def map_of_bt_insert split: option.splits)
  show ?thesis
  proof (cases op)
    case (Grant e n w ttl)
    show ?thesis
    proof (cases "may_grant m e n w now")
      case True
      obtain epoch es where g: "grant_lease m e n w ttl now = (Inr (new_lease epoch e n w ttl now), (prune_expired m now)
        \<lparr>lm_leases := bt_insert (make_lease_key e n w) (new_lease epoch e n w ttl now) (lm_leases (prune_expired m now)),
         lm_epochs := es\<rparr>)"
        by (rule grant_lease_granted [OF True])
      have "make_lease_key e n w \<noteq> lease_key l0"
        using op l0(2,3) by (simp add: Grant leaves_alone_def key make_lease_key_inject)
      then show ?thesis
        using pruned by (simp add: Grant g in_force_def map_of_bt_insert)
    next
      case False
      then show ?thesis
        using pruned by (metis Grant grant_lease_refused lease_step.simps(1) snd_conv)
    qed
  next
    case (RenewBy k owner)
    then show ?thesis using renewed by simp
  next
    case (Renew k)
    then show ?thesis
      using renewed l0(1) by (simp add: renew_lease_def split: option.split)
  next
    case (Revoke k)
    then show ?thesis
      using op l0(1) by (auto simp: leaves_alone_def revoke_lease_def in_force_def map_of_bt_insert split: option.splits)
  qed
qed

lemma in_force_run:
  assumes "manager_ok m" and "in_force l0 m" and "plain_id (lease_execution_id l0)" "plain_id (lease_node_id l0)"
    and "lease_key l0 = make_lease_key (lease_execution_id l0) (lease_node_id l0) (lease_worker_id l0)"
    and "\<forall>(now, op)\<in>set ops. granted_at_ms l0 \<le> now \<and> now < saturating_add (granted_at_ms l0) (ttl_ms l0) \<and>
      leaves_alone l0 op"
  shows "in_force l0 (lease_run m ops)"
  using assms(1,2,6)
proof (induction ops arbitrary: m)
  case (Cons x ops)
  obtain now op where x: "x = (now, op)" by (cases x)
  have "in_force l0 (lease_step m x)"
    using Cons.prems by (simp add: x in_force_step [OF Cons.prems(1,2) assms(3-5)] del: lease_step.simps)
  then show ?case
    using Cons by (simp add: lease_run_def lease_step_ok)
qed (simp add: lease_run_def)

lemma granted_in_force:
  assumes "manager_ok m" and "grant_lease m e n w ttl now = (Inr l, m')"
  shows "in_force l m' \<and> lease_execution_id l = e \<and> lease_node_id l = n \<and> lease_worker_id l = w \<and>
    granted_at_ms l = now \<and> lease_key l = make_lease_key e n w"
proof -
  have "may_grant m e n w now"
    using assms(2) by (metis Inl_Inr_False Pair_inject grant_lease_refused)
  then obtain epoch es where "grant_lease m e n w ttl now = (Inr (new_lease epoch e n w ttl now), (prune_expired m now)
      \<lparr>lm_leases := bt_insert (make_lease_key e n w) (new_lease epoch e n w ttl now) (lm_leases (prune_expired m now)),
       lm_epochs := es\<rparr>)"
    by (rule grant_lease_granted)
  then show ?thesis
    using assms(2) by (auto simp: in_force_def map_of_bt_insert new_lease_def)
qed

text \<open>C29. Single-worker exclusivity: once a worker holds a lease for a node of an execution, then for as long
  as the lease has not expired, on a clock that does not go back and whatever leases are granted,
  renewed or revoked in between - except that this lease is not revoked and its worker does not ask
  for it again - any other worker that asks for the node is refused and told who holds it. Execution
  and node ids must not contain a colon.\<close>

theorem lease_exclusive:
  assumes "grant_lease (lease_run lease_manager_new before) e n w ttl t0 = (Inr l, m)"
    and "plain_id e" and "plain_id n"
    and "\<forall>(now, op)\<in>set ops. t0 \<le> now \<and> now < saturating_add t0 (ttl_ms l) \<and> leaves_alone l op"
    and "t < saturating_add t0 (ttl_ms l)" and "w' \<noteq> w"
  shows "fst (grant_lease (lease_run m ops) e n w' ttl' t) = Inl (LeaseViolation n w)"
proof -
  let ?m = "lease_run m ops"
  have ok: "manager_ok (lease_run lease_manager_new before)"
    by (simp add: lease_run_ok)
  note l = granted_in_force [OF ok assms(1)]
  have m: "manager_ok m"
    using grant_ok [OF ok, of e n w ttl t0] assms(1) by simp
  have m': "manager_ok ?m"
    by (rule lease_run_ok [OF m])
  have "in_force l ?m"
    using in_force_run [OF m, of l ops] l assms(2-4) by simp
  then obtain l' where l': "map_of (lm_leases ?m) (lease_key l) = Some l'" "lease_execution_id l' = e"
      "lease_node_id l' = n" "lease_worker_id l' = w" "\<not> is_revoked l'" "t0 \<le> granted_at_ms l'" "ttl_ms l' = ttl_ms l"
    using l by (auto simp: in_force_def)
  have live: "\<not> is_expired l' t"
    using unexpired_later [of l l' t] l l'(5-7) assms(5) by simp
  have mem: "(lease_key l, l') \<in> set (lm_leases ?m)"
    using m' l'(1) by (simp add: manager_ok_def bt_lookup)
  have "\<not> may_grant ?m e n w' t"
    using mem l' live assms(6) unfolding may_grant_def by force
  then obtain kv where kv: "grant_lease ?m e n w' ttl' t = (Inl (LeaseViolation n (lease_worker_id (snd kv))), prune_expired ?m t)"
    "kv \<in> set (lm_leases ?m)" "lease_execution_id (snd kv) = e" "lease_node_id (snd kv) = n"
    by (rule grant_lease_refused)
  have "lease_worker_id (snd kv) = w"
    using manager_ok_unique [OF m' kv(2) mem] kv(3,4) l' by simp
  then show ?thesis
    by (simp add: kv(1))
qed

theorem lease_exclusive_witness:
  "fst (grant_lease (lease_run (snd (grant_lease lease_manager_new ''e'' ''n'' ''w1'' 1000 0)) [(500, Renew ''lease:e:n:w1'')])
    ''e'' ''n'' ''w2'' 0 900) = Inl (LeaseViolation ''n'' ''w1'')"
proof -
  let ?g = "grant_lease lease_manager_new ''e'' ''n'' ''w1'' 1000 0"
  let ?l = "new_lease 1 ''e'' ''n'' ''w1'' 1000 0"
  have "?g = (Inr ?l, snd ?g)"
    by (simp add: grant_lease_def prune_expired_def lease_manager_new_def Let_def)
  moreover have "ttl_ms ?l = 1000"
    by (simp add: new_lease_def bounded_ttl_def clamp_def MIN_LEASE_TTL_MS_def MAX_LEASE_TTL_MS_def
        MAX_LEASE_ABSOLUTE_LIFETIME_MS_def)
  ultimately show ?thesis
    using lease_exclusive [of "[]" "''e''" "''n''" "''w1''" 1000 0 ?l "snd ?g" "[(500, Renew ''lease:e:n:w1'')]" 900 "''w2''" 0]
    by (simp add: lease_run_def plain_id_def leaves_alone_def)
qed

text \<open>C30. No lease lives forever: whatever the sequence of operations and even on a clock that jumps, a lease
  record is renewed at most 100 times and is expired 48 hours after it was created.\<close>

theorem lease_lifetime_bounded:
  assumes "(key, l) \<in> set (lm_leases (lease_run lease_manager_new ops))"
    and "unat (created_at_ms l) + 2 * 86400000 \<le> unat t"
  shows "renewal_count l \<le> 100 \<and> is_expired l t"
proof -
  have "manager_ok (lease_run lease_manager_new ops)"
    by (simp add: lease_run_ok)
  then have "lease_ok (key, l)"
    using assms(1) by (auto simp: manager_ok_def)
  then have "renewal_count l \<le> 100" "0 < ttl_ms l" "unat (granted_at_ms l) + unat (ttl_ms l) \<le> unat t"
    using assms(2) by (auto simp: lease_ok_def word_less_nat_alt)
  then show ?thesis
    by (simp add: is_expired_def word_le_nat_alt rust_arith min.coboundedI1)
qed

theorem lease_lifetime_bounded_witness:
  "is_expired (new_lease 1 ''e'' ''n'' ''w'' 1000 5) 172800005"
proof -
  have "(''lease:e:n:w'', new_lease 1 ''e'' ''n'' ''w'' 1000 5) \<in>
      set (lm_leases (lease_run lease_manager_new [(5, Grant ''e'' ''n'' ''w'' 1000)]))"
    by (simp add: lease_run_def grant_lease_def prune_expired_def lease_manager_new_def make_lease_key_def
        new_lease_def Let_def)
  from lease_lifetime_bounded [OF this, of 172800005] show ?thesis
    by (simp add: new_lease_def)
qed

lemmas lease_evaluation = Let_def grant_lease_def renew_lease_def renew_lease_by_def prune_expired_def
  lease_manager_new_def make_lease_key_def new_lease_def is_expired_def bounded_ttl_def clamp_def
  saturating_add_def saturating_sub_def DEFAULT_MAX_RENEWALS_def MIN_LEASE_TTL_MS_def MAX_LEASE_TTL_MS_def
  MAX_LEASE_ABSOLUTE_LIFETIME_MS_def DEFAULT_LEASE_TTL_MS_def

text \<open>Lease epochs are not monotone across a failover: when the lease of a failed worker has expired, the
  next grant prunes it together with the epoch counter of its node, so the new worker receives epoch 1
  although the failed worker held epochs 1 and 2.\<close>

theorem lease_epoch_restarts:
  "let m1 = snd (grant_lease lease_manager_new ''e'' ''n'' ''w1'' 1000 0);
       m2 = snd (renew_lease m1 ''lease:e:n:w1'' 10)
   in map_option lease_epoch (map_of (lm_leases m2) ''lease:e:n:w1'') = Some 2 \<and>
      map_sum id lease_epoch (fst (grant_lease m2 ''e'' ''n'' ''w2'' 1000 5000)) = Inr 1"
  by (simp add: lease_evaluation)

text \<open>Exclusivity depends on the ids: the key of a lease joins execution, node and worker with colons, so
  with colons in the ids two different nodes share a key, the second grant overwrites the first
  worker's live lease and another worker is then granted the first node as well.\<close>

theorem lease_key_collision:
  "let m1 = snd (grant_lease lease_manager_new ''a:b'' ''c'' ''w1'' 1000 0);
       m2 = snd (grant_lease m1 ''a'' ''b:c'' ''w1'' 1000 1)
   in is_ok (fst (grant_lease m2 ''a:b'' ''c'' ''w2'' 1000 2))"
  by (simp add: lease_evaluation)

end
