(* ===== verification/Circuit_Breaker.thy ===== *)
theory Circuit_Breaker
  imports Interleaving
begin

text \<open>
  \<open>src/providers/circuit_breaker.rs\<close> and \<open>src/providers/circuit_breaking_provider.rs\<close>: the breaker
  in front of a provider. Instants are natural numbers (nanoseconds); the operations take the current
  one. The breaker's fields are separate atomics and locks, so \<open>can_execute\<close> is given both as the
  function one caller computes and as its sequence of accesses (\<open>ce_step\<close>).
\<close>

section \<open>Breaker\<close>

datatype circuit_state = Closed | Open | HalfOpen

record circuit_breaker =
  failure_threshold :: u32
  success_threshold :: u32
  cooldown_secs :: u64
  cb_state :: circuit_state
  failure_count :: u32
  success_count :: u32
  last_failure_time :: "nat option"
  probe_in_flight :: bool

definition circuit_breaker_new :: "u32 \<Rightarrow> u32 \<Rightarrow> u64 \<Rightarrow> circuit_breaker" where
  "circuit_breaker_new ft st cd =
    \<lparr>failure_threshold = ft, success_threshold = st, cooldown_secs = cd, cb_state = Closed,
     failure_count = 0, success_count = 0, last_failure_time = None, probe_in_flight = False\<rparr>"

definition cooled_down :: "circuit_breaker \<Rightarrow> nat \<Rightarrow> bool" where
  "cooled_down b now = (case last_failure_time b of
     Some last_failure \<Rightarrow> unat (cooldown_secs b) * 10 ^ 9 \<le> now - last_failure
   | None \<Rightarrow> False)"

definition can_execute :: "circuit_breaker \<Rightarrow> nat \<Rightarrow> bool \<times> circuit_breaker" where
  "can_execute b now = (case cb_state b of
     Closed \<Rightarrow> (True, b)
   | Open \<Rightarrow>
       if cooled_down b now
       then (True, b\<lparr>cb_state := HalfOpen, success_count := 0, probe_in_flight := True\<rparr>)
       else (False, b)
   | HalfOpen \<Rightarrow>
       if probe_in_flight b then (False, b) else (True, b\<lparr>probe_in_flight := True\<rparr>))"

definition record_success :: "circuit_breaker \<Rightarrow> circuit_breaker" where
  "record_success b = (case cb_state b of
     HalfOpen \<Rightarrow>
       (let count = success_count b + 1;
            b1 = b\<lparr>success_count := count\<rparr>;
            b2 = (if success_threshold b1 \<le> count then b1\<lparr>cb_state := Closed, failure_count := 0\<rparr> else b1)
        in b2\<lparr>probe_in_flight := False\<rparr>)
   | Closed \<Rightarrow> b\<lparr>failure_count := 0\<rparr>
   | Open \<Rightarrow> b)"

definition record_failure :: "circuit_breaker \<Rightarrow> nat \<Rightarrow> circuit_breaker" where
  "record_failure b now = (case cb_state b of
     HalfOpen \<Rightarrow> b\<lparr>cb_state := Open, last_failure_time := Some now, probe_in_flight := False\<rparr>
   | Closed \<Rightarrow>
       (let count = failure_count b + 1; b1 = b\<lparr>failure_count := count\<rparr>
        in if failure_threshold b1 \<le> count then b1\<lparr>cb_state := Open, last_failure_time := Some now\<rparr> else b1)
   | Open \<Rightarrow> b)"

definition update_thresholds :: "circuit_breaker \<Rightarrow> u32 \<Rightarrow> u64 \<Rightarrow> circuit_breaker" where
  "update_thresholds b ft cd = b\<lparr>failure_threshold := ft, cooldown_secs := cd\<rparr>"

definition breaker_reset :: "circuit_breaker \<Rightarrow> circuit_breaker" where
  "breaker_reset b = b\<lparr>cb_state := Closed, failure_count := 0, success_count := 0\<rparr>"

section \<open>Provider behind the breaker\<close>

datatype 'e provider_error = BreakerOpen string | InnerError 'e

definition cb_chat_completion ::
  "string \<Rightarrow> circuit_breaker \<Rightarrow> nat \<Rightarrow> nat \<Rightarrow> ('e + 'a) \<Rightarrow> ('e provider_error + 'a) \<times> circuit_breaker" where
  \<comment> \<open>called at \<open>now\<close>; the inner provider answers \<open>answer\<close> at \<open>later\<close>\<close>
  "cb_chat_completion pname b now later answer =
    (case can_execute b now of
       (False, b1) \<Rightarrow> (Inl (BreakerOpen pname), b1)
     | (True, b1) \<Rightarrow>
         (case answer of
            Inr response \<Rightarrow> (Inr response, record_success b1)
          | Inl e \<Rightarrow> (Inl (InnerError e), record_failure b1 later)))"

fun cb_consume :: "bool \<Rightarrow> (nat \<times> ('e + 'c)) list \<Rightarrow> circuit_breaker \<Rightarrow> circuit_breaker" where
  \<comment> \<open>the items of the wrapped stream that the client polled, each with its time\<close>
  "cb_consume saw_success [] b = b"
| "cb_consume saw_success ((now, Inr _) # items) b =
    cb_consume True items (if saw_success then b else record_success b)"
| "cb_consume saw_success ((now, Inl _) # items) b = cb_consume saw_success items (record_failure b now)"

definition cb_chat_stream ::
  "string \<Rightarrow> circuit_breaker \<Rightarrow> nat \<Rightarrow> nat \<Rightarrow> ('e + (nat \<times> ('e + 'c)) list) \<Rightarrow> ('e provider_error + unit) \<times> circuit_breaker" where
  "cb_chat_stream pname b now later answer =
    (case can_execute b now of
       (False, b1) \<Rightarrow> (Inl (BreakerOpen pname), b1)
     | (True, b1) \<Rightarrow>
         (case answer of
            Inr items \<Rightarrow> (Inr (), cb_consume False items b1)
          | Inl e \<Rightarrow> (Inl (InnerError e), record_failure b1 later)))"

section \<open>The accesses of one caller\<close>

datatype ce_pc = CeStart | CeSaw circuit_state | CeExpired | CeHalfOpened | CeCountCleared | CeReturned bool

record ce_caller =
  ce_now :: nat
  ce_pc :: ce_pc

fun ce_step :: "circuit_breaker \<Rightarrow> ce_caller \<Rightarrow> (circuit_breaker \<times> ce_caller) option" where
  "ce_step b c = (case ce_pc c of
     CeStart \<Rightarrow> Some (b, c\<lparr>ce_pc := CeSaw (cb_state b)\<rparr>)
   | CeSaw Closed \<Rightarrow> Some (b, c\<lparr>ce_pc := CeReturned True\<rparr>)
   | CeSaw Open \<Rightarrow> Some (b, c\<lparr>ce_pc := (if cooled_down b (ce_now c) then CeExpired else CeReturned False)\<rparr>)
   | CeSaw HalfOpen \<Rightarrow> Some (b\<lparr>probe_in_flight := True\<rparr>, c\<lparr>ce_pc := CeReturned (\<not> probe_in_flight b)\<rparr>)
   | CeExpired \<Rightarrow> Some (b\<lparr>cb_state := HalfOpen\<rparr>, c\<lparr>ce_pc := CeHalfOpened\<rparr>)
   | CeHalfOpened \<Rightarrow> Some (b\<lparr>success_count := 0\<rparr>, c\<lparr>ce_pc := CeCountCleared\<rparr>)
   | CeCountCleared \<Rightarrow> Some (b\<lparr>probe_in_flight := True\<rparr>, c\<lparr>ce_pc := CeReturned True\<rparr>)
   | CeReturned r \<Rightarrow> None)"

lemma ce_step_alone:
  "\<exists>schedule. run_schedule ce_step schedule (b, [\<lparr>ce_now = now, ce_pc = CeStart\<rparr>]) =
    (snd (can_execute b now), [\<lparr>ce_now = now, ce_pc = CeReturned (fst (can_execute b now))\<rparr>])"
proof (cases "cb_state b")
  case Closed
  then show ?thesis by (intro exI [of _ "[0, 0]"]) (simp add: can_execute_def)
next
  case HalfOpen
  then show ?thesis by (intro exI [of _ "[0, 0]"]) (auto simp: can_execute_def)
next
  case Open
  then show ?thesis
    by (intro exI [of _ "if cooled_down b now then [0, 0, 0, 0, 0] else [0, 0]"])
      (simp add: can_execute_def numeral_eq_Suc cooled_down_def)
qed

section \<open>When the breaker opens and closes\<close>

datatype report = Success | Failure nat

fun cb_report :: "report \<Rightarrow> circuit_breaker \<Rightarrow> circuit_breaker" where
  "cb_report Success b = record_success b"
| "cb_report (Failure now) b = record_failure b now"

definition is_failure :: "report \<Rightarrow> bool" where
  "is_failure r \<longleftrightarrow> r \<noteq> Success"

definition failure_streak :: "nat \<Rightarrow> report list \<Rightarrow> bool" where
  "failure_streak k rs \<longleftrightarrow> (\<exists>before streak after. rs = before @ streak @ after \<and> length streak = k \<and>
     list_all is_failure streak)"

definition trailing_failures :: "report list \<Rightarrow> nat" where
  "trailing_failures rs = length (takeWhile is_failure (rev rs))"

lemma trailing_snoc: "trailing_failures (rs @ [r]) = (if is_failure r then trailing_failures rs + 1 else 0)"
  by (simp add: trailing_failures_def)

lemma failure_streak_snoc:
  "failure_streak k (rs @ [r]) \<longleftrightarrow> failure_streak k rs \<or> k \<le> trailing_failures (rs @ [r])"
proof
  assume "failure_streak k (rs @ [r])"
  then obtain before streak after where s: "rs @ [r] = before @ streak @ after" "length streak = k"
    "list_all is_failure streak"
    by (auto simp: failure_streak_def)
  show "failure_streak k rs \<or> k \<le> trailing_failures (rs @ [r])"
  proof (cases after rule: rev_cases)
    case Nil
    then have "rev (rs @ [r]) = rev streak @ rev before"
      using s(1) by simp
    then have "trailing_failures (rs @ [r]) = length (takeWhile is_failure (rev streak @ rev before))"
      by (simp only: trailing_failures_def)
    also have "\<dots> = k + length (takeWhile is_failure (rev before))"
      using s(2,3) by (subst takeWhile_append2) (auto simp: list_all_iff)
    finally show ?thesis by simp
  next
    case (snoc after' x)
    then have "rs = before @ streak @ after'"
      using s(1) by simp
    then show ?thesis
      using s(2,3) by (auto simp: failure_streak_def)
  qed
next
  assume "failure_streak k rs \<or> k \<le> trailing_failures (rs @ [r])"
  then show "failure_streak k (rs @ [r])"
  proof
    assume "failure_streak k rs"
    then obtain before streak after where "rs = before @ streak @ after" "length streak = k" "list_all is_failure streak"
      by (auto simp: failure_streak_def)
    then show ?thesis
      unfolding failure_streak_def by (intro exI [of _ before] exI [of _ streak] exI [of _ "after @ [r]"]) simp
  next
    let ?xs = "rs @ [r]"
    assume k: "k \<le> trailing_failures ?xs"
    have len: "trailing_failures ?xs \<le> length ?xs"
      unfolding trailing_failures_def by (metis length_rev length_takeWhile_le)
    have "set (take k (rev ?xs)) \<subseteq> set (takeWhile is_failure (rev ?xs))"
      using k unfolding trailing_failures_def
      by (metis set_take_subset_set_take takeWhile_eq_take)
    then have "list_all is_failure (take k (rev ?xs))"
      by (auto simp: list_all_iff dest!: subsetD set_takeWhileD)
    then have "list_all is_failure (drop (length ?xs - k) ?xs)"
      by (simp only: take_rev list_all_iff set_rev)
    moreover have "length (drop (length ?xs - k) ?xs) = k"
      using k len by simp
    moreover have "?xs = take (length ?xs - k) ?xs @ drop (length ?xs - k) ?xs @ []"
      by (simp only: append_take_drop_id append_Nil2)
    ultimately show ?thesis
      unfolding failure_streak_def by blast
  qed
qed

lemma breaker_reports:
  fixes ft st :: u32 and cd :: u64
  assumes "1 \<le> unat ft"
  defines "b \<equiv> (\<lambda>rs. fold cb_report rs (circuit_breaker_new ft st cd))"
  shows "failure_threshold (b rs) = ft \<and>
    (if failure_streak (unat ft) rs then cb_state (b rs) = Open
     else cb_state (b rs) = Closed \<and> unat (failure_count (b rs)) = trailing_failures rs \<and>
       trailing_failures rs < unat ft)"
proof (induction rs rule: rev_induct)
  case Nil
  have "\<not> failure_streak (unat ft) []"
    using assms(1) by (auto simp: failure_streak_def)
  then show ?case
    using assms(1) by (simp add: b_def circuit_breaker_new_def trailing_failures_def)
next
  case (snoc r rs)
  have step: "b (rs @ [r']) = cb_report r' (b rs)" for r'
    by (simp add: b_def)
  show ?case
  proof (cases "failure_streak (unat ft) rs")
    case True
    then show ?thesis
      using snoc by (cases r) (simp_all add: step failure_streak_snoc record_success_def record_failure_def)
  next
    case False
    then have b: "failure_threshold (b rs) = ft" "cb_state (b rs) = Closed"
      "unat (failure_count (b rs)) = trailing_failures rs" "trailing_failures rs < unat ft"
      using snoc by simp_all
    show ?thesis
    proof (cases r)
      case Success
      then show ?thesis
        using False b assms(1)
        by (simp add: step failure_streak_snoc trailing_snoc is_failure_def record_success_def)
    next
      case (Failure now)
      have "unat (failure_count (b rs) + 1) = trailing_failures rs + 1"
        using b(3,4) unat_le_max [of ft] by (simp add: unat_word_ariths)
      then show ?thesis
        using False b Failure
        by (auto simp: step failure_streak_snoc trailing_snoc is_failure_def record_failure_def word_le_nat_alt Let_def)
    qed
  qed
qed

text \<open>C31. The breaker opens exactly when it should: after any sequence of reported successes and failures on a
  fresh breaker with a threshold of at least one, it is open if and only if the sequence contains
  threshold many failures in a row, and closed otherwise.\<close>

theorem breaker_opens_exactly:
  assumes "1 \<le> unat ft"
  shows "cb_state (fold cb_report rs (circuit_breaker_new ft st cd)) =
    (if failure_streak (unat ft) rs then Open else Closed)"
  using breaker_reports [OF assms, of rs st cd] by (auto split: if_splits)

theorem breaker_opens_exactly_witness:
  "cb_state (fold cb_report [Failure 1, Success, Failure 2, Failure 3] (circuit_breaker_new 2 1 30)) = Open"
proof -
  have "failure_streak 2 [Failure 1, Success, Failure 2, Failure 3]"
    unfolding failure_streak_def
    by (intro exI [of _ "[Failure 1, Success]"] exI [of _ "[Failure 2, Failure 3]"] exI [of _ "[]"])
      (simp add: is_failure_def)
  then show ?thesis
    using breaker_opens_exactly [of 2 "[Failure 1, Success, Failure 2, Failure 3]" 1 30] by simp
qed

section \<open>Recovery, and what prevents it\<close>

fun probes :: "nat list \<Rightarrow> circuit_breaker \<Rightarrow> circuit_breaker option" where
  "probes [] b = Some b"
| "probes (now # instants) b = (case can_execute b now of
     (True, b1) \<Rightarrow> probes instants (record_success b1) | (False, _) \<Rightarrow> None)"

lemma half_open_probes:
  assumes "cb_state b = HalfOpen" and "\<not> probe_in_flight b"
    and "unat (success_count b) + length instants = unat (success_threshold b)" and "instants \<noteq> []"
  shows "\<exists>b'. probes instants b = Some b' \<and> cb_state b' = Closed \<and> failure_count b' = 0"
  using assms
proof (induction instants arbitrary: b)
  case step: (Cons now instants)
  let ?b = "record_success (b\<lparr>probe_in_flight := True\<rparr>)"
  have p: "probes (now # instants) b = probes instants ?b"
    using step.prems by (simp add: can_execute_def)
  have count: "unat (success_count b + 1) = unat (success_count b) + 1"
    using step.prems(3) unat_le_max [of "success_threshold b"] by (simp add: unat_word_ariths)
  show ?case
  proof (cases instants)
    case Nil
    then have "success_threshold b \<le> success_count b + 1"
      using step.prems(3) count by (simp add: word_le_nat_alt)
    then show ?thesis
      using step.prems(1) by (simp add: Nil p record_success_def can_execute_def step.prems(2))
  next
    case (Cons t ts)
    have "\<not> success_threshold b \<le> success_count b + 1"
      using step.prems(3) count Cons by (simp add: word_le_nat_alt)
    then show ?thesis
      unfolding p using step.prems count Cons by (intro step.IH) (simp_all add: record_success_def Let_def)
  qed
qed simp

text \<open>C32. Recovery: an open breaker whose cooldown has passed admits the next request as a probe, and success
  threshold many probes that succeed, one after the other, close it with a clean failure count.\<close>

theorem breaker_recovers:
  assumes "cb_state b = Open" and "cooled_down b now" and "unat (success_threshold b) = Suc (length instants)"
  shows "\<exists>b'. probes (now # instants) b = Some b' \<and> cb_state b' = Closed \<and> failure_count b' = 0"
proof -
  let ?b = "b\<lparr>cb_state := HalfOpen, success_count := 0, probe_in_flight := False\<rparr>"
  have "probes (now # instants) b = probes (now # instants) ?b"
    using assms(1,2) by (simp add: can_execute_def)
  then show ?thesis
    using half_open_probes [of ?b "now # instants"] assms(3) by simp
qed

definition demo_tripped :: circuit_breaker where
  "demo_tripped = fold cb_report [Failure 5, Failure 6] (circuit_breaker_new 2 2 1)"

lemma demo_tripped_eval:
  "demo_tripped = \<lparr>failure_threshold = 2, success_threshold = 2, cooldown_secs = 1, cb_state = Open,
     failure_count = 2, success_count = 0, last_failure_time = Some 6, probe_in_flight = False\<rparr>"
  by (simp add: demo_tripped_def circuit_breaker_new_def record_failure_def Let_def word_le_nat_alt)

theorem breaker_recovers_witness:
  "\<exists>b'. probes [2000000000, 2000000001] demo_tripped = Some b' \<and> cb_state b' = Closed \<and> failure_count b' = 0"
  by (rule breaker_recovers)
    (simp_all add: demo_tripped_eval cooled_down_def)

text \<open>A probe that is never reported locks the provider out: when the request admitted by an expired
  breaker is answered by a stream from which the client polls nothing, the breaker stays half open with its
  probe outstanding, and every later request at whatever time is refused without changing that state.\<close>

theorem abandoned_probe_locks_out:
  assumes "cb_state b = Open" and "cooled_down b now"
  shows "\<exists>b'. cb_chat_stream pname b now later (Inr []) = (Inr (), b') \<and>
    (\<forall>now' later'. cb_chat_completion pname b' now' later' answer = (Inl (BreakerOpen pname), b') \<and>
       cb_chat_stream pname b' now' later' items = (Inl (BreakerOpen pname), b'))"
  using assms by (simp add: cb_chat_stream_def cb_chat_completion_def can_execute_def)

theorem abandoned_probe_locks_out_witness:
  "\<exists>b'. cb_chat_stream ''p'' demo_tripped 2000000000 2000000001 (Inr []) = (Inr (), b') \<and>
    (\<forall>now' later'. cb_chat_completion ''p'' b' now' later' (Inr True :: string + bool) = (Inl (BreakerOpen ''p''), b') \<and>
       cb_chat_stream ''p'' b' now' later' (Inr [(9, Inr CHR ''x'')]) = (Inl (BreakerOpen ''p''), b'))"
  by (rule abandoned_probe_locks_out)
    (simp_all add: demo_tripped_eval cooled_down_def)

text \<open>Two probes at once: when the cooldown of an open breaker has passed for two concurrent requests,
  there is an interleaving of their accesses in which both are admitted, although a half-open breaker is
  meant to let a single probe through.\<close>

theorem two_probes_admitted:
  assumes "cb_state b = Open" and "cooled_down b now" and "cooled_down b now'"
  shows "\<exists>b'. interleave_steps ce_step
      (b, [\<lparr>ce_now = now, ce_pc = CeStart\<rparr>, \<lparr>ce_now = now', ce_pc = CeStart\<rparr>])
      (b', [\<lparr>ce_now = now, ce_pc = CeReturned True\<rparr>, \<lparr>ce_now = now', ce_pc = CeReturned True\<rparr>])"
proof -
  let ?s = "(b, [\<lparr>ce_now = now, ce_pc = CeStart\<rparr>, \<lparr>ce_now = now', ce_pc = CeStart\<rparr>])"
  have "\<exists>b'. run_schedule ce_step [0, 0, 1, 1, 0, 0, 0, 1, 1, 1] ?s =
      (b', [\<lparr>ce_now = now, ce_pc = CeReturned True\<rparr>, \<lparr>ce_now = now', ce_pc = CeReturned True\<rparr>])"
    using assms by (simp add: cooled_down_def split: option.splits)
  then show ?thesis
    using run_schedule_steps [of ce_step ?s "[0, 0, 1, 1, 0, 0, 0, 1, 1, 1]"] by auto
qed

theorem two_probes_admitted_witness:
  "\<exists>b'. interleave_steps ce_step
      (demo_tripped, [\<lparr>ce_now = 2000000000, ce_pc = CeStart\<rparr>, \<lparr>ce_now = 2000000001, ce_pc = CeStart\<rparr>])
      (b', [\<lparr>ce_now = 2000000000, ce_pc = CeReturned True\<rparr>, \<lparr>ce_now = 2000000001, ce_pc = CeReturned True\<rparr>])"
  by (rule two_probes_admitted)
    (simp_all add: demo_tripped_eval cooled_down_def)

end
