(* ===== verification/Topo_Sort.thy ===== *)
theory Topo_Sort
  imports Graph_Search "HOL-Library.AList"
begin

text \<open>
  Kahn's algorithm as \<open>crates/fusion-kernel/src/capability/graph.rs\<close> runs it: a map of in-degrees, a
  first-in first-out queue, and one decrement per edge of the popped node. The in-degree map is an
  association list in its iteration order. A decrement below zero is the result \<open>None\<close>; the lemmas show
  that it does not occur, that every order the algorithm returns is topological, and that it returns an
  order of all nodes exactly for acyclic graphs.
\<close>

section \<open>The algorithm\<close>

fun relax :: "'a list \<Rightarrow> ('a \<times> nat) list \<Rightarrow> 'a list \<Rightarrow> (('a \<times> nat) list \<times> 'a list) option" where
  "relax [] deg queue = Some (deg, queue)"
| "relax (neighbor # neighbors) deg queue =
    (case map_of deg neighbor of
       None \<Rightarrow> relax neighbors deg queue
     | Some 0 \<Rightarrow> None
     | Some (Suc d) \<Rightarrow>
         relax neighbors (AList.update neighbor d deg) (if d = 0 then queue @ [neighbor] else queue))"

lemma sum_update:
  "map_of deg n = Some d \<Longrightarrow>
    sum_list (map snd (AList.update n d' deg)) + d = sum_list (map snd deg) + (d' :: nat)"
  by (induction deg) auto

lemma relax_smaller:
  "relax ns deg queue = Some (deg', queue') \<Longrightarrow>
    sum_list (map snd deg') + length queue' \<le> sum_list (map snd deg) + length queue"
proof (induction ns deg queue rule: relax.induct)
  case (2 n ns deg queue)
  show ?case
  proof (cases "map_of deg n")
    case None
    then show ?thesis using 2 by simp
  next
    case (Some d0)
    then obtain d where d: "d0 = Suc d"
      using 2(3) by (cases d0) auto
    then show ?thesis
      using 2(2) [OF Some d] 2(3) sum_update [of deg n "Suc d" d] Some by (simp split: if_splits)
  qed
qed simp

function kahn :: "('a \<times> 'a) list \<Rightarrow> 'a list \<Rightarrow> ('a \<times> nat) list \<Rightarrow> 'a list \<Rightarrow> 'a list option" where
  "kahn es [] deg order = Some order"
| "kahn es (cur # queue) deg order =
    (case relax (succs es cur) deg queue of
       None \<Rightarrow> None
     | Some (deg', queue') \<Rightarrow> kahn es queue' deg' (order @ [cur]))"
  by pat_completeness auto

termination
  by (relation "measure (\<lambda>(es, queue, deg, order). sum_list (map snd deg) + length queue)")
    (auto dest: relax_smaller)

definition in_degrees :: "('a \<times> 'a) list \<Rightarrow> 'a list \<Rightarrow> ('a \<times> nat) list" where
  "in_degrees es keys = map (\<lambda>k. (k, length (filter (\<lambda>e. snd e = k) es))) keys"

definition kahn_order :: "('a \<times> 'a) list \<Rightarrow> 'a list \<Rightarrow> 'a list option" where
  "kahn_order es keys =
    (let deg = in_degrees es keys in kahn es (map fst (filter (\<lambda>kd. snd kd = 0) deg)) deg [])"

section \<open>One step\<close>

lemma relax_spec:
  assumes "\<forall>y\<in>set ns. \<exists>d. map_of deg y = Some d \<and> count_list ns y \<le> d"
  shows "\<exists>deg' new. relax ns deg queue = Some (deg', queue @ new) \<and>
    (\<forall>y. map_of deg' y = map_option (\<lambda>d. d - count_list ns y) (map_of deg y)) \<and>
    distinct new \<and> set new = {y \<in> set ns. map_of deg y = Some (count_list ns y)}"
  using assms
proof (induction ns arbitrary: deg queue)
  case Nil
  then show ?case by (intro exI [of _ deg] exI [of _ "[]"]) (auto simp: option.map_ident)
next
  case (Cons n ns)
  obtain d where d: "map_of deg n = Some (Suc d)" "count_list ns n \<le> d"
    using bspec [OF Cons.prems, of n] by (auto dest: Suc_le_D)
  define deg1 where "deg1 = AList.update n d deg"
  define first where "first = (if d = 0 then [n] else [])"
  have deg1: "map_of deg1 y = (if y = n then Some d else map_of deg y)" for y
    by (simp add: deg1_def AList.update_conv')
  have "\<exists>d'. map_of deg1 y = Some d' \<and> count_list ns y \<le> d'" if "y \<in> set ns" for y
    using bspec [OF Cons.prems, of y] d that by (cases "y = n") (simp_all add: deg1)
  then have "\<forall>y\<in>set ns. \<exists>d'. map_of deg1 y = Some d' \<and> count_list ns y \<le> d'" ..
  from Cons.IH [OF this, of "queue @ first"] obtain deg' new where
    IH: "relax ns deg1 (queue @ first) = Some (deg', (queue @ first) @ new)"
    "\<forall>y. map_of deg' y = map_option (\<lambda>d. d - count_list ns y) (map_of deg1 y)" "distinct new"
    "set new = {y \<in> set ns. map_of deg1 y = Some (count_list ns y)}"
    by (elim exE conjE)
  have "relax (n # ns) deg queue = relax ns deg1 (queue @ first)"
    using d(1) by (simp add: deg1_def first_def)
  then have "relax (n # ns) deg queue = Some (deg', queue @ (first @ new))"
    using IH(1) by simp
  moreover have "map_of deg' y = map_option (\<lambda>d. d - count_list (n # ns) y) (map_of deg y)" for y
    using IH(2) [rule_format, of y] d(1) by (cases "y = n") (simp_all add: deg1)
  moreover have n: "n \<notin> set ns" if "d = 0"
    using d(2) that by (simp add: count_list_0_iff)
  have "n \<notin> set new" if "d = 0"
    using IH(4) n [OF that] by simp
  then have "distinct (first @ new)"
    using IH(3) by (simp add: first_def)
  moreover have "y \<in> set (first @ new) \<longleftrightarrow>
      y \<in> set (n # ns) \<and> map_of deg y = Some (count_list (n # ns) y)" for y
  proof (cases "y = n")
    case True
    have "n \<in> set new \<longleftrightarrow> n \<in> set ns \<and> d = count_list ns n"
      using IH(4) by (simp add: deg1)
    moreover have "n \<in> set first \<longleftrightarrow> d = 0"
      by (simp add: first_def)
    moreover have "n \<notin> set ns \<longleftrightarrow> count_list ns n = 0"
      by (simp add: count_list_0_iff)
    ultimately show ?thesis
      using d True by (cases "n \<in> set ns") simp_all
  next
    case False
    then show ?thesis
      using IH(4) by (simp add: deg1 first_def)
  qed
  ultimately show ?case
    by (intro exI [of _ deg'] exI [of _ "first @ new"]) blast
qed

section \<open>The invariant\<close>

definition open_in :: "('a \<times> 'a) list \<Rightarrow> 'a list \<Rightarrow> 'a \<Rightarrow> nat" where
  "open_in es order y = length (filter (\<lambda>e. snd e = y \<and> fst e \<notin> set order) es)"

definition ordered :: "('a \<times> 'a) set \<Rightarrow> 'a list \<Rightarrow> bool" where
  "ordered r xs \<longleftrightarrow> (\<forall>before y after. xs = before @ y # after \<longrightarrow> (\<forall>x. (x, y) \<in> r \<longrightarrow> x \<in> set before))"

definition kahn_inv :: "('a \<times> 'a) list \<Rightarrow> 'a set \<Rightarrow> 'a list \<Rightarrow> ('a \<times> nat) list \<Rightarrow> 'a list \<Rightarrow> bool" where
  "kahn_inv es keys queue deg order \<longleftrightarrow>
    (\<forall>y. map_of deg y = (if y \<in> keys then Some (open_in es order y) else None)) \<and>
    distinct (order @ queue) \<and> set (order @ queue) = {y \<in> keys. open_in es order y = 0} \<and>
    ordered (set es) order"

lemma count_succs: "count_list (succs es x) y = length (filter (\<lambda>e. snd e = y \<and> fst e = x) es)"
  by (induction es) (auto simp: succs_def)

lemma open_in_append:
  assumes "x \<notin> set order"
  shows "open_in es order y = open_in es (order @ [x]) y + count_list (succs es x) y"
  using assms unfolding count_succs open_in_def by (induction es) auto

lemma open_in_0: "open_in es order y = 0 \<longleftrightarrow> (\<forall>x. (x, y) \<in> set es \<longrightarrow> x \<in> set order)"
  by (auto simp: open_in_def filter_empty_conv)

lemma ordered_snoc:
  "ordered r (xs @ [y]) \<longleftrightarrow> ordered r xs \<and> (\<forall>x. (x, y) \<in> r \<longrightarrow> x \<in> set xs)"
  (is "?l \<longleftrightarrow> ?r")
proof
  assume l: ?l
  have "ordered r xs"
    unfolding ordered_def
  proof (intro allI impI)
    fix before z after x
    assume "xs = before @ z # after" "(x, z) \<in> r"
    then show "x \<in> set before"
      using l unfolding ordered_def by (metis append.assoc append_Cons)
  qed
  then show ?r
    using l unfolding ordered_def by blast
next
  assume r: ?r
  show ?l
    unfolding ordered_def
  proof (intro allI impI)
    fix before z after x
    assume z: "xs @ [y] = before @ z # after" "(x, z) \<in> r"
    show "x \<in> set before"
    proof (cases after rule: rev_cases)
      case Nil
      then show ?thesis using r z by simp
    next
      case (snoc after' w)
      then have "xs = before @ z # after'" using z(1) by simp
      then show ?thesis using r z(2) unfolding ordered_def by blast
    qed
  qed
qed

lemma kahn_inv_step:
  assumes inv: "kahn_inv es keys (cur # queue) deg order" and sub: "set es \<subseteq> keys \<times> keys"
  shows "\<exists>deg' queue'. relax (succs es cur) deg queue = Some (deg', queue') \<and>
    kahn_inv es keys queue' deg' (order @ [cur])"
proof -
  have cur: "cur \<notin> set order" "cur \<in> keys" "open_in es order cur = 0"
    and dist: "distinct (order @ cur # queue)"
    and queued: "set (order @ cur # queue) = {y \<in> keys. open_in es order y = 0}"
    and deg: "\<And>y. map_of deg y = (if y \<in> keys then Some (open_in es order y) else None)"
    and ord: "ordered (set es) order"
    using inv by (auto simp: kahn_inv_def)
  note split = open_in_append [OF cur(1)]
  have succ: "y \<in> keys" if "y \<in> set (succs es cur)" for y
    using that sub by auto
  have "\<forall>y\<in>set (succs es cur). \<exists>d. map_of deg y = Some d \<and> count_list (succs es cur) y \<le> d"
  proof
    fix y
    assume "y \<in> set (succs es cur)"
    then show "\<exists>d. map_of deg y = Some d \<and> count_list (succs es cur) y \<le> d"
      using succ split [of es y] by (simp add: deg)
  qed
  from relax_spec [OF this, of queue] obtain deg' new where
    relax: "relax (succs es cur) deg queue = Some (deg', queue @ new)"
    and deg': "\<And>y. map_of deg' y = map_option (\<lambda>d. d - count_list (succs es cur) y) (map_of deg y)"
    and new: "distinct new"
      "set new = {y \<in> set (succs es cur). map_of deg y = Some (count_list (succs es cur) y)}"
    by blast
  have new_set: "set new = {y \<in> keys. open_in es order y \<noteq> 0 \<and> open_in es (order @ [cur]) y = 0}"
  proof (intro set_eqI iffI)
    fix y
    assume "y \<in> set new"
    then have y: "y \<in> set (succs es cur)" "y \<in> keys" "open_in es order y = count_list (succs es cur) y"
      using new(2) deg succ by (auto split: if_splits)
    then have "count_list (succs es cur) y \<noteq> 0"
      by (simp add: count_list_0_iff)
    then show "y \<in> {y \<in> keys. open_in es order y \<noteq> 0 \<and> open_in es (order @ [cur]) y = 0}"
      using y split [of es y] by simp
  next
    fix y
    assume y: "y \<in> {y \<in> keys. open_in es order y \<noteq> 0 \<and> open_in es (order @ [cur]) y = 0}"
    then have "count_list (succs es cur) y \<noteq> 0" "open_in es order y = count_list (succs es cur) y"
      using split [of es y] by auto
    then show "y \<in> set new"
      using y new(2) deg by (auto simp: count_list_0_iff)
  qed
  have "kahn_inv es keys (queue @ new) deg' (order @ [cur])"
    unfolding kahn_inv_def
  proof (intro conjI)
    show "\<forall>y. map_of deg' y = (if y \<in> keys then Some (open_in es (order @ [cur]) y) else None)"
      using split by (auto simp: deg' deg)
    show "distinct ((order @ [cur]) @ queue @ new)"
      using dist new(1) queued by (auto simp: new_set)
    have "set ((order @ [cur]) @ queue @ new) = {y \<in> keys. open_in es order y = 0} \<union> set new"
      using queued by auto
    also have "\<dots> = {y \<in> keys. open_in es (order @ [cur]) y = 0}"
      using split by (auto simp: new_set)
    finally show "set ((order @ [cur]) @ queue @ new) = {y \<in> keys. open_in es (order @ [cur]) y = 0}" .
    show "ordered (set es) (order @ [cur])"
      using ord cur(3) by (simp add: ordered_snoc open_in_0)
  qed
  then show ?thesis
    using relax by blast
qed

lemma kahn_returns:
  assumes "kahn_inv es keys queue deg order" and "set es \<subseteq> keys \<times> keys"
  shows "\<exists>order' deg'. kahn es queue deg order = Some order' \<and> kahn_inv es keys [] deg' order'"
  using assms
proof (induction es queue deg order rule: kahn.induct)
  case (2 es cur queue deg order)
  from kahn_inv_step [OF 2(2,3)] obtain deg' queue' where
    "relax (succs es cur) deg queue = Some (deg', queue')" "kahn_inv es keys queue' deg' (order @ [cur])"
    by blast
  then show ?case
    using 2(1) [OF _ refl, of deg' queue'] 2(3) by auto
qed auto

section \<open>The result\<close>

lemma ordered_acyclic:
  assumes "ordered r xs" and "distinct xs" and "r \<subseteq> set xs \<times> set xs"
  shows "acyclic r"
proof -
  have before: "x \<in> set before" if "(x, y) \<in> r\<^sup>+" "xs = before @ y # after" for x y before after
    using that
  proof (induction arbitrary: before after rule: trancl_induct)
    case (base y)
    then show ?case using assms(1) unfolding ordered_def by blast
  next
    case (step y z)
    then have "y \<in> set before" using assms(1) unfolding ordered_def by blast
    then obtain b a where "before = b @ y # a" by (auto dest: split_list)
    then show ?case using step.IH [of b "a @ z # after"] step.prems by simp
  qed
  show ?thesis
    unfolding acyclic_def
  proof (intro allI notI)
    fix x
    assume x: "(x, x) \<in> r\<^sup>+"
    then have "x \<in> set xs"
      using assms(3) by (auto elim: tranclE)
    then obtain b a where "xs = b @ x # a" by (auto dest: split_list)
    then show False using before [OF x] assms(2) by auto
  qed
qed

lemma acyclic_exhausted:
  assumes "acyclic r" and "finite r" and "fin \<subseteq> keys"
    and "\<And>y. y \<in> keys \<Longrightarrow> (\<And>x. (x, y) \<in> r \<Longrightarrow> x \<in> fin) \<Longrightarrow> y \<in> fin" and "r \<subseteq> keys \<times> keys"
  shows "fin = keys"
proof (rule ccontr)
  assume "fin \<noteq> keys"
  then obtain y where "y \<in> keys - fin" using assms(3) by auto
  then obtain z where "z \<in> keys - fin" "\<And>x. (x, z) \<in> r \<Longrightarrow> x \<notin> keys - fin"
    using wfE_min [OF finite_acyclic_wf [OF assms(2,1)]] by metis
  then show False using assms(4) [of z] assms(5) by auto
qed

lemma kahn_order_correct:
  assumes "distinct keys" and sub: "set es \<subseteq> set keys \<times> set keys"
  obtains order where "kahn_order es keys = Some order" and "ordered (set es) order" and "distinct order"
    and "set order \<subseteq> set keys" and "length order = length keys \<longleftrightarrow> acyclic (set es)"
proof -
  let ?deg = "in_degrees es keys" and ?queue = "map fst (filter (\<lambda>kd. snd kd = 0) (in_degrees es keys))"
  have deg: "map_of ?deg y = (if y \<in> set keys then Some (open_in es [] y) else None)" for y
    unfolding in_degrees_def open_in_def by (induction keys) auto
  have "set ?queue = {y \<in> set keys. open_in es [] y = 0}"
    by (auto simp: in_degrees_def open_in_def image_iff)
  moreover have "distinct ?queue"
    using assms(1) by (simp add: in_degrees_def filter_map comp_def)
  ultimately have "kahn_inv es (set keys) ?queue ?deg []"
    using deg by (simp add: kahn_inv_def ordered_def)
  from kahn_returns [OF this sub] obtain order deg' where
    run: "kahn_order es keys = Some order" and inv: "kahn_inv es (set keys) [] deg' order"
    by (auto simp: kahn_order_def Let_def)
  have o: "ordered (set es) order" "distinct order" "set order = {y \<in> set keys. open_in es order y = 0}"
    using inv by (simp_all add: kahn_inv_def)
  have "length order = length keys \<longleftrightarrow> set order = set keys"
    using o(2,3) assms(1) by (metis (no_types, lifting) card_subset_eq distinct_card finite_set mem_Collect_eq subsetI)
  also have "\<dots> \<longleftrightarrow> acyclic (set es)"
  proof
    assume "set order = set keys"
    then show "acyclic (set es)" using ordered_acyclic [OF o(1,2)] sub by simp
  next
    assume "acyclic (set es)"
    then show "set order = set keys"
      using o(3) sub by (intro acyclic_exhausted) (auto simp: open_in_0)
  qed
  finally show ?thesis
    using that run o by blast
qed

end
