(* ===== verification/Capability.thy ===== *)
theory Capability
  imports Topo_Sort Json Monetary
begin

text \<open>
  Capabilities: the permission model and the contract of \<open>crates/fusion-plugin-api/src/lib.rs\<close>, the
  dependency graph of \<open>crates/fusion-kernel/src/capability/graph.rs\<close> and the in-memory registry of
  \<open>crates/fusion-kernel/src/capability/registry.rs\<close>. The type of versions (\<open>semver::Version\<close>) is a
  type parameter. Hash maps are maps in key order; where the source iterates over one, the iteration
  order is a parameter that permutes the keys (\<open>iterates_all\<close>).
\<close>

section \<open>Permissions\<close>

type_synonym capability_id = string

datatype permission =
  Network | Filesystem string | Http string | Secrets string | Environment string

datatype permission_error = EmptyArgument

definition permission_error_text :: "permission_error \<Rightarrow> string" where
  "permission_error_text e = ''permission argument must not be empty''"

fun permission_validate :: "permission \<Rightarrow> permission_error + unit" where
  "permission_validate Network = Inr ()"
| "permission_validate (Filesystem path) = (if path = [] then Inl EmptyArgument else Inr ())"
| "permission_validate (Http endpoint) = (if endpoint = [] \<or> endpoint = ''*'' then Inl EmptyArgument else Inr ())"
| "permission_validate (Secrets name) = (if name = [] \<or> name = ''*'' then Inl EmptyArgument else Inr ())"
| "permission_validate (Environment name) = (if name = [] \<or> name = ''*'' then Inl EmptyArgument else Inr ())"

fun permission_display :: "permission \<Rightarrow> string" where
  "permission_display Network = ''Network''"
| "permission_display (Filesystem path) = ''Filesystem('' @ path @ '')''"
| "permission_display (Http endpoint) = ''Http('' @ endpoint @ '')''"
| "permission_display (Secrets name) = ''Secrets('' @ name @ '')''"
| "permission_display (Environment name) = ''Environment('' @ name @ '')''"

definition argument_of :: "string \<Rightarrow> string \<Rightarrow> string option" where
  "argument_of variant s = Option.bind (strip_prefix (variant @ ''('') s) (strip_suffix '')'')"

definition permission_from_str :: "string \<Rightarrow> string + permission" where
  "permission_from_str s =
    (case argument_of ''Filesystem'' s of Some arg \<Rightarrow> Inr (Filesystem arg) | None \<Rightarrow>
     case argument_of ''Http'' s of Some arg \<Rightarrow> Inr (Http arg) | None \<Rightarrow>
     case argument_of ''Secrets'' s of Some arg \<Rightarrow> Inr (Secrets arg) | None \<Rightarrow>
     case argument_of ''Environment'' s of Some arg \<Rightarrow> Inr (Environment arg) | None \<Rightarrow>
     if s = ''Network'' then Inr Network else Inl (''unknown permission variant: '' @ s))"

fun broad_grant :: "permission list \<Rightarrow> permission option" where
  "broad_grant [] = None"
| "broad_grant (p # perms) =
    (case p of
       Http s \<Rightarrow> if s = [] \<or> s = ''*'' then Some p else broad_grant perms
     | Secrets s \<Rightarrow> if s = [] \<or> s = ''*'' then Some p else broad_grant perms
     | Environment s \<Rightarrow> if s = [] \<or> s = ''*'' then Some p else broad_grant perms
     | _ \<Rightarrow> broad_grant perms)"

section \<open>Contracts\<close>

datatype capability_trait =
  Streaming | LongContext | StructuredOutput | LowLatency | DeterministicOutput | ComputerUse

record 'v capability_contract =
  cc_id :: capability_id
  cc_version :: 'v
  cc_description :: string
  inputs_schema :: json
  outputs_schema :: json
  permissions :: "permission list"
  dependencies :: "capability_id list"
  cc_estimated_cost :: nano_usd
  estimated_latency_ms :: u64
  reliability_score :: u32
  supports_streaming :: bool
  traits :: "capability_trait list"

record 'v capability_instance =
  ci_contract :: "'v capability_contract"
  runtime_params :: json

section \<open>Dependency graph\<close>

record dependency_edge =
  de_from :: capability_id
  de_to :: capability_id

record conflict_edge =
  capability_a :: capability_id
  capability_b :: capability_id

record 'v capability_graph =
  cg_nodes :: "'v capability_contract btree"
  cg_dependencies :: "dependency_edge list"
  cg_conflicts :: "conflict_edge list"

definition capability_graph_new :: "'v capability_graph" where
  "capability_graph_new = \<lparr>cg_nodes = [], cg_dependencies = [], cg_conflicts = []\<rparr>"

definition cg_add_node :: "'v capability_contract \<Rightarrow> 'v capability_graph \<Rightarrow> 'v capability_graph" where
  "cg_add_node contract g = g\<lparr>cg_nodes := bt_insert (cc_id contract) contract (cg_nodes g)\<rparr>"

definition add_dependency :: "capability_id \<Rightarrow> capability_id \<Rightarrow> 'v capability_graph \<Rightarrow> 'v capability_graph" where
  "add_dependency from to g = g\<lparr>cg_dependencies := cg_dependencies g @ [\<lparr>de_from = from, de_to = to\<rparr>]\<rparr>"

definition add_conflict :: "capability_id \<Rightarrow> capability_id \<Rightarrow> 'v capability_graph \<Rightarrow> 'v capability_graph" where
  "add_conflict a b g = g\<lparr>cg_conflicts := cg_conflicts g @ [\<lparr>capability_a = a, capability_b = b\<rparr>]\<rparr>"

definition present_edges :: "'v capability_graph \<Rightarrow> (capability_id \<times> capability_id) list" where
  "present_edges g = map (\<lambda>dep. (de_to dep, de_from dep))
    (filter (\<lambda>dep. bt_contains (cg_nodes g) (de_from dep) \<and> bt_contains (cg_nodes g) (de_to dep))
      (cg_dependencies g))"

definition topological_sort ::
  "(capability_id list \<Rightarrow> capability_id list) \<Rightarrow> 'v capability_graph \<Rightarrow> string + capability_id list" where
  \<comment> \<open>the overflow message stands for the panic of \<open>*deg -= 1\<close> at zero\<close>
  "topological_sort order g =
    (case kahn_order (present_edges g) (order (map fst (cg_nodes g))) of
       None \<Rightarrow> Inl ''attempt to subtract with overflow''
     | Some ids \<Rightarrow>
         if length ids \<noteq> length (cg_nodes g) then Inl ''Cyclic dependency detected in CapabilityGraph''
         else Inr ids)"

definition in_quotes :: "string \<Rightarrow> string" where
  "in_quotes s = CHR 0x27 # s @ [CHR 0x27]"

definition graph_validate ::
  "(capability_id list \<Rightarrow> capability_id list) \<Rightarrow> (capability_id list \<Rightarrow> capability_id list) \<Rightarrow>
    'v capability_graph \<Rightarrow> string + unit" where
  "graph_validate values_order order g =
    and_then (try_for (\<lambda>i u. case map_of (cg_nodes g) i of None \<Rightarrow> Inr u | Some contract \<Rightarrow>
        (case broad_grant (permissions contract) of
           Some broad \<Rightarrow> Inl (''Capability '' @ in_quotes (cc_id contract) @ '' declares an overly-broad grant '' @
             in_quotes (permission_display broad) @ '' which is not permitted'')
         | None \<Rightarrow> Inr u)) (values_order (map fst (cg_nodes g))) ()) (\<lambda>_.
    and_then (try_for (\<lambda>c u.
        if bt_contains (cg_nodes g) (capability_a c) \<and> bt_contains (cg_nodes g) (capability_b c)
        then Inl (''Capability conflict detected between '' @ in_quotes (capability_a c) @ '' and '' @
          in_quotes (capability_b c))
        else Inr u) (cg_conflicts g) ()) (\<lambda>_.
    and_then (try_for (\<lambda>dep u.
        if bt_contains (cg_nodes g) (de_from dep) \<and> \<not> bt_contains (cg_nodes g) (de_to dep)
        then Inl (''Unresolved capability dependency: '' @ in_quotes (de_from dep) @
          '' requires missing capability '' @ in_quotes (de_to dep))
        else Inr u) (cg_dependencies g) ()) (\<lambda>_.
    and_then (topological_sort order g) (\<lambda>_. Inr ()))))"

section \<open>Registry\<close>

datatype registry_error =
  DuplicateId capability_id | Frozen | RegistryNotFound capability_id | InvalidContract string

record 'v capability_registry =
  contracts :: "'v capability_contract btree"
  frozen :: bool

definition registry_new :: "'v capability_registry" where
  "registry_new = \<lparr>contracts = [], frozen = False\<rparr>"

definition registry_register ::
  "'v capability_contract \<Rightarrow> 'v capability_registry \<Rightarrow> (registry_error + unit) \<times> 'v capability_registry" where
  "registry_register contract r =
    (if frozen r then (Inl Frozen, r)
     else if bt_contains (contracts r) (cc_id contract) then (Inl (DuplicateId (cc_id contract)), r)
     else case try_for (\<lambda>perm u. map_err (\<lambda>e. InvalidContract (''invalid permission: '' @ permission_error_text e))
              (permission_validate perm)) (permissions contract) () of
            Inl e \<Rightarrow> (Inl e, r)
          | Inr _ \<Rightarrow> (Inr (), r\<lparr>contracts := bt_insert (cc_id contract) contract (contracts r)\<rparr>))"

definition registry_get :: "'v capability_registry \<Rightarrow> capability_id \<Rightarrow> 'v capability_contract option" where
  "registry_get r i = map_of (contracts r) i"

definition registry_contains :: "'v capability_registry \<Rightarrow> capability_id \<Rightarrow> bool" where
  "registry_contains r i = bt_contains (contracts r) i"

definition registry_list :: "'v capability_registry \<Rightarrow> 'v capability_contract list" where
  "registry_list r = sort_key cc_id (map snd (contracts r))"

definition registry_freeze :: "'v capability_registry \<Rightarrow> 'v capability_registry" where
  "registry_freeze r = r\<lparr>frozen := True\<rparr>"

section \<open>Permissions read back what they print\<close>

lemma argument_of_iff: "argument_of variant s = Some arg \<longleftrightarrow> s = variant @ ''('' @ arg @ '')''"
  by (auto simp: argument_of_def bind_eq_Some_conv)

text \<open>The text form of a permission is exact: a text parses as a permission if and only if it is what that
  permission prints. So printing and parsing are inverse to each other, whatever the argument holds.\<close>

theorem permission_text_exact: "permission_from_str s = Inr p \<longleftrightarrow> s = permission_display p"
proof
  show "permission_from_str s = Inr p \<Longrightarrow> s = permission_display p"
    by (auto simp: permission_from_str_def argument_of_iff split: option.splits if_splits)
next
  assume s: "s = permission_display p"
  show "permission_from_str s = Inr p"
    by (cases p) (simp_all add: s permission_from_str_def argument_of_def)
qed

section \<open>Topological order and validation\<close>

definition iterates_all :: "(capability_id list \<Rightarrow> capability_id list) \<Rightarrow> bool" where
  "iterates_all order \<longleftrightarrow> (\<forall>ks. mset (order ks) = mset ks)"

lemma iterates_allD:
  assumes "iterates_all order"
  shows "set (order ks) = set ks" and "length (order ks) = length ks" and "distinct (order ks) = distinct ks"
  using assms unfolding iterates_all_def
  by (auto dest: mset_eq_setD mset_eq_length mset_eq_imp_distinct_iff)

definition capability_ids :: "'v capability_graph \<Rightarrow> capability_id set" where
  "capability_ids g = fst ` set (cg_nodes g)"

definition must_precede :: "'v capability_graph \<Rightarrow> (capability_id \<times> capability_id) set" where
  "must_precede g = {(de_to dep, de_from dep) | dep. dep \<in> set (cg_dependencies g) \<and>
     de_from dep \<in> capability_ids g \<and> de_to dep \<in> capability_ids g}"

lemma contains_iff: "bt_contains m k \<longleftrightarrow> k \<in> fst ` set m"
  by (auto simp: bt_contains_def map_of_eq_None_iff)

lemma set_present_edges: "set (present_edges g) = must_precede g"
  unfolding present_edges_def must_precede_def contains_iff capability_ids_def set_map set_filter by blast

lemma topological_sort_cases:
  assumes "iterates_all order" and "bt_ok (cg_nodes g)"
  shows "if acyclic (must_precede g)
    then \<exists>ids. topological_sort order g = Inr ids \<and> distinct ids \<and> set ids = capability_ids g \<and> ordered (must_precede g) ids
    else topological_sort order g = Inl ''Cyclic dependency detected in CapabilityGraph''"
proof -
  let ?keys = "order (map fst (cg_nodes g))"
  have keys: "distinct ?keys" "set ?keys = capability_ids g" "length ?keys = length (cg_nodes g)"
    using assms by (simp_all add: iterates_allD bt_ok_distinct capability_ids_def)
  have "set (present_edges g) \<subseteq> set ?keys \<times> set ?keys"
    by (auto simp: set_present_edges must_precede_def keys)
  from kahn_order_correct [OF keys(1) this] obtain ids where
    ids: "kahn_order (present_edges g) ?keys = Some ids" "ordered (must_precede g) ids" "distinct ids"
      "set ids \<subseteq> set ?keys" "length ids = length (cg_nodes g) \<longleftrightarrow> acyclic (must_precede g)"
    by (metis keys(3) set_present_edges)
  show ?thesis
  proof (cases "acyclic (must_precede g)")
    case True
    then have "length ids = length ?keys" using ids(5) keys(3) by simp
    then have "set ids = set ?keys"
      using ids(3,4) keys(1) by (metis card_subset_eq distinct_card finite_set)
    then show ?thesis
      using True ids keys by (simp add: topological_sort_def)
  qed (use ids in \<open>simp add: topological_sort_def\<close>)
qed

text \<open>C24. Kahn's algorithm over the dependencies is correct, whatever order the hash maps iterate in: on a graph
  whose dependencies have no cycle it returns every capability exactly once and every dependency before the
  capabilities that need it; on a graph with a cycle it reports the cycle. The degree counters never underflow.\<close>

theorem topological_sort_exact:
  assumes "iterates_all order" and "bt_ok (cg_nodes g)"
  shows "if acyclic (must_precede g)
    then \<exists>ids. topological_sort order g = Inr ids \<and> distinct ids \<and> set ids = capability_ids g \<and> ordered (must_precede g) ids
    else topological_sort order g = Inl ''Cyclic dependency detected in CapabilityGraph''"
  by (rule topological_sort_cases) (rule assms)+

definition demo_contract :: "capability_id \<Rightarrow> capability_id list \<Rightarrow> nat capability_contract" where
  "demo_contract i deps = \<lparr>cc_id = i, cc_version = 1, cc_description = [], inputs_schema = JNull,
     outputs_schema = JNull, permissions = [Network], dependencies = deps, cc_estimated_cost = nano_ZERO,
     estimated_latency_ms = 10, reliability_score = 0, supports_streaming = False, traits = []\<rparr>"

definition demo_cgraph :: "nat capability_graph" where
  "demo_cgraph = add_dependency ''b'' ''a'' (cg_add_node (demo_contract ''b'' [''a''])
     (cg_add_node (demo_contract ''a'' []) capability_graph_new))"

theorem topological_sort_exact_witness:
  "topological_sort rev demo_cgraph = Inr [''a'', ''b'']"
proof -
  have "iterates_all rev" "bt_ok (cg_nodes demo_cgraph)"
    by (simp_all add: iterates_all_def demo_cgraph_def cg_add_node_def add_dependency_def
        capability_graph_new_def demo_contract_def bt_ok_def)
  note exact = topological_sort_exact [OF this]
  have "topological_sort rev demo_cgraph = Inr [''a'', ''b'']"
    by code_simp
  with exact show ?thesis by (simp split: if_splits)
qed

lemma broad_grant_None:
  "broad_grant perms = None \<longleftrightarrow>
    (\<forall>p\<in>set perms. p \<notin> {Http [], Http ''*'', Secrets [], Secrets ''*'', Environment [], Environment ''*''})"
  by (induction perms) (auto split: permission.splits)

lemma valid_not_broad:
  "\<forall>p\<in>set perms. permission_validate p = Inr () \<Longrightarrow> broad_grant perms = None"
  by (force simp: broad_grant_None)

lemma graph_validate_iff:
  assumes "iterates_all order" and "iterates_all values_order" and "bt_ok (cg_nodes g)"
  shows "graph_validate values_order order g = Inr () \<longleftrightarrow>
    (\<forall>contract\<in>snd ` set (cg_nodes g). broad_grant (permissions contract) = None) \<and>
    (\<forall>c\<in>set (cg_conflicts g). \<not> (capability_a c \<in> capability_ids g \<and> capability_b c \<in> capability_ids g)) \<and>
    (\<forall>dep\<in>set (cg_dependencies g). de_from dep \<in> capability_ids g \<longrightarrow> de_to dep \<in> capability_ids g) \<and>
    acyclic (must_precede g)"
proof -
  have "(\<forall>i\<in>set (map fst (cg_nodes g)). (case map_of (cg_nodes g) i of None \<Rightarrow> True
      | Some contract \<Rightarrow> broad_grant (permissions contract) = None)) \<longleftrightarrow>
    (\<forall>contract\<in>snd ` set (cg_nodes g). broad_grant (permissions contract) = None)"
    using bt_lookup [OF assms(3)] by (force split: option.splits)
  moreover have "(\<exists>ids. topological_sort order g = Inr ids) \<longleftrightarrow> acyclic (must_precede g)"
    using topological_sort_cases [OF assms(1,3)] by (auto split: if_splits)
  ultimately show ?thesis
    unfolding graph_validate_def
    by (auto simp: try_for_unit contains_iff capability_ids_def iterates_allD [OF assms(2)] split: option.splits)
qed

section \<open>The registry keeps its contracts valid\<close>

definition registry_ok :: "'v capability_registry \<Rightarrow> bool" where
  "registry_ok r \<longleftrightarrow> bt_ok (contracts r) \<and>
    (\<forall>(i, c) \<in> set (contracts r). cc_id c = i \<and> (\<forall>p\<in>set (permissions c). permission_validate p = Inr ()))"

lemma registry_ok_new: "registry_ok registry_new"
  by (simp add: registry_ok_def registry_new_def)

lemma register_ok: "registry_ok r \<Longrightarrow> registry_ok (snd (registry_register contract r))"
  by (auto simp: registry_ok_def registry_register_def try_for_unit set_bt_insert bt_insert_ok
      split: sum.splits)

lemma freeze_ok: "registry_ok r \<Longrightarrow> registry_ok (registry_freeze r)"
  by (simp add: registry_ok_def registry_freeze_def)

locale contract_source =
  fixes get :: "'r \<Rightarrow> capability_id \<Rightarrow> 'v capability_contract option"
    and listing :: "'r \<Rightarrow> 'v capability_contract list"
    and ok :: "'r \<Rightarrow> bool"
  assumes get_id: "ok r \<Longrightarrow> get r i = Some c \<Longrightarrow> cc_id c = i"
    and get_narrow: "ok r \<Longrightarrow> get r i = Some c \<Longrightarrow> broad_grant (permissions c) = None"
    and listing_get: "ok r \<Longrightarrow> c \<in> set (listing r) \<longleftrightarrow> get r (cc_id c) = Some c"
begin

lemma get_in_listing: "ok r \<Longrightarrow> get r i = Some c \<Longrightarrow> c \<in> set (listing r)"
  using get_id [of r i c] listing_get [of r c] by simp

lemma finite_dom: "ok r \<Longrightarrow> finite (dom (get r))"
proof -
  assume r: "ok r"
  have "dom (get r) \<subseteq> cc_id ` set (listing r)"
    using get_in_listing [OF r] get_id [OF r] by force
  then show ?thesis
    by (rule finite_subset) simp
qed

end

interpretation imr: contract_source registry_get registry_list registry_ok
proof
  fix r :: "'v capability_registry" and i c
  assume r: "registry_ok r"
  then have lookup: "registry_get r i = Some c \<longleftrightarrow> (i, c) \<in> set (contracts r)" for i c
    by (simp add: registry_ok_def registry_get_def bt_lookup)
  show "registry_get r i = Some c \<Longrightarrow> cc_id c = i"
    using r by (auto simp: lookup registry_ok_def)
  show "registry_get r i = Some c \<Longrightarrow> broad_grant (permissions c) = None"
    using r by (auto simp: lookup registry_ok_def intro: valid_not_broad)
  show "c \<in> set (registry_list r) \<longleftrightarrow> registry_get r (cc_id c) = Some c"
    using r by (force simp: lookup registry_list_def registry_ok_def)
qed

datatype 'v registry_op = OpRegister "'v capability_contract" | OpFreeze

fun registry_step :: "'v registry_op \<Rightarrow> 'v capability_registry \<Rightarrow> 'v capability_registry" where
  "registry_step (OpRegister contract) r = snd (registry_register contract r)"
| "registry_step OpFreeze r = registry_freeze r"

lemma registry_run_ok: "registry_ok r \<Longrightarrow> registry_ok (fold registry_step ops r)"
proof (induction ops arbitrary: r)
  case (Cons op ops)
  then show ?case by (cases op) (simp_all add: register_ok freeze_ok)
qed simp

lemma frozen_run: "frozen r \<Longrightarrow> fold registry_step ops r = r"
proof (induction ops)
  case (Cons op ops)
  moreover from Cons.prems have "registry_step op r = r"
    by (cases op) (simp_all add: registry_register_def registry_freeze_def)
  ultimately show ?case by simp
qed simp

text \<open>A registry only ever holds contracts under their own id whose permissions are all valid, and none of
  them carries a grant that graph validation would refuse as too broad; once frozen, no operation changes
  what it holds.\<close>

theorem registry_sound:
  assumes "registry_get (fold registry_step ops registry_new) i = Some c"
  shows "cc_id c = i \<and> (\<forall>p\<in>set (permissions c). permission_validate p = Inr ()) \<and>
    broad_grant (permissions c) = None \<and>
    registry_get (fold registry_step (ops @ OpFreeze # later) registry_new) i = Some c"
proof (intro conjI)
  have ok: "registry_ok (fold registry_step ops registry_new)"
    by (rule registry_run_ok) (rule registry_ok_new)
  then show "\<forall>p\<in>set (permissions c). permission_validate p = Inr ()"
    using assms by (auto simp: registry_ok_def registry_get_def bt_lookup)
  show "cc_id c = i" "broad_grant (permissions c) = None"
    using imr.get_id [OF ok assms] imr.get_narrow [OF ok assms] .
  have "fold registry_step later (registry_freeze (fold registry_step ops registry_new)) =
      registry_freeze (fold registry_step ops registry_new)"
    by (rule frozen_run) (simp add: registry_freeze_def)
  then show "registry_get (fold registry_step (ops @ OpFreeze # later) registry_new) i = Some c"
    using assms by (simp add: registry_freeze_def registry_get_def)
qed

definition demo_registrations :: "nat registry_op list" where
  "demo_registrations = [OpRegister (demo_contract ''a'' []), OpRegister (demo_contract ''b'' [''a''])]"

lemma demo_registrations_get: "registry_get (fold registry_step demo_registrations registry_new) ''b'' = Some (demo_contract ''b'' [''a''])"
  by code_simp

theorem registry_sound_witness:
  "registry_get (fold registry_step (demo_registrations @ OpFreeze # [OpRegister (demo_contract ''c'' [])]) registry_new) ''b'' =
    Some (demo_contract ''b'' [''a''])"
  using registry_sound [OF demo_registrations_get] by blast

end
