(* ===== verification/Resolver.thy ===== *)
theory Resolver
  imports Capability
begin

text \<open>
  \<open>crates/fusion-planner/src/capability/resolver.rs\<close>: resolution of a set of requirements against the
  capability registry, with aliases, version constraints, policy, the breadth-first expansion of
  dependencies and the cache of resolved sets. Version requirements (\<open>semver::VersionReq\<close>) are a type
  parameter with their matching and printing functions; \<open>resolver_env\<close> holds these, the iteration orders
  of the hash maps and the key that the cache evicts.
\<close>

section \<open>Requirements and results\<close>

datatype resolver_error =
    UnregisteredCapability capability_id
  | NoCompatibleVersion string string
  | AmbiguousResolution string "capability_id list"
  | UnresolvedDependency capability_id capability_id
  | CircularDependency
  | PolicyDenied capability_id string
  | LatencyExceeded capability_id u64 u64
  | GraphValidationFailed string

record policy_context =
  pc_environment :: string
  allow_list :: "capability_id list option"
  deny_list :: "capability_id list"
  release_profile :: "string option"

record 'q version_constraint =
  capability_prefix :: string
  requirement :: 'q

record 'q requirement_set =
  required_capabilities :: "capability_id list"
  optional_capabilities :: "capability_id list"
  version_constraints :: "'q version_constraint list"
  max_acceptable_latency_ms :: "u64 option"
  rq_max_cost :: "nano_usd option"
  rq_policy :: "policy_context option"

definition requirement_set_new :: "capability_id list \<Rightarrow> 'q requirement_set" where
  "requirement_set_new required = \<lparr>required_capabilities = required, optional_capabilities = [],
     version_constraints = [], max_acceptable_latency_ms = None, rq_max_cost = None, rq_policy = None\<rparr>"

record 'v resolved_set =
  rc_graph :: "'v capability_graph"
  rc_instances :: "'v capability_instance list"

record ('v, 'q) resolver_env =
  matches :: "'q \<Rightarrow> 'v \<Rightarrow> bool"
  show_requirement :: "'q \<Rightarrow> string"
  values_order :: "capability_id list \<Rightarrow> capability_id list"
  degrees_order :: "capability_id list \<Rightarrow> capability_id list"
  next_key :: "'q requirement_set list \<Rightarrow> 'q requirement_set"

section \<open>Cache\<close>

definition store_put ::
  "('k list \<Rightarrow> 'k) \<Rightarrow> 'k \<Rightarrow> 'r \<Rightarrow> nat \<Rightarrow> ('k \<times> 'r) list \<Rightarrow> ('k \<times> 'r) list" where
  "store_put pick key value max_capacity g =
    (let g1 = (if max_capacity \<le> length g \<and> g \<noteq> []
               then filter (\<lambda>kv. fst kv \<noteq> pick (map fst g)) g else g)
     in AList.update key value g1)"

record ('v, 'q) capability_resolver =
  rv_registry :: "'v capability_registry"
  rv_cache :: "('q requirement_set \<times> 'v resolved_set) list"
  rv_capacity :: nat
  aliases :: "capability_id \<rightharpoonup> capability_id"

definition resolver_new :: "'v capability_registry \<Rightarrow> ('v, 'q) capability_resolver" where
  "resolver_new registry =
    \<lparr>rv_registry = registry, rv_cache = [], rv_capacity = 100, aliases = Map.empty\<rparr>"

definition register_alias ::
  "capability_id \<Rightarrow> capability_id \<Rightarrow> ('v, 'q) capability_resolver \<Rightarrow> ('v, 'q) capability_resolver" where
  "register_alias alias target rv = rv\<lparr>aliases := (aliases rv)(alias \<mapsto> target)\<rparr>"

definition alias_target :: "(capability_id \<rightharpoonup> capability_id) \<Rightarrow> capability_id \<Rightarrow> capability_id" where
  "alias_target al i = (case al i of Some t \<Rightarrow> t | None \<Rightarrow> i)"

section \<open>Single steps\<close>

definition apply_policy ::
  "capability_id \<Rightarrow> 'v capability_contract \<Rightarrow> policy_context \<Rightarrow> resolver_error + unit" where
  "apply_policy requested contract policy =
    (if requested \<in> set (deny_list policy) \<or> cc_id contract \<in> set (deny_list policy)
     then Inl (PolicyDenied (cc_id contract) ''capability is in the deny list'')
     else case allow_list policy of
       Some allow \<Rightarrow>
         if requested \<notin> set allow \<or> cc_id contract \<notin> set allow
         then Inl (PolicyDenied (cc_id contract) ''capability is not in the allow list'')
         else Inr ()
     | None \<Rightarrow> Inr ())"

definition check_policy ::
  "policy_context option \<Rightarrow> capability_id \<Rightarrow> 'v capability_contract \<Rightarrow> resolver_error + unit" where
  "check_policy policy requested contract =
    (case policy of Some p \<Rightarrow> apply_policy requested contract p | None \<Rightarrow> Inr ())"

definition candidates ::
  "('v, 'q) resolver_env \<Rightarrow> 'v capability_registry \<Rightarrow> 'q version_constraint \<Rightarrow> 'v capability_contract list" where
  "candidates env reg vc = filter (\<lambda>c. matches env (requirement vc) (cc_version c))
    (filter (\<lambda>c. starts_with (cc_id c) (capability_prefix vc)) (registry_list reg))"

definition resolve_version ::
  "('v::linorder, 'q) resolver_env \<Rightarrow> 'v capability_registry \<Rightarrow> 'q version_constraint \<Rightarrow>
    resolver_error + 'v capability_contract" where
  \<comment> \<open>a stable sort by descending version is the reversal of an ascending one of the reversed list\<close>
  "resolve_version env reg vc =
    (case rev (sort_key cc_version (rev (candidates env reg vc))) of
       [] \<Rightarrow> Inl (NoCompatibleVersion (capability_prefix vc) (show_requirement env (requirement vc)))
     | c # _ \<Rightarrow> Inr c)"

section \<open>Expansion of dependencies\<close>

record 'v expansion =
  result_map :: "'v capability_contract btree"
  dep_edges :: "dependency_edge list"
  ex_queue :: "capability_id list"
  in_flight :: "capability_id set"

definition seed ::
  "policy_context option \<Rightarrow> 'v capability_contract \<Rightarrow> 'v expansion \<Rightarrow> resolver_error + 'v expansion" where
  "seed policy c x = and_then (check_policy policy (cc_id c) c) (\<lambda>_.
     Inr (x\<lparr>result_map := bt_insert (cc_id c) c (result_map x), ex_queue := ex_queue x @ [cc_id c]\<rparr>))"

definition visit_dep ::
  "'v capability_registry \<Rightarrow> policy_context option \<Rightarrow> capability_id \<Rightarrow> capability_id \<Rightarrow> 'v expansion \<Rightarrow>
    resolver_error + 'v expansion" where
  "visit_dep reg policy current_id dep_id x =
    (if dep_id \<in> in_flight x \<and> (case registry_get reg dep_id of
          Some dep_contract \<Rightarrow> current_id \<in> set (dependencies dep_contract) | None \<Rightarrow> False)
     then Inl CircularDependency
     else and_then
       (if bt_contains (result_map x) dep_id then Inr x
        else case registry_get reg dep_id of
          None \<Rightarrow> Inl (UnresolvedDependency current_id dep_id)
        | Some dep_contract \<Rightarrow> and_then (check_policy policy dep_id dep_contract) (\<lambda>_.
            Inr (x\<lparr>result_map := bt_insert dep_id dep_contract (result_map x),
                   ex_queue := ex_queue x @ [dep_id], in_flight := insert dep_id (in_flight x)\<rparr>)))
       (\<lambda>x1. Inr (x1\<lparr>dep_edges := dep_edges x1 @ [\<lparr>de_from = current_id, de_to = dep_id\<rparr>]\<rparr>)))"

definition unseen :: "'v capability_registry \<Rightarrow> 'v expansion \<Rightarrow> nat" where
  "unseen reg x = card (fst ` set (contracts reg) - fst ` set (result_map x)) + length (ex_queue x)"

lemma visit_dep_unseen:
  assumes "visit_dep reg policy cur d x = Inr x'"
  shows "unseen reg x' \<le> unseen reg x"
proof (cases "bt_contains (result_map x) d")
  case True
  then show ?thesis
    using assms by (auto simp: visit_dep_def unseen_def split: if_splits)
next
  case False
  then obtain c where c: "registry_get reg d = Some c"
    and x': "result_map x' = bt_insert d c (result_map x)" "ex_queue x' = ex_queue x @ [d]"
    using assms by (auto simp: visit_dep_def split: if_splits option.splits)
  have d: "d \<in> fst ` set (contracts reg)" "d \<notin> fst ` set (result_map x)"
    using c False by (auto simp: registry_get_def contains_iff dest: map_of_SomeD intro: rev_image_eqI)
  then have "fst ` set (contracts reg) - fst ` set (result_map x') \<subset> fst ` set (contracts reg) - fst ` set (result_map x)"
    by (auto simp: x' keys_bt_insert)
  then have "card (fst ` set (contracts reg) - fst ` set (result_map x'))
      < card (fst ` set (contracts reg) - fst ` set (result_map x))"
    by (intro psubset_card_mono) simp_all
  then show ?thesis
    by (simp add: unseen_def x'(2))
qed

lemma visit_deps_unseen:
  "try_for (visit_dep reg policy cur) deps x = Inr x' \<Longrightarrow> unseen reg x' \<le> unseen reg x"
  by (induction deps arbitrary: x) (auto dest: visit_dep_unseen intro: order_trans)

function expand_loop ::
  "'v capability_registry \<Rightarrow> policy_context option \<Rightarrow> 'v expansion \<Rightarrow> resolver_error + 'v expansion" where
  "expand_loop reg policy x =
    (case ex_queue x of
       [] \<Rightarrow> Inr x
     | current_id # queue \<Rightarrow>
         (case map_of (result_map x) current_id of
            None \<Rightarrow> Inl (UnregisteredCapability current_id)
          | Some current \<Rightarrow>
              (case try_for (visit_dep reg policy current_id) (dependencies current) (x\<lparr>ex_queue := queue\<rparr>) of
                 Inl e \<Rightarrow> Inl e
               | Inr x1 \<Rightarrow> expand_loop reg policy x1)))"
  by pat_completeness auto

termination
  by (relation "measure (\<lambda>(reg, policy, x). unseen reg x)")
    (auto dest!: visit_deps_unseen simp: unseen_def)

definition expand_dependencies ::
  "'v capability_registry \<Rightarrow> 'v capability_contract list \<Rightarrow> policy_context option \<Rightarrow>
    resolver_error + 'v capability_contract list \<times> dependency_edge list" where
  "expand_dependencies reg roots policy =
    and_then (try_for (seed policy) roots \<lparr>result_map = [], dep_edges = [], ex_queue = [], in_flight = {}\<rparr>) (\<lambda>x.
    and_then (expand_loop reg policy (x\<lparr>in_flight := set (ex_queue x)\<rparr>)) (\<lambda>x1.
    Inr (sort_key cc_id (map snd (result_map x1)), dep_edges x1)))"

section \<open>Resolution\<close>

definition instance_of :: "'v capability_contract \<Rightarrow> 'v capability_instance" where
  "instance_of c = \<lparr>ci_contract = c, runtime_params = JObject []\<rparr>"

definition push_instance ::
  "'v capability_contract \<Rightarrow> 'v capability_contract list \<Rightarrow> 'v capability_contract list" where
  \<comment> \<open>\<open>if visited.insert(id) { instances.push(..) }\<close>: \<open>visited\<close> holds the ids of \<open>instances\<close>\<close>
  "push_instance c cs = (if cc_id c \<in> cc_id ` set cs then cs else cs @ [c])"

definition precheck ::
  "('v, 'q) capability_resolver \<Rightarrow> 'q requirement_set \<Rightarrow> resolver_error + unit" where
  "precheck rv reqs =
    (case rq_policy reqs of
       None \<Rightarrow> Inr ()
     | Some policy \<Rightarrow> try_for (\<lambda>req_id u.
         case registry_get (rv_registry rv) (alias_target (aliases rv) req_id) of
           Some contract \<Rightarrow> apply_policy req_id contract policy
         | None \<Rightarrow> Inr ()) (required_capabilities reqs) ())"

definition resolve_constraint ::
  "('v::linorder, 'q) resolver_env \<Rightarrow> ('v, 'q) capability_resolver \<Rightarrow> 'q requirement_set \<Rightarrow>
    'q version_constraint \<Rightarrow> 'v capability_contract list \<Rightarrow> resolver_error + 'v capability_contract list" where
  "resolve_constraint env rv reqs vc cs =
    and_then (resolve_version env (rv_registry rv) vc) (\<lambda>contract.
    and_then (check_policy (rq_policy reqs) (cc_id contract) contract) (\<lambda>_.
    Inr (push_instance contract cs)))"

definition resolve_required ::
  "('v, 'q) capability_resolver \<Rightarrow> 'q requirement_set \<Rightarrow> capability_id \<Rightarrow>
    'v capability_contract list \<Rightarrow> resolver_error + 'v capability_contract list" where
  "resolve_required rv reqs req_id cs =
    and_then (ok_or (UnregisteredCapability req_id)
      (registry_get (rv_registry rv) (alias_target (aliases rv) req_id))) (\<lambda>contract.
    and_then (check_policy (rq_policy reqs) req_id contract) (\<lambda>_.
    case max_acceptable_latency_ms reqs of
      Some max_lat \<Rightarrow>
        if max_lat < estimated_latency_ms contract
        then Inl (LatencyExceeded (cc_id contract) (estimated_latency_ms contract) max_lat)
        else Inr (push_instance contract cs)
    | None \<Rightarrow> Inr (push_instance contract cs)))"

definition resolve_optional ::
  "('v, 'q) capability_resolver \<Rightarrow> 'q requirement_set \<Rightarrow> capability_id \<Rightarrow>
    'v capability_contract list \<Rightarrow> resolver_error + 'v capability_contract list" where
  "resolve_optional rv reqs opt_id cs =
    (case registry_get (rv_registry rv) (alias_target (aliases rv) opt_id) of
       Some contract \<Rightarrow> and_then (check_policy (rq_policy reqs) opt_id contract) (\<lambda>_. Inr (push_instance contract cs))
     | None \<Rightarrow> Inr cs)"

definition build_graph :: "'v capability_contract list \<Rightarrow> dependency_edge list \<Rightarrow> 'v capability_graph" where
  "build_graph cs edges = fold (\<lambda>e. add_dependency (de_from e) (de_to e)) edges
     (fold cg_add_node cs capability_graph_new)"

definition resolve_roots ::
  "('v::linorder, 'q) resolver_env \<Rightarrow> ('v, 'q) capability_resolver \<Rightarrow> 'q requirement_set \<Rightarrow>
    resolver_error + 'v capability_contract list" where
  "resolve_roots env rv reqs =
    and_then (precheck rv reqs) (\<lambda>_.
    and_then (try_for (resolve_constraint env rv reqs) (version_constraints reqs) []) (\<lambda>cs1.
    and_then (try_for (resolve_required rv reqs) (required_capabilities reqs) cs1)
      (try_for (resolve_optional rv reqs) (optional_capabilities reqs))))"

definition resolve_fresh ::
  "('v::linorder, 'q) resolver_env \<Rightarrow> ('v, 'q) capability_resolver \<Rightarrow> 'q requirement_set \<Rightarrow>
    resolver_error + 'v resolved_set" where
  "resolve_fresh env rv reqs =
    and_then (resolve_roots env rv reqs) (\<lambda>roots.
    and_then (expand_dependencies (rv_registry rv) roots (rq_policy reqs)) (\<lambda>(all_contracts, edges).
    let final = fold push_instance all_contracts []; graph = build_graph final edges
    in and_then (map_err GraphValidationFailed (graph_validate (values_order env) (degrees_order env) graph)) (\<lambda>_.
       and_then (try_for (\<lambda>c u. check_policy (rq_policy reqs) (cc_id c) c) final ()) (\<lambda>_.
       Inr \<lparr>rc_graph = graph, rc_instances = map instance_of final\<rparr>))))"

definition resolve ::
  "('v::linorder, 'q) resolver_env \<Rightarrow> ('v, 'q) capability_resolver \<Rightarrow> 'q requirement_set \<Rightarrow>
    (resolver_error + 'v resolved_set) \<times> ('v, 'q) capability_resolver" where
  "resolve env rv reqs =
    (case map_of (rv_cache rv) reqs of
       Some cached \<Rightarrow> (Inr cached, rv)
     | None \<Rightarrow>
         (case resolve_fresh env rv reqs of
            Inl e \<Rightarrow> (Inl e, rv)
          | Inr resolved \<Rightarrow>
              (Inr resolved, rv\<lparr>rv_cache := store_put (next_key env) reqs resolved (rv_capacity rv) (rv_cache rv)\<rparr>)))"

declare expand_loop.simps [simp del]

section \<open>What a resolution should contain\<close>

definition permitted :: "policy_context option \<Rightarrow> capability_id \<Rightarrow> capability_id \<Rightarrow> bool" where
  "permitted policy requested i \<longleftrightarrow> (case policy of None \<Rightarrow> True | Some p \<Rightarrow>
     requested \<notin> set (deny_list p) \<and> i \<notin> set (deny_list p) \<and>
     (case allow_list p of None \<Rightarrow> True | Some allow \<Rightarrow> requested \<in> set allow \<and> i \<in> set allow))"

definition needs :: "'v capability_registry \<Rightarrow> (capability_id \<times> capability_id) set" where
  "needs reg = {(i, d). \<exists>c. registry_get reg i = Some c \<and> d \<in> set (dependencies c)}"

definition closure_of :: "'v capability_registry \<Rightarrow> capability_id set \<Rightarrow> capability_id set" where
  "closure_of reg roots = (needs reg)\<^sup>* `` roots"

definition expandable :: "'v capability_registry \<Rightarrow> policy_context option \<Rightarrow> capability_id set \<Rightarrow> bool" where
  "expandable reg policy roots \<longleftrightarrow>
    (\<forall>i\<in>closure_of reg roots. registry_contains reg i \<and> permitted policy i i) \<and>
    acyclic (needs reg \<inter> closure_of reg roots \<times> closure_of reg roots)"

lemma check_policy_iff: "check_policy policy requested c = Inr () \<longleftrightarrow> permitted policy requested (cc_id c)"
  by (auto simp: check_policy_def apply_policy_def permitted_def split: option.splits)

lemma check_policy_cases:
  obtains "check_policy policy requested c = Inr ()" "permitted policy requested (cc_id c)"
  | e where "check_policy policy requested c = Inl e" "\<not> permitted policy requested (cc_id c)"
  using check_policy_iff [of policy requested c] by (cases "check_policy policy requested c") auto

lemma closure_root: "i \<in> roots \<Longrightarrow> i \<in> closure_of reg roots"
  by (auto simp: closure_of_def)

lemma closure_step: "i \<in> closure_of reg roots \<Longrightarrow> (i, d) \<in> needs reg \<Longrightarrow> d \<in> closure_of reg roots"
  by (auto simp: closure_of_def intro: rtrancl_into_rtrancl)

lemma closure_least:
  assumes "roots \<subseteq> K" and "\<And>i d. i \<in> K \<Longrightarrow> (i, d) \<in> needs reg \<Longrightarrow> d \<in> K"
  shows "closure_of reg roots \<subseteq> K"
proof
  fix j
  assume "j \<in> closure_of reg roots"
  then obtain i where "i \<in> roots" "(i, j) \<in> (needs reg)\<^sup>*"
    by (auto simp: closure_of_def)
  from this(2,1) show "j \<in> K"
    by (induction rule: rtrancl_induct) (use assms in auto)
qed

section \<open>The expansion computes the closure\<close>

definition dep_pairs :: "dependency_edge list \<Rightarrow> (capability_id \<times> capability_id) set" where
  "dep_pairs edges = (\<lambda>e. (de_from e, de_to e)) ` set edges"

lemma dep_pairs_snoc [simp]:
  "dep_pairs (edges @ [\<lparr>de_from = i, de_to = d\<rparr>]) = insert (i, d) (dep_pairs edges)"
  by (simp add: dep_pairs_def)

abbreviation known :: "'v expansion \<Rightarrow> capability_id set" where
  "known x \<equiv> fst ` set (result_map x)"

definition ex_inv ::
  "'v capability_registry \<Rightarrow> policy_context option \<Rightarrow> capability_id set \<Rightarrow> capability_id set \<Rightarrow>
    (capability_id \<times> capability_id) set \<Rightarrow> 'v expansion \<Rightarrow> bool" where
  "ex_inv reg policy roots processed edges x \<longleftrightarrow>
    bt_ok (result_map x) \<and>
    (\<forall>(i, c)\<in>set (result_map x). registry_get reg i = Some c \<and> permitted policy i i) \<and>
    roots \<subseteq> known x \<and> known x \<subseteq> closure_of reg roots \<and> in_flight x = known x \<and>
    processed \<union> set (ex_queue x) = known x \<and> processed \<inter> set (ex_queue x) = {} \<and> distinct (ex_queue x) \<and>
    dep_pairs (dep_edges x) = edges \<and> snd ` edges \<subseteq> known x"

lemma ex_invD:
  assumes "ex_inv reg policy roots processed edges x"
  shows "bt_ok (result_map x)"
    and "\<forall>(i, c)\<in>set (result_map x). registry_get reg i = Some c \<and> permitted policy i i"
    and "roots \<subseteq> known x" and "known x \<subseteq> closure_of reg roots" and "in_flight x = known x"
    and "processed \<union> set (ex_queue x) = known x" and "processed \<inter> set (ex_queue x) = {}"
    and "distinct (ex_queue x)" and "dep_pairs (dep_edges x) = edges" and "snd ` edges \<subseteq> known x"
  using assms unfolding ex_inv_def by simp_all

lemma visit_dep_inv:
  assumes ok: "registry_ok reg" and inv: "ex_inv reg policy roots processed edges x"
    and cur: "cur \<in> processed" and need: "(cur, d) \<in> needs reg"
  shows "case visit_dep reg policy cur d x of
      Inr x' \<Rightarrow> ex_inv reg policy roots processed (insert (cur, d) edges) x'
    | Inl e \<Rightarrow> \<not> expandable reg policy roots"
proof -
  have "processed \<union> set (ex_queue x) \<subseteq> closure_of reg roots"
    using inv unfolding ex_inv_def by (elim conjE) (simp only:)
  then have cl: "cur \<in> closure_of reg roots" "d \<in> closure_of reg roots"
    using cur closure_step [OF _ need] by auto
  consider (circular) "d \<in> in_flight x" "(d, cur) \<in> needs reg"
    | (known) "\<not> (d \<in> in_flight x \<and> (d, cur) \<in> needs reg)" "d \<in> known x"
    | (fresh) "\<not> (d \<in> in_flight x \<and> (d, cur) \<in> needs reg)" "d \<notin> known x"
    by blast
  then show ?thesis
  proof cases
    case circular
    then have "(cur, cur) \<in> (needs reg \<inter> closure_of reg roots \<times> closure_of reg roots)\<^sup>+"
      using need cl by (meson IntI SigmaI r_into_trancl trancl_into_trancl)
    then have "\<not> expandable reg policy roots"
      by (auto simp: expandable_def acyclic_def)
    moreover have "visit_dep reg policy cur d x = Inl CircularDependency"
      using circular by (auto simp: visit_dep_def needs_def)
    ultimately show ?thesis by simp
  next
    case known
    then have "visit_dep reg policy cur d x = Inr (x\<lparr>dep_edges := dep_edges x @ [\<lparr>de_from = cur, de_to = d\<rparr>]\<rparr>)"
      by (auto simp: visit_dep_def needs_def contains_iff split: option.splits)
    then show ?thesis
      using inv known(2) unfolding ex_inv_def by simp
  next
    case fresh
    then have no: "\<not> bt_contains (result_map x) d" "\<not> (d \<in> in_flight x \<and> (case registry_get reg d of
        Some c \<Rightarrow> cur \<in> set (dependencies c) | None \<Rightarrow> False))"
      by (auto simp: needs_def contains_iff split: option.splits)
    have v: "visit_dep reg policy cur d x = (case registry_get reg d of
        None \<Rightarrow> Inl (UnresolvedDependency cur d)
      | Some c \<Rightarrow> and_then (check_policy policy d c) (\<lambda>_.
          Inr (x\<lparr>result_map := bt_insert d c (result_map x), ex_queue := ex_queue x @ [d],
                 in_flight := insert d (in_flight x), dep_edges := dep_edges x @ [\<lparr>de_from = cur, de_to = d\<rparr>]\<rparr>)))"
    proof (cases "registry_get reg d")
      case (Some c)
      then show ?thesis
        using no by (cases "check_policy policy d c") (auto simp: visit_dep_def)
    qed (use no in \<open>simp add: visit_dep_def\<close>)
    show ?thesis
    proof (cases "registry_get reg d")
      case None
      then have "\<not> expandable reg policy roots"
        using cl(2) by (auto simp: expandable_def registry_contains_def registry_get_def bt_contains_def)
      then show ?thesis by (simp add: v None)
    next
      case (Some c)
      then have c: "cc_id c = d"
        by (rule imr.get_id [OF ok])
      show ?thesis
      proof (cases rule: check_policy_cases [of policy d c])
        case 1
        note i = ex_invD [OF inv]
        have d: "d \<notin> set (ex_queue x)" "d \<notin> processed"
          using i(6) fresh(2) by blast+
        have un: "processed \<union> set (ex_queue x @ [d]) = insert d (known x)"
          unfolding i(6) [symmetric] by simp
        let ?x' = "x\<lparr>result_map := bt_insert d c (result_map x), ex_queue := ex_queue x @ [d],
          in_flight := insert d (in_flight x), dep_edges := dep_edges x @ [\<lparr>de_from = cur, de_to = d\<rparr>]\<rparr>"
        have k: "known ?x' = insert d (known x)"
          by (simp add: keys_bt_insert)
        have "ex_inv reg policy roots processed (insert (cur, d) edges) ?x'"
          unfolding ex_inv_def k
        proof (intro conjI)
          show "bt_ok (result_map ?x')" using i(1) by (simp add: bt_insert_ok)
          show "\<forall>(i, c)\<in>set (result_map ?x'). registry_get reg i = Some c \<and> permitted policy i i"
            using i(1,2) Some 1(2) by (auto simp: set_bt_insert c)
          show "roots \<subseteq> insert d (known x)" using i(3) by blast
          show "insert d (known x) \<subseteq> closure_of reg roots" using i(4) cl(2) by blast
          show "in_flight ?x' = insert d (known x)" using i(5) by simp
          show "processed \<union> set (ex_queue ?x') = insert d (known x)" using un by simp
          show "processed \<inter> set (ex_queue ?x') = {}" using i(7) d by auto
          show "distinct (ex_queue ?x')" using i(8) d by simp
          show "dep_pairs (dep_edges ?x') = insert (cur, d) edges" using i(9) by simp
          show "snd ` insert (cur, d) edges \<subseteq> insert d (known x)" using i(10) by auto
        qed
        then show ?thesis by (simp add: v Some 1)
      next
        case 2
        then have "\<not> expandable reg policy roots"
          using cl(2) by (auto simp: expandable_def c)
        then show ?thesis by (simp add: v Some 2)
      qed
    qed
  qed
qed

lemma visit_deps_inv:
  assumes ok: "registry_ok reg" and "ex_inv reg policy roots processed edges x"
    and cur: "cur \<in> processed" and "\<And>d. d \<in> set deps \<Longrightarrow> (cur, d) \<in> needs reg"
  shows "case try_for (visit_dep reg policy cur) deps x of
      Inr x' \<Rightarrow> ex_inv reg policy roots processed (edges \<union> {cur} \<times> set deps) x'
    | Inl e \<Rightarrow> \<not> expandable reg policy roots"
  using assms(2,4)
proof (induction deps arbitrary: x edges)
  case (Cons d deps)
  from visit_dep_inv [OF ok Cons.prems(1) cur Cons.prems(2)]
  have step: "case visit_dep reg policy cur d x of
      Inr x' \<Rightarrow> ex_inv reg policy roots processed (insert (cur, d) edges) x'
    | Inl e \<Rightarrow> \<not> expandable reg policy roots"
    by simp
  show ?case
  proof (cases "visit_dep reg policy cur d x")
    case (Inr x')
    then have "ex_inv reg policy roots processed (insert (cur, d) edges) x'"
      using step by simp
    from Cons.IH [OF this Cons.prems(2)]
    have "case try_for (visit_dep reg policy cur) deps x' of
        Inr x'' \<Rightarrow> ex_inv reg policy roots processed (insert (cur, d) edges \<union> {cur} \<times> set deps) x''
      | Inl e \<Rightarrow> \<not> expandable reg policy roots"
      by simp
    moreover have "insert (cur, d) edges \<union> {cur} \<times> set deps = edges \<union> {cur} \<times> set (d # deps)"
      by auto
    ultimately show ?thesis
      unfolding try_for.simps Inr and_then.simps by (simp only:)
  qed (use step in simp)
qed simp

lemma ex_inv_pop:
  assumes "ex_inv reg policy roots processed edges x" and "ex_queue x = cur # queue"
  shows "ex_inv reg policy roots (insert cur processed) edges (x\<lparr>ex_queue := queue\<rparr>)"
proof -
  have "insert cur processed \<union> set queue = known x" "insert cur processed \<inter> set queue = {}" "distinct queue"
    using assms by (auto simp: ex_inv_def)
  then show ?thesis
    using assms(1) unfolding ex_inv_def by simp
qed

lemma expand_loop_inv:
  assumes ok: "registry_ok reg"
    and "ex_inv reg policy roots processed {(i, d) \<in> needs reg. i \<in> processed} x"
  shows "case expand_loop reg policy x of
      Inr x' \<Rightarrow> \<exists>processed'. ex_inv reg policy roots processed' {(i, d) \<in> needs reg. i \<in> processed'} x' \<and> ex_queue x' = []
    | Inl e \<Rightarrow> \<not> expandable reg policy roots"
  using assms
proof (induction reg policy x arbitrary: processed rule: expand_loop.induct)
  case (1 reg policy x)
  note ok = 1(2) and inv = 1(3)
  show ?case
  proof (cases "ex_queue x")
    case Nil
    then show ?thesis using inv by (auto simp: expand_loop.simps [of reg policy x])
  next
    case (Cons cur queue)
    have "cur \<in> known x" using inv Cons by (auto simp: ex_inv_def)
    then obtain c where c: "map_of (result_map x) cur = Some c" "(cur, c) \<in> set (result_map x)"
      by (metis map_of_SomeD map_of_eq_None_iff not_Some_eq)
    then have get: "registry_get reg cur = Some c" using inv by (auto simp: ex_inv_def)
    let ?edges = "{(i, d) \<in> needs reg. i \<in> processed}" and ?x = "x\<lparr>ex_queue := queue\<rparr>"
    have edges: "?edges \<union> {cur} \<times> set (dependencies c) = {(i, d) \<in> needs reg. i \<in> insert cur processed}"
      using get by (auto simp: needs_def)
    have hyp: "(cur, d) \<in> needs reg" if "d \<in> set (dependencies c)" for d
      using get that by (auto simp: needs_def)
    from visit_deps_inv [OF ok ex_inv_pop [OF inv Cons] insertI1, of "dependencies c", OF hyp]
    have step: "case try_for (visit_dep reg policy cur) (dependencies c) ?x of
        Inr x' \<Rightarrow> ex_inv reg policy roots (insert cur processed) {(i, d) \<in> needs reg. i \<in> insert cur processed} x'
      | Inl e \<Rightarrow> \<not> expandable reg policy roots"
      unfolding edges .
    show ?thesis
    proof (cases "try_for (visit_dep reg policy cur) (dependencies c) ?x")
      case (Inl e)
      then show ?thesis using step Cons c(1) by (simp add: expand_loop.simps [of reg policy x])
    next
      case (Inr x')
      then have "ex_inv reg policy roots (insert cur processed) {(i, d) \<in> needs reg. i \<in> insert cur processed} x'"
        using step by simp
      from 1(1) [OF Cons c(1) Inr ok this] show ?thesis
        using Cons c(1) Inr by (simp add: expand_loop.simps [of reg policy x])
    qed
  qed
qed

definition registered :: "'v capability_registry \<Rightarrow> 'v capability_contract \<Rightarrow> bool" where
  "registered reg c \<longleftrightarrow> registry_get reg (cc_id c) = Some c"

lemma other_ids:
  "cc_id c \<notin> cc_id ` S \<Longrightarrow> {kv \<in> (\<lambda>c. (cc_id c, c)) ` S. fst kv \<noteq> cc_id c} = (\<lambda>c. (cc_id c, c)) ` S"
  by (auto simp: image_iff)

lemma seed_all:
  assumes "distinct (map cc_id cs)"
  defines "x0 \<equiv> \<lparr>result_map = [], dep_edges = [], ex_queue = [], in_flight = {}\<rparr>"
  shows "case try_for (seed policy) cs x0 of
      Inr x \<Rightarrow> bt_ok (result_map x) \<and> set (result_map x) = (\<lambda>c. (cc_id c, c)) ` set cs \<and>
        ex_queue x = map cc_id cs \<and> dep_edges x = [] \<and> (\<forall>c\<in>set cs. permitted policy (cc_id c) (cc_id c))
    | Inl e \<Rightarrow> \<exists>c\<in>set cs. \<not> permitted policy (cc_id c) (cc_id c)"
  using assms(1)
proof (induction cs rule: rev_induct)
  case Nil
  then show ?case by (simp add: x0_def)
next
  case (snoc c cs)
  show ?case
  proof (cases "try_for (seed policy) cs x0")
    case (Inl e)
    then show ?thesis using snoc by (auto simp: try_for_append)
  next
    case (Inr x)
    then have x: "bt_ok (result_map x)" "set (result_map x) = (\<lambda>c. (cc_id c, c)) ` set cs"
      "ex_queue x = map cc_id cs" "dep_edges x = []" "\<forall>c\<in>set cs. permitted policy (cc_id c) (cc_id c)"
      using snoc by simp_all
    have "{kv \<in> set (result_map x). fst kv \<noteq> cc_id c} = set (result_map x)"
      unfolding x(2) by (rule other_ids) (use snoc.prems in simp)
    moreover have "try_for (seed policy) (cs @ [c]) x0 = seed policy c x"
      by (cases "seed policy c x") (simp_all add: try_for_append Inr)
    ultimately show ?thesis
      using x
      by (cases rule: check_policy_cases [of policy "cc_id c" c])
        (simp_all add: seed_def [of policy c x] set_bt_insert bt_insert_ok)
  qed
qed

lemma expand_dependencies_cases:
  assumes ok: "registry_ok reg" and dist: "distinct (map cc_id cs)" and reg: "\<forall>c\<in>set cs. registered reg c"
  shows "case expand_dependencies reg cs policy of
      Inr (all_contracts, edges) \<Rightarrow>
        map cc_id all_contracts = sorted_list_of_set (closure_of reg (cc_id ` set cs)) \<and>
        (\<forall>c\<in>set all_contracts. registered reg c) \<and> finite (closure_of reg (cc_id ` set cs)) \<and>
        dep_pairs edges = needs reg \<inter> closure_of reg (cc_id ` set cs) \<times> UNIV \<and>
        (\<forall>i\<in>closure_of reg (cc_id ` set cs). registry_contains reg i \<and> permitted policy i i)
    | Inl e \<Rightarrow> \<not> expandable reg policy (cc_id ` set cs)"
proof -
  let ?roots = "cc_id ` set cs" and ?x0 = "\<lparr>result_map = [], dep_edges = [], ex_queue = [], in_flight = {}\<rparr>"
  note seeds = seed_all [OF dist, of policy]
  show ?thesis
  proof (cases "try_for (seed policy) cs ?x0")
    case (Inl e)
    then obtain c where "c \<in> set cs" "\<not> permitted policy (cc_id c) (cc_id c)"
      using seeds by auto
    then have "\<not> expandable reg policy ?roots"
      by (auto simp: expandable_def intro: closure_root)
    then show ?thesis by (simp add: expand_dependencies_def Inl)
  next
    case (Inr x)
    then have x: "bt_ok (result_map x)" "set (result_map x) = (\<lambda>c. (cc_id c, c)) ` set cs"
      "ex_queue x = map cc_id cs" "dep_edges x = []" "\<forall>c\<in>set cs. permitted policy (cc_id c) (cc_id c)"
      using seeds by simp_all
    let ?x = "x\<lparr>in_flight := set (ex_queue x)\<rparr>"
    have "ex_inv reg policy ?roots {} {(i, d) \<in> needs reg. i \<in> {}} ?x"
      using x dist reg by (auto simp: ex_inv_def dep_pairs_def registered_def image_image intro: closure_root)
    from expand_loop_inv [OF ok this]
    have loop: "case expand_loop reg policy ?x of
        Inr x' \<Rightarrow> \<exists>K. ex_inv reg policy ?roots K {(i, d) \<in> needs reg. i \<in> K} x' \<and> ex_queue x' = []
      | Inl e \<Rightarrow> \<not> expandable reg policy ?roots" .
    show ?thesis
    proof (cases "expand_loop reg policy ?x")
      case L: (Inl e)
      then show ?thesis using loop by (simp add: expand_dependencies_def Inr)
    next
      case R: (Inr x')
      then obtain K E where inv: "ex_inv reg policy ?roots K E x'" "ex_queue x' = []"
        and E: "E = {(i, d) \<in> needs reg. i \<in> K}"
        using loop by auto
      note i = ex_invD [OF inv(1)]
      have f2: "registry_get reg i = Some c \<and> permitted policy i i" if "(i, c) \<in> set (result_map x')" for i c
        using bspec [OF i(2) that] by simp
      have K: "K = known x'"
        using i(6) by (simp add: inv(2))
      have "d \<in> known x'" if "i \<in> known x'" "(i, d) \<in> needs reg" for i d
      proof -
        have "(i, d) \<in> E" using that by (simp add: E K)
        then show ?thesis using i(10) by force
      qed
      then have cl: "closure_of reg ?roots = known x'"
        using i(4) closure_least [OF i(3)] by blast
      have ids: "cc_id c = i" if "(i, c) \<in> set (result_map x')" for i c
        using f2 [OF that] imr.get_id [OF ok] by blast
      have "map cc_id (map snd (result_map x')) = map fst (result_map x')"
        using ids by (auto simp: map_eq_conv)
      then have ids': "map cc_id (map snd (result_map x')) = sorted_list_of_set (closure_of reg ?roots)"
        using i(1) by (metis bt_ok_def cl list.set_map sorted_list_of_set.idem_if_sorted_distinct strict_sorted_iff)
      then have "sorted (map cc_id (map snd (result_map x')))"
        by simp
      then have srt: "sort_key cc_id (map snd (result_map x')) = map snd (result_map x')"
        by (intro properties_for_sort_key) simp_all
      have "registered reg c" if "c \<in> set (map snd (result_map x'))" for c
        using that f2 ids by (force simp: registered_def)
      moreover have "registry_contains reg i \<and> permitted policy i i" if "i \<in> closure_of reg ?roots" for i
        using that f2 unfolding cl by (force simp: registry_contains_def registry_get_def bt_contains_def)
      moreover have "dep_pairs (dep_edges x') = needs reg \<inter> closure_of reg ?roots \<times> UNIV"
        unfolding i(9) E K cl by auto
      moreover have "finite (closure_of reg ?roots)"
        unfolding cl by simp
      ultimately show ?thesis
        using ids' by (simp add: expand_dependencies_def Inr R srt)
    qed
  qed
qed

section \<open>Collecting the roots\<close>

lemma registered_inject: "registered reg c \<Longrightarrow> registered reg c' \<Longrightarrow> cc_id c = cc_id c' \<Longrightarrow> c = c'"
  by (simp add: registered_def)

definition collects ::
  "('x \<Rightarrow> 'v capability_contract list \<Rightarrow> 'e + 'v capability_contract list) \<Rightarrow>
    ('x \<Rightarrow> bool) \<Rightarrow> ('x \<Rightarrow> 'v capability_contract option) \<Rightarrow> bool" where
  "collects f good pick \<longleftrightarrow> (\<forall>x cs. if good x
     then f x cs = Inr (case pick x of Some c \<Rightarrow> push_instance c cs | None \<Rightarrow> cs) else is_ok (f x cs) = False)"

lemma push_instance_roots:
  assumes "registered reg c" and "\<forall>c\<in>set cs. registered reg c" and "distinct (map cc_id cs)"
  shows "set (push_instance c cs) = insert c (set cs)" and "distinct (map cc_id (push_instance c cs))"
  using assms registered_inject [of reg c] by (auto simp: push_instance_def)

lemma collect_roots:
  assumes "collects f good pick" and pick: "\<forall>x c. pick x = Some c \<longrightarrow> registered reg c"
    and "\<forall>c\<in>set cs. registered reg c" and "distinct (map cc_id cs)"
  shows "case try_for f xs cs of
      Inr cs' \<Rightarrow> (\<forall>x\<in>set xs. good x) \<and> set cs' = set cs \<union> {c. \<exists>x\<in>set xs. pick x = Some c} \<and>
        (\<forall>c\<in>set cs'. registered reg c) \<and> distinct (map cc_id cs')
    | Inl e \<Rightarrow> \<exists>x\<in>set xs. \<not> good x"
  using assms(3,4)
proof (induction xs arbitrary: cs)
  case (Cons x xs)
  show ?case
  proof (cases "good x")
    case False
    then have "is_ok (f x cs) = False"
      using assms(1) by (simp add: collects_def)
    then show ?thesis
      using False by (cases "f x cs") simp_all
  next
    case True
    let ?cs = "case pick x of Some c \<Rightarrow> push_instance c cs | None \<Rightarrow> cs"
    have f: "f x cs = Inr ?cs"
      using assms(1) True by (simp add: collects_def)
    have cs: "set ?cs = set cs \<union> {c. pick x = Some c}" "distinct (map cc_id ?cs)"
    proof -
      have r: "registered reg c" if "pick x = Some c" for c
        using pick that by simp
      show "set ?cs = set cs \<union> {c. pick x = Some c}" "distinct (map cc_id ?cs)"
        using push_instance_roots [OF r Cons.prems] Cons.prems(2)
        by (cases "pick x"; simp)+
    qed
    then have "\<forall>c\<in>set ?cs. registered reg c"
      using Cons.prems(1) pick by auto
    from Cons.IH [OF this cs(2)] show ?thesis
      using True by (cases "try_for f xs ?cs") (auto simp: f cs(1))
  qed
qed simp

definition latency_ok :: "'q requirement_set \<Rightarrow> 'v capability_contract \<Rightarrow> bool" where
  "latency_ok reqs c \<longleftrightarrow> (case max_acceptable_latency_ms reqs of None \<Rightarrow> True | Some m \<Rightarrow> estimated_latency_ms c \<le> m)"

abbreviation lookup :: "('v, 'q) capability_resolver \<Rightarrow> capability_id \<Rightarrow> 'v capability_contract option" where
  "lookup rv i \<equiv> registry_get (rv_registry rv) (alias_target (aliases rv) i)"

definition pick_version ::
  "('v::linorder, 'q) resolver_env \<Rightarrow> ('v, 'q) capability_resolver \<Rightarrow> 'q version_constraint \<Rightarrow> 'v capability_contract option" where
  "pick_version env rv vc = (case resolve_version env (rv_registry rv) vc of Inr c \<Rightarrow> Some c | Inl _ \<Rightarrow> None)"

lemma constraint_collects:
  "collects (resolve_constraint env rv reqs)
    (\<lambda>vc. \<exists>c. pick_version env rv vc = Some c \<and> permitted (rq_policy reqs) (cc_id c) (cc_id c)) (pick_version env rv)"
  unfolding collects_def
proof (intro allI)
  fix vc cs
  show "if \<exists>c. pick_version env rv vc = Some c \<and> permitted (rq_policy reqs) (cc_id c) (cc_id c)
    then resolve_constraint env rv reqs vc cs =
      Inr (case pick_version env rv vc of Some c \<Rightarrow> push_instance c cs | None \<Rightarrow> cs)
    else is_ok (resolve_constraint env rv reqs vc cs) = False"
  proof (cases "resolve_version env (rv_registry rv) vc")
    case (Inr c)
    then show ?thesis
      by (cases rule: check_policy_cases [of "rq_policy reqs" "cc_id c" c])
        (simp_all add: resolve_constraint_def pick_version_def)
  qed (simp add: resolve_constraint_def pick_version_def)
qed

lemma required_collects:
  "collects (resolve_required rv reqs)
    (\<lambda>i. \<exists>c. lookup rv i = Some c \<and> permitted (rq_policy reqs) i (cc_id c) \<and> latency_ok reqs c) (lookup rv)"
  unfolding collects_def
proof (intro allI)
  fix i cs
  show "if \<exists>c. lookup rv i = Some c \<and> permitted (rq_policy reqs) i (cc_id c) \<and> latency_ok reqs c
    then resolve_required rv reqs i cs = Inr (case lookup rv i of Some c \<Rightarrow> push_instance c cs | None \<Rightarrow> cs)
    else is_ok (resolve_required rv reqs i cs) = False"
  proof (cases "lookup rv i")
    case (Some c)
    then show ?thesis
      by (cases rule: check_policy_cases [of "rq_policy reqs" i c])
        (auto simp: resolve_required_def latency_ok_def not_less split: option.splits)
  qed (simp add: resolve_required_def)
qed

lemma optional_collects:
  "collects (resolve_optional rv reqs)
    (\<lambda>i. \<forall>c. lookup rv i = Some c \<longrightarrow> permitted (rq_policy reqs) i (cc_id c)) (lookup rv)"
  unfolding collects_def
proof (intro allI)
  fix i cs
  show "if \<forall>c. lookup rv i = Some c \<longrightarrow> permitted (rq_policy reqs) i (cc_id c)
    then resolve_optional rv reqs i cs = Inr (case lookup rv i of Some c \<Rightarrow> push_instance c cs | None \<Rightarrow> cs)
    else is_ok (resolve_optional rv reqs i cs) = False"
  proof (cases "lookup rv i")
    case (Some c)
    then show ?thesis
      by (cases rule: check_policy_cases [of "rq_policy reqs" i c]) (simp_all add: resolve_optional_def)
  qed (simp add: resolve_optional_def)
qed

section \<open>Exactness\<close>

lemma candidates_registered: "registry_ok reg \<Longrightarrow> c \<in> set (candidates env reg vc) \<Longrightarrow> registered reg c"
  by (simp add: candidates_def registered_def imr.listing_get)

lemma pick_version_cases:
  obtains "pick_version env rv vc = None" "candidates env (rv_registry rv) vc = []"
  | c where "pick_version env rv vc = Some c" "c \<in> set (candidates env (rv_registry rv) vc)"
      "\<forall>c'\<in>set (candidates env (rv_registry rv) vc). cc_version c' \<le> cc_version c"
proof (cases "candidates env (rv_registry rv) vc")
  case Nil
  then show ?thesis
    using that(1) by (simp add: pick_version_def resolve_version_def)
next
  case (Cons c0 cs0)
  let ?xs = "candidates env (rv_registry rv) vc" and ?ys = "sort_key cc_version (rev (candidates env (rv_registry rv) vc))"
  have "?ys \<noteq> []" using Cons by (metis length_0_conv length_rev length_sort list.distinct(1))
  then obtain zs c where ys: "?ys = zs @ [c]" by (metis rev_exhaust)
  have "sorted (map cc_version ?ys)" by simp
  then have "\<forall>c'\<in>set zs. cc_version c' \<le> cc_version c"
    unfolding ys by (simp add: sorted_append)
  moreover have xs: "set ?xs = insert c (set zs)"
    using arg_cong [OF ys, of set] by simp
  ultimately have "\<forall>c'\<in>set ?xs. cc_version c' \<le> cc_version c" by simp
  moreover have "pick_version env rv vc = Some c"
    by (simp add: pick_version_def resolve_version_def ys)
  ultimately show ?thesis
    using that(2) xs by blast
qed

definition root_ids ::
  "('v::linorder, 'q) resolver_env \<Rightarrow> ('v, 'q) capability_resolver \<Rightarrow> 'q requirement_set \<Rightarrow> capability_id set" where
  "root_ids env rv reqs = cc_id ` ({c. \<exists>vc\<in>set (version_constraints reqs). pick_version env rv vc = Some c} \<union>
     {c. \<exists>i\<in>set (required_capabilities reqs) \<union> set (optional_capabilities reqs). lookup rv i = Some c})"

definition resolvable ::
  "('v::linorder, 'q) resolver_env \<Rightarrow> ('v, 'q) capability_resolver \<Rightarrow> 'q requirement_set \<Rightarrow> bool" where
  "resolvable env rv reqs \<longleftrightarrow>
    (\<forall>vc\<in>set (version_constraints reqs). candidates env (rv_registry rv) vc \<noteq> []) \<and>
    (\<forall>i\<in>set (required_capabilities reqs). \<exists>c. lookup rv i = Some c \<and> latency_ok reqs c) \<and>
    (\<forall>i\<in>set (required_capabilities reqs) \<union> set (optional_capabilities reqs). \<forall>c.
       lookup rv i = Some c \<longrightarrow> permitted (rq_policy reqs) i (cc_id c)) \<and>
    expandable (rv_registry rv) (rq_policy reqs) (root_ids env rv reqs)"

lemma precheck_iff:
  "precheck rv reqs = Inr () \<longleftrightarrow>
    (\<forall>i\<in>set (required_capabilities reqs). \<forall>c. lookup rv i = Some c \<longrightarrow> permitted (rq_policy reqs) i (cc_id c))"
proof -
  have "precheck rv reqs = Inr () \<longleftrightarrow>
      (\<forall>i\<in>set (required_capabilities reqs). \<forall>c. lookup rv i = Some c \<longrightarrow> check_policy (rq_policy reqs) i c = Inr ())"
    by (cases "rq_policy reqs") (auto simp: precheck_def try_for_unit check_policy_def split: option.splits)
  then show ?thesis by (simp add: check_policy_iff)
qed

lemma build_graph_fields:
  assumes "distinct (map cc_id cs)"
  shows "bt_ok (cg_nodes (build_graph cs edges)) \<and> set (cg_nodes (build_graph cs edges)) = (\<lambda>c. (cc_id c, c)) ` set cs \<and>
    cg_dependencies (build_graph cs edges) = edges \<and> cg_conflicts (build_graph cs edges) = []"
proof -
  have nodes: "bt_ok (cg_nodes (fold cg_add_node cs capability_graph_new)) \<and>
      set (cg_nodes (fold cg_add_node cs capability_graph_new)) = (\<lambda>c. (cc_id c, c)) ` set cs \<and>
      cg_dependencies (fold cg_add_node cs capability_graph_new) = [] \<and>
      cg_conflicts (fold cg_add_node cs capability_graph_new) = []"
    using assms
  proof (induction cs rule: rev_induct)
    case (snoc c cs)
    then show ?case
      using other_ids [of c "set cs"] by (simp add: cg_add_node_def set_bt_insert bt_insert_ok)
  qed (simp add: capability_graph_new_def)
  have "fold (\<lambda>e. add_dependency (de_from e) (de_to e)) edges g = g\<lparr>cg_dependencies := cg_dependencies g @ edges\<rparr>" for g :: "'a capability_graph"
  proof (induction edges arbitrary: g)
    case (Cons e edges)
    have "e = \<lparr>de_from = de_from e, de_to = de_to e\<rparr>" by simp
    then show ?case using Cons by (simp add: add_dependency_def)
  qed simp
  then show ?thesis
    using nodes by (simp add: build_graph_def)
qed

lemma push_all: "distinct (map cc_id cs) \<Longrightarrow> fold push_instance cs [] = cs"
proof (induction cs rule: rev_induct)
  case (snoc c cs)
  then show ?case by (auto simp: push_instance_def)
qed simp

lemma validate_expanded:
  assumes ok: "registry_ok reg" and it: "iterates_all vo" "iterates_all ord"
    and cs: "distinct (map cc_id cs)" "cc_id ` set cs = closure_of reg roots" "\<forall>c\<in>set cs. registered reg c"
    and edges: "dep_pairs edges = needs reg \<inter> closure_of reg roots \<times> UNIV"
  shows "graph_validate vo ord (build_graph cs edges) = Inr () \<longleftrightarrow>
    acyclic (needs reg \<inter> closure_of reg roots \<times> closure_of reg roots)"
proof -
  let ?g = "build_graph cs edges" and ?C = "closure_of reg roots"
  note g = build_graph_fields [OF cs(1), of edges]
  have ids: "capability_ids ?g = ?C"
    using g cs(2) by (simp add: capability_ids_def image_image)
  have "must_precede ?g = (dep_pairs edges \<inter> ?C \<times> ?C)\<inverse>"
    using g unfolding must_precede_def ids dep_pairs_def by auto
  then have prec: "must_precede ?g = (needs reg \<inter> ?C \<times> ?C)\<inverse>"
    unfolding edges by auto
  have narrow: "\<forall>contract\<in>snd ` set (cg_nodes ?g). broad_grant (permissions contract) = None"
    using g cs(3) imr.get_narrow [OF ok] by (auto simp: registered_def)
  have "de_to dep \<in> ?C" if "dep \<in> set edges" for dep
  proof -
    have "(de_from dep, de_to dep) \<in> needs reg \<inter> ?C \<times> UNIV"
      using that edges by (auto simp: dep_pairs_def)
    then show ?thesis by (auto intro: closure_step)
  qed
  then show ?thesis
    using g narrow by (simp add: graph_validate_iff [OF it(2,1)] ids prec acyclic_converse)
qed

lemma resolve_roots_cases:
  assumes ok: "registry_ok (rv_registry rv)"
  shows "case resolve_roots env rv reqs of
      Inr cs \<Rightarrow> cc_id ` set cs = root_ids env rv reqs \<and> (\<forall>c\<in>set cs. registered (rv_registry rv) c) \<and>
        distinct (map cc_id cs) \<and>
        (resolvable env rv reqs \<longleftrightarrow> expandable (rv_registry rv) (rq_policy reqs) (root_ids env rv reqs))
    | Inl e \<Rightarrow> \<not> resolvable env rv reqs"
proof -
  let ?reg = "rv_registry rv" and ?pol = "rq_policy reqs" and ?roots = "root_ids env rv reqs"
  let ?vcs = "version_constraints reqs" and ?req = "required_capabilities reqs" and ?opt = "optional_capabilities reqs"
  have look: "\<forall>i c. lookup rv i = Some c \<longrightarrow> registered ?reg c"
    using imr.get_id [OF ok] by (auto simp: registered_def)
  have pick: "\<forall>vc c. pick_version env rv vc = Some c \<longrightarrow> registered ?reg c"
  proof (intro allI impI)
    fix vc c
    assume "pick_version env rv vc = Some c"
    then show "registered ?reg c"
      using candidates_registered [OF ok] by (cases rule: pick_version_cases [of env rv vc]) auto
  qed
  have vgood: "\<exists>c. pick_version env rv vc = Some c \<and> permitted ?pol (cc_id c) (cc_id c)"
    if r: "resolvable env rv reqs" and vc: "vc \<in> set ?vcs" for vc
  proof -
    have "candidates env ?reg vc \<noteq> []" using r vc by (simp add: resolvable_def)
    then obtain c where c: "pick_version env rv vc = Some c"
      by (cases rule: pick_version_cases [of env rv vc]) auto
    then have "cc_id c \<in> ?roots" using vc by (auto simp: root_ids_def)
    then show ?thesis
      using r c closure_root [of "cc_id c" ?roots ?reg] by (auto simp: resolvable_def expandable_def)
  qed
  note one = collect_roots [OF constraint_collects [of env rv reqs] pick, where cs = "[]" and xs = ?vcs, simplified]
  show ?thesis
  proof (cases "precheck rv reqs")
    case (Inl e)
    then have "precheck rv reqs \<noteq> Inr ()" by simp
    then show ?thesis
      unfolding precheck_iff by (auto simp: resolvable_def resolve_roots_def Inl)
  next
    case pre: (Inr u)
    show ?thesis
    proof (cases "try_for (resolve_constraint env rv reqs) ?vcs []")
      case (Inl e)
      then show ?thesis using one pre vgood by (auto simp: resolve_roots_def)
    next
      case c1: (Inr cs1)
      then have s1: "set cs1 = {c. \<exists>vc\<in>set ?vcs. pick_version env rv vc = Some c}"
        "\<forall>c\<in>set cs1. registered ?reg c" "distinct (map cc_id cs1)"
        "\<forall>vc\<in>set ?vcs. \<exists>c. pick_version env rv vc = Some c \<and> permitted ?pol (cc_id c) (cc_id c)"
        using one by simp_all
      note two = collect_roots [OF required_collects [of rv reqs] look s1(2,3), of ?req]
      show ?thesis
      proof (cases "try_for (resolve_required rv reqs) ?req cs1")
        case (Inl e)
        then obtain i where i: "i \<in> set ?req"
          "\<not> (\<exists>c. lookup rv i = Some c \<and> permitted ?pol i (cc_id c) \<and> latency_ok reqs c)"
          using two by auto
        then have "\<not> resolvable env rv reqs"
          unfolding resolvable_def by (meson UnI1)
        then show ?thesis using pre c1 Inl by (simp add: resolve_roots_def)
      next
        case c2: (Inr cs2)
        then have s2: "set cs2 = set cs1 \<union> {c. \<exists>i\<in>set ?req. lookup rv i = Some c}"
          "\<forall>c\<in>set cs2. registered ?reg c" "distinct (map cc_id cs2)"
          "\<forall>i\<in>set ?req. \<exists>c. lookup rv i = Some c \<and> permitted ?pol i (cc_id c) \<and> latency_ok reqs c"
          using two by simp_all
        note three = collect_roots [OF optional_collects [of rv reqs] look s2(2,3), of ?opt]
        show ?thesis
        proof (cases "try_for (resolve_optional rv reqs) ?opt cs2")
          case (Inl e)
          then show ?thesis using three pre c1 c2 by (auto simp: resolve_roots_def resolvable_def)
        next
          case c3: (Inr cs3)
          then have s3: "set cs3 = set cs2 \<union> {c. \<exists>i\<in>set ?opt. lookup rv i = Some c}"
            "\<forall>c\<in>set cs3. registered ?reg c" "distinct (map cc_id cs3)"
            "\<forall>i\<in>set ?opt. \<forall>c. lookup rv i = Some c \<longrightarrow> permitted ?pol i (cc_id c)"
            using three by simp_all
          have "cc_id ` set cs3 = ?roots"
            unfolding s3(1) s2(1) s1(1) root_ids_def by (rule arg_cong [where f = "image cc_id"]) blast
          moreover have "candidates env ?reg vc \<noteq> []" if "vc \<in> set ?vcs" for vc
            using bspec [OF s1(4) that] by (cases rule: pick_version_cases [of env rv vc]) auto
          moreover have "permitted ?pol i (cc_id c)" if "i \<in> set ?req \<union> set ?opt" "lookup rv i = Some c" for i c
            using that s2(4) s3(4) by force
          moreover have "\<exists>c. lookup rv i = Some c \<and> latency_ok reqs c" if "i \<in> set ?req" for i
            using that s2(4) by blast
          ultimately show ?thesis
            using s3(2,3) by (simp add: resolve_roots_def resolvable_def pre c1 c2 c3)
        qed
      qed
    qed
  qed
qed

lemma resolve_fresh_cases:
  assumes ok: "registry_ok (rv_registry rv)" and it: "iterates_all (values_order env)" "iterates_all (degrees_order env)"
  shows "case resolve_fresh env rv reqs of
      Inr res \<Rightarrow> resolvable env rv reqs \<and>
        map (cc_id \<circ> ci_contract) (rc_instances res) =
          sorted_list_of_set (closure_of (rv_registry rv) (root_ids env rv reqs)) \<and>
        (\<forall>inst\<in>set (rc_instances res). registered (rv_registry rv) (ci_contract inst))
    | Inl e \<Rightarrow> \<not> resolvable env rv reqs"
proof (cases "resolve_roots env rv reqs")
  case (Inl e)
  then show ?thesis using resolve_roots_cases [OF ok, of env reqs] by (simp add: resolve_fresh_def)
next
  case r: (Inr cs)
  let ?reg = "rv_registry rv" and ?pol = "rq_policy reqs" and ?roots = "root_ids env rv reqs"
  let ?C = "closure_of ?reg ?roots"
  have cs: "cc_id ` set cs = ?roots" "\<forall>c\<in>set cs. registered ?reg c" "distinct (map cc_id cs)"
    "resolvable env rv reqs \<longleftrightarrow> expandable ?reg ?pol ?roots"
    using resolve_roots_cases [OF ok, of env reqs] by (simp_all add: r)
  note ex = expand_dependencies_cases [OF ok cs(3,2), of ?pol, unfolded cs(1)]
  show ?thesis
  proof (cases "expand_dependencies ?reg cs ?pol")
    case (Inl e)
    then show ?thesis using ex cs(4) by (simp add: resolve_fresh_def r)
  next
    case (Inr p)
    obtain all edges where p: "p = (all, edges)" by (cases p)
    have a: "map cc_id all = sorted_list_of_set ?C" "\<forall>c\<in>set all. registered ?reg c" "finite ?C"
      "dep_pairs edges = needs ?reg \<inter> ?C \<times> UNIV" "\<forall>i\<in>?C. registry_contains ?reg i \<and> permitted ?pol i i"
      using ex by (simp_all add: Inr p)
    have ids: "distinct (map cc_id all)" "cc_id ` set all = ?C"
      using a(1,3) by (simp, metis list.set_map set_sorted_list_of_set)
    have "resolvable env rv reqs \<longleftrightarrow> acyclic (needs ?reg \<inter> ?C \<times> ?C)"
      using cs(4) a(5) by (simp add: expandable_def)
    also have "\<dots> \<longleftrightarrow> graph_validate (values_order env) (degrees_order env) (build_graph all edges) = Inr ()"
      using validate_expanded [OF ok it ids a(2,4)] by simp
    finally have val: "resolvable env rv reqs \<longleftrightarrow>
        graph_validate (values_order env) (degrees_order env) (build_graph all edges) = Inr ()" .
    have pol: "try_for (\<lambda>c u. check_policy ?pol (cc_id c) c) all () = Inr ()"
      using a(5) ids(2) by (auto simp: try_for_unit check_policy_iff)
    have inst: "map (cc_id \<circ> ci_contract) (map instance_of all) = map cc_id all"
      by (simp add: instance_of_def)
    show ?thesis
      using val a(1,2) inst
      by (cases "graph_validate (values_order env) (degrees_order env) (build_graph all edges)")
        (auto simp: resolve_fresh_def r Inr p push_all [OF ids(1)] pol instance_of_def)
  qed
qed

text \<open>C10. Resolution is exact. On a request that is not cached, \<open>resolve\<close> succeeds if and only if every version
  constraint has a candidate, every required capability is registered and fast enough, the policy permits every
  named capability under both its requested and its resolved name, and the closure of these roots under
  dependencies is registered, permitted and free of cycles. The result then is this closure: one instance per
  capability, in the order of the ids, each with its registered contract.\<close>

theorem resolve_exact:
  assumes "registry_ok (rv_registry rv)" and "iterates_all (values_order env)" and "iterates_all (degrees_order env)"
    and "map_of (rv_cache rv) reqs = None"
  shows "case fst (resolve env rv reqs) of
      Inr res \<Rightarrow> resolvable env rv reqs \<and>
        map (cc_id \<circ> ci_contract) (rc_instances res) =
          sorted_list_of_set (closure_of (rv_registry rv) (root_ids env rv reqs)) \<and>
        (\<forall>inst\<in>set (rc_instances res). registered (rv_registry rv) (ci_contract inst))
    | Inl e \<Rightarrow> \<not> resolvable env rv reqs"
  using resolve_fresh_cases [OF assms(1-3), of reqs] assms(4)
  by (cases "resolve_fresh env rv reqs") (simp_all add: resolve_def)

definition demo_resolver_env :: "(nat, nat) resolver_env" where
  "demo_resolver_env = \<lparr>matches = (\<le>), show_requirement = (\<lambda>_. ''>=''), values_order = id, degrees_order = rev,
     next_key = hd\<rparr>"

definition demo_resolver :: "(nat, nat) capability_resolver" where
  "demo_resolver = register_alias ''old'' ''b'' (resolver_new (fold registry_step demo_registrations registry_new))"

definition demo_requirements :: "nat requirement_set" where
  "demo_requirements = (requirement_set_new [''old''])\<lparr>
     rq_policy := Some \<lparr>pc_environment = ''prod'', allow_list = None, deny_list = [''c''], release_profile = None\<rparr>\<rparr>"

lemma demo_resolver_ok: "registry_ok (rv_registry demo_resolver)"
  unfolding demo_resolver_def register_alias_def resolver_new_def
  by (simp add: registry_run_ok registry_ok_new)

lemma demo_resolver_env_ok: "iterates_all (values_order demo_resolver_env)" "iterates_all (degrees_order demo_resolver_env)"
  by (simp_all add: demo_resolver_env_def iterates_all_def)

lemma demo_resolves:
  "resolve_fresh demo_resolver_env demo_resolver demo_requirements = Inr
    \<lparr>rc_graph = build_graph [demo_contract ''a'' [], demo_contract ''b'' [''a'']] [\<lparr>de_from = ''b'', de_to = ''a''\<rparr>],
     rc_instances = map instance_of [demo_contract ''a'' [], demo_contract ''b'' [''a'']]\<rparr>"
  by code_simp

theorem resolve_exact_witness:
  "map_of (rv_cache demo_resolver) demo_requirements = None \<and>
   resolvable demo_resolver_env demo_resolver demo_requirements \<and>
   sorted_list_of_set (closure_of (rv_registry demo_resolver) (root_ids demo_resolver_env demo_resolver demo_requirements)) =
     [''a'', ''b'']"
proof -
  have miss: "map_of (rv_cache demo_resolver) demo_requirements = None"
    by (simp add: demo_resolver_def register_alias_def resolver_new_def)
  show ?thesis
    using resolve_exact [OF demo_resolver_ok demo_resolver_env_ok miss] miss
    by (simp add: resolve_def demo_resolves instance_of_def demo_contract_def)
qed

section \<open>The cache is transparent\<close>

lemma map_of_filter_key: "map_of (filter (\<lambda>kv. fst kv \<noteq> a) g) k = (if k = a then None else map_of g k)"
  by (induction g) auto

lemma store_put_get:
  "map_of (store_put pick key v cap g) k = Some w \<Longrightarrow> (k = key \<and> w = v) \<or> map_of g k = Some w"
  by (auto simp: store_put_def Let_def AList.update_conv' map_of_filter_key split: if_splits)

lemma resolve_fresh_cache: "resolve_fresh env (rv\<lparr>rv_cache := c\<rparr>) reqs = resolve_fresh env rv reqs"
proof -
  have "precheck (rv\<lparr>rv_cache := c\<rparr>) reqs = precheck rv reqs"
    by (cases "rq_policy reqs") (simp_all add: precheck_def)
  moreover have "resolve_constraint env (rv\<lparr>rv_cache := c\<rparr>) reqs = resolve_constraint env rv reqs"
    by (intro ext) (simp add: resolve_constraint_def)
  moreover have "resolve_required (rv\<lparr>rv_cache := c\<rparr>) reqs = resolve_required rv reqs"
    by (intro ext) (simp add: resolve_required_def)
  moreover have "resolve_optional (rv\<lparr>rv_cache := c\<rparr>) reqs = resolve_optional rv reqs"
    by (intro ext) (simp add: resolve_optional_def)
  ultimately show ?thesis
    by (simp add: resolve_fresh_def resolve_roots_def)
qed

fun resolve_all ::
  "('v::linorder, 'q) resolver_env \<Rightarrow> ('v, 'q) capability_resolver \<Rightarrow> 'q requirement_set list \<Rightarrow>
    (resolver_error + 'v resolved_set) list" where
  "resolve_all env rv [] = []"
| "resolve_all env rv (reqs # rest) = (case resolve env rv reqs of (answer, rv') \<Rightarrow> answer # resolve_all env rv' rest)"

lemma resolve_all_fresh:
  "(\<And>k v. map_of c k = Some v \<Longrightarrow> resolve_fresh env rv k = Inr v) \<Longrightarrow>
    resolve_all env (rv\<lparr>rv_cache := c\<rparr>) requests = map (resolve_fresh env rv) requests"
proof (induction requests arbitrary: c)
  case (Cons reqs requests)
  show ?case
  proof (cases "map_of c reqs")
    case (Some v)
    then show ?thesis using Cons by (simp add: resolve_def)
  next
    case None
    show ?thesis
    proof (cases "resolve_fresh env rv reqs")
      case (Inl e)
      then show ?thesis using Cons None by (simp add: resolve_def resolve_fresh_cache)
    next
      case (Inr v)
      have "resolve_fresh env rv k = Inr w"
        if "map_of (store_put (next_key env) reqs v (rv_capacity rv) c) k = Some w" for k w
        using store_put_get [OF that] Cons.prems Inr by auto
      from Cons.IH [OF this] show ?thesis
        using None Inr by (simp add: resolve_def resolve_fresh_cache)
    qed
  qed
qed simp

text \<open>C25. The cache never changes an answer: over any sequence of requests, with whatever eviction and whatever
  capacity, a resolver that starts with an empty cache answers each of them as a resolver without a cache does.\<close>

theorem resolver_cache_transparent:
  assumes "rv_cache rv = []"
  shows "resolve_all env rv requests = map (resolve_fresh env rv) requests"
proof -
  have "rv\<lparr>rv_cache := []\<rparr> = rv"
    using assms by (cases rv) simp
  then show ?thesis
    using resolve_all_fresh [of "[]" env rv requests] by simp
qed

theorem resolver_cache_transparent_witness:
  "resolve_all demo_resolver_env demo_resolver [demo_requirements, demo_requirements] =
    map (resolve_fresh demo_resolver_env demo_resolver) [demo_requirements, demo_requirements]"
  by (rule resolver_cache_transparent) (simp add: demo_resolver_def register_alias_def resolver_new_def)

section \<open>What resolution does not look at\<close>

text \<open>An alias registered after a request was resolved does not reach that request: the resolver goes on answering
  it with the set it resolved before, whatever the alias now names.\<close>

theorem alias_after_resolve_ignored:
  assumes "fst (resolve env rv reqs) = Inr res"
  shows "fst (resolve env (register_alias alias target (snd (resolve env rv reqs))) reqs) = Inr res"
proof (cases "map_of (rv_cache rv) reqs")
  case (Some cached)
  then show ?thesis using assms by (simp add: resolve_def register_alias_def)
next
  case None
  then have "resolve_fresh env rv reqs = Inr res"
    using assms by (cases "resolve_fresh env rv reqs") (simp_all add: resolve_def)
  then show ?thesis
    using None by (simp add: resolve_def register_alias_def store_put_def Let_def AList.update_conv')
qed

theorem alias_after_resolve_ignored_witness:
  "map (cc_id \<circ> ci_contract) (rc_instances (projr (fst (resolve demo_resolver_env
     (register_alias ''old'' ''a'' (snd (resolve demo_resolver_env demo_resolver demo_requirements)))
     demo_requirements)))) = [''a'', ''b''] \<and>
   map (cc_id \<circ> ci_contract) (rc_instances (projr (resolve_fresh demo_resolver_env
     (register_alias ''old'' ''a'' demo_resolver) demo_requirements))) = [''a'']"
proof -
  have "map_of (rv_cache demo_resolver) demo_requirements = None"
    by (simp add: demo_resolver_def register_alias_def resolver_new_def)
  then obtain res where res: "fst (resolve demo_resolver_env demo_resolver demo_requirements) = Inr res"
    "map (cc_id \<circ> ci_contract) (rc_instances res) = [''a'', ''b'']"
    by (simp add: resolve_def demo_resolves instance_of_def demo_contract_def)
  moreover have "map (cc_id \<circ> ci_contract) (rc_instances (projr (resolve_fresh demo_resolver_env
     (register_alias ''old'' ''a'' demo_resolver) demo_requirements))) = [''a'']"
    by code_simp
  ultimately show ?thesis
    using alias_after_resolve_ignored [OF res(1), of "''old''" "''a''"] by simp
qed

text \<open>The cost ceiling of a request has no effect on its resolution.\<close>

theorem max_cost_ignored:
  "resolve_fresh env rv (reqs\<lparr>rq_max_cost := limit\<rparr>) = resolve_fresh env rv reqs"
proof -
  have "precheck rv (reqs\<lparr>rq_max_cost := limit\<rparr>) = precheck rv reqs"
    by (cases "rq_policy reqs") (simp_all add: precheck_def)
  moreover have "resolve_constraint env rv (reqs\<lparr>rq_max_cost := limit\<rparr>) = resolve_constraint env rv reqs"
    by (intro ext) (simp add: resolve_constraint_def)
  moreover have "resolve_required rv (reqs\<lparr>rq_max_cost := limit\<rparr>) = resolve_required rv reqs"
    by (intro ext) (simp add: resolve_required_def)
  moreover have "resolve_optional rv (reqs\<lparr>rq_max_cost := limit\<rparr>) = resolve_optional rv reqs"
    by (intro ext) (simp add: resolve_optional_def split: option.splits)
  ultimately show ?thesis
    by (simp add: resolve_fresh_def resolve_roots_def)
qed

end
