(* ===== verification/Planner.thy ===== *)
theory Planner
  imports IR_Builder Exec_Types
begin

text \<open>
  \<open>crates/fusion-planner/src/lib.rs\<close> and \<open>planning_request.rs\<close>: the intent planner, which turns a
  planning request into a chain of stages and assembles it with the workflow builder. \<open>planner_env\<close>
  holds \<open>Uuid::new_v5\<close>, the \<open>Debug\<close> rendering of an intent and the JSON text codec.
\<close>

section \<open>Requests\<close>

datatype execution_intent = Quality | Speed | Balanced | Exhaustive | Constrained "nano_usd option"

record policy_declaration =
  pd_id :: string
  pd_name :: string
  pd_rule :: string

record policy_snapshot =
  ps_version :: u64
  ps_policies :: "policy_declaration list"
  ps_created_at :: u64

record telemetry_snapshot =
  avg_latency_ms :: u64
  error_rate :: u64 \<comment> \<open>the bits of the \<open>f64\<close>; the planner never reads it\<close>
  healthy_provider_count :: nat

record requirements_snapshot =
  complexity :: string
  rs_execution_intent :: "execution_intent option"
  rs_required_capabilities :: "string list"

record planning_request =
  pr_intent :: execution_intent
  user_prompt :: string
  requested_model :: "string option"
  requested_strategy :: "string option"
  strategy_config :: "json btree option"
  requirements :: requirements_snapshot
  policies :: policy_snapshot
  pr_capability_catalog :: "string list btree"
  pr_model_catalog :: model_catalog
  telemetry :: telemetry_snapshot

datatype planner_error = PlannerError string string string

record planner_env =
  pl_new_v5 :: "string \<Rightarrow> uuid"
  pl_debug_intent :: "execution_intent \<Rightarrow> string"
  pl_json_text :: "json \<Rightarrow> string"

section \<open>Stages\<close>

record planner_stage =
  sg_node_id :: string
  sg_kind :: workflow_node_kind
  sg_capability :: string
  sg_strategy :: string

definition default_capabilities :: "execution_intent \<Rightarrow> string list" where
  "default_capabilities intent = (case intent of
     Speed \<Rightarrow> [''CodeGeneration'']
   | Balanced \<Rightarrow> [''CodeGeneration'', ''CodeGeneration'', ''CodeReview'']
   | Quality \<Rightarrow> [''CodeGeneration'', ''CodeReview'', ''CodeGeneration'', ''CodeReview'', ''CodeGeneration'']
   | Exhaustive \<Rightarrow> [''CodeGeneration'', ''CodeReview'', ''CodeGeneration'', ''CodeReview'', ''CodeGeneration'', ''Judgment'']
   | Constrained max_cost \<Rightarrow>
       if (case max_cost of Some c \<Rightarrow> 20000000 \<le> as_nanos c | None \<Rightarrow> False)
       then [''CodeGeneration'', ''CodeGeneration'', ''CodeReview'']
       else [''CodeGeneration''])"

definition intent_limit :: "execution_intent \<Rightarrow> nat \<Rightarrow> nat" where
  "intent_limit intent n_caps = (case intent of
     Speed \<Rightarrow> 1
   | Constrained (Some cost) \<Rightarrow> if as_nanos cost < 20000000 then 1 else max n_caps 1
   | _ \<Rightarrow> max n_caps 1)"

definition telemetry_limit :: "planning_request \<Rightarrow> nat \<Rightarrow> nat" where
  "telemetry_limit req n_caps =
    (if healthy_provider_count (telemetry req) = 0 then max n_caps 1 else healthy_provider_count (telemetry req))"

definition stage_kind :: "string \<Rightarrow> workflow_node_kind" where
  "stage_kind capability = (if find_after ''review'' (to_ascii_lowercase capability) \<noteq> None then NkReview else NkTask)"

definition stage_id :: "nat \<Rightarrow> string" where
  "stage_id i = ''n'' @ show_nat (i + 1)"

definition plan_stages :: "planning_request \<Rightarrow> planner_stage list" where
  "plan_stages req =
    (case requested_strategy req of
       Some strat \<Rightarrow>
         [\<lparr>sg_node_id = ''n1'', sg_kind = NkTask,
           sg_capability = (case rs_required_capabilities (requirements req) of c # _ \<Rightarrow> c | [] \<Rightarrow> ''CodeGeneration''),
           sg_strategy = strat\<rparr>]
     | None \<Rightarrow>
         (let required = rs_required_capabilities (requirements req);
              capabilities = (if required = [] then default_capabilities (pr_intent req) else required);
              limit = min (intent_limit (pr_intent req) (length capabilities)) (telemetry_limit req (length capabilities))
          in map (\<lambda>(i, capability). \<lparr>sg_node_id = stage_id i, sg_kind = stage_kind capability,
               sg_capability = capability, sg_strategy = ''Single''\<rparr>) (enumerate 0 (take limit capabilities))))"

definition resolve_stage_model :: "model_catalog \<Rightarrow> workflow_node_kind \<Rightarrow> planning_request \<Rightarrow> string" where
  "resolve_stage_model own kind req =
    (let by_catalog =
       (let catalog = (if mc_code (pr_model_catalog req) \<noteq> [] then pr_model_catalog req else own)
        in case kind of
             NkTask \<Rightarrow> if mc_code catalog \<noteq> [] then mc_code catalog else mc_general catalog
           | NkReview \<Rightarrow>
               if mc_analysis catalog \<noteq> [] then mc_analysis catalog
               else if mc_architecture catalog \<noteq> [] then mc_architecture catalog else mc_general catalog
           | NkJudge \<Rightarrow> if mc_architecture catalog \<noteq> [] then mc_architecture catalog else mc_general catalog
           | _ \<Rightarrow> mc_general catalog)
     in case requested_model req of
          Some explicit \<Rightarrow> if trim explicit \<noteq> [] then explicit else by_catalog
        | None \<Rightarrow> by_catalog)"

section \<open>Plan identity\<close>

fun plan_canonicalize :: "json \<Rightarrow> json" where
  "plan_canonicalize (JObject m) =
    JObject (bt_of_list (map (\<lambda>kv. (fst kv, plan_canonicalize (snd kv))) (sort_key fst m)))"
| "plan_canonicalize (JArray items) = JArray (map plan_canonicalize items)"
| "plan_canonicalize v = v"

definition canonical_json_value :: "planner_env \<Rightarrow> json \<Rightarrow> string" where
  "canonical_json_value env v = pl_json_text env (plan_canonicalize v)"

fun join_with :: "string \<Rightarrow> string list \<Rightarrow> string" where
  "join_with sep [] = []"
| "join_with sep [s] = s"
| "join_with sep (s # t # rest) = s @ sep @ join_with sep (t # rest)"

definition plan_identity :: "planner_env \<Rightarrow> planning_request \<Rightarrow> string" where
  "plan_identity env req = join_with ''|''
    [pl_debug_intent env (pr_intent req), user_prompt req, complexity (requirements req),
     join_with '','' (rs_required_capabilities (requirements req)),
     show_nat (unat (ps_version (policies req))), mc_code (pr_model_catalog req),
     show_nat (unat (avg_latency_ms (telemetry req))), show_nat (healthy_provider_count (telemetry req)),
     unwrap_or_default (requested_strategy req), unwrap_or_default (requested_model req),
     (case strategy_config req of Some m \<Rightarrow> canonical_json_value env (JObject (bt_of_list m)) | None \<Rightarrow> ''null'')]"

section \<open>Assembly\<close>

definition stage_config :: "planning_request \<Rightarrow> nat \<Rightarrow> planner_stage \<Rightarrow> json btree" where
  "stage_config req idx st =
    (let c1 = bt_insert ''stage_index'' (JNumber (PosInt (of_nat idx))) (bt_insert ''strategy'' (JString (sg_strategy st)) []);
         c2 = (if user_prompt req \<noteq> [] then bt_insert ''prompt'' (JString (user_prompt req)) c1 else c1)
     in case strategy_config req of Some extra_config \<Rightarrow> fold (\<lambda>(k, v). bt_insert k v) extra_config c2 | None \<Rightarrow> c2)"

definition add_stage ::
  "model_catalog \<Rightarrow> planning_request \<Rightarrow> nat \<times> planner_stage \<Rightarrow> workflow_builder \<Rightarrow> planner_error + workflow_builder" where
  "add_stage own req ist b = (case ist of (idx, st) \<Rightarrow>
     map_err (\<lambda>e. PlannerError ''BUILDER_ERR'' (''Failed to add node '' @ sg_node_id st @ '': '' @ validation_error_text e)
       ''Check workflow node topology'')
       (add_node_with_model b (sg_node_id st) (sg_kind st) (Some (sg_capability st))
         (Some (resolve_stage_model own (sg_kind st) req)) (stage_config req idx st)))"

definition wire_stage ::
  "planner_stage list \<Rightarrow> nat \<Rightarrow> workflow_builder \<Rightarrow> planner_error + workflow_builder" where
  "wire_stage stages i b =
    (let from = sg_node_id (stages ! i); to = sg_node_id (stages ! (i + 1))
     in map_err (\<lambda>e. PlannerError ''EDGE_ERR''
          (''Failed to wire edge '' @ from @ '' -> '' @ to @ '': '' @ validation_error_text e)
          ''Ensure source and target nodes exist'')
        (builder_sequential b from to))"

definition intent_label :: "execution_intent \<Rightarrow> string" where
  "intent_label intent = (case intent of Quality \<Rightarrow> ''quality'' | Speed \<Rightarrow> ''speed'' | Balanced \<Rightarrow> ''balanced''
     | Exhaustive \<Rightarrow> ''exhaustive'' | Constrained _ \<Rightarrow> ''constrained'')"

definition plan_metadata :: "planning_request \<Rightarrow> nat \<Rightarrow> workflow_metadata" where
  "plan_metadata req n_caps =
    (let estimated_tokens = saturating_mul (of_nat n_caps) 1000
     in \<lparr>wm_policy_applied = [''planner:synthesized'', ''intent:'' @ intent_label (pr_intent req)] @
           map pd_name (ps_policies (policies req)),
         wm_policy_version = ps_version (policies req),
         wm_estimated_cost = from_nanos (saturating_mul estimated_tokens 10000),
         wm_estimated_tokens = estimated_tokens\<rparr>)"

definition plan ::
  "planner_env \<Rightarrow> model_catalog \<Rightarrow> uuid \<Rightarrow> planning_request \<Rightarrow> planner_error + workflow_ir" where
  \<comment> \<open>\<open>fresh\<close> is the id that \<open>build\<close> would draw if none had been set\<close>
  "plan env own fresh req =
    (let stages = plan_stages req;
         builder = with_workflow_id builder_new (pl_new_v5 env (plan_identity env req))
     in and_then (try_for (add_stage own req) (enumerate 0 stages) builder) (\<lambda>b1.
        and_then (try_for (wire_stage stages) [0..<length stages - 1] b1) (\<lambda>b2.
        map_err (\<lambda>e. PlannerError ''BUILD_ERR'' (''Failed to finalize workflow IR: '' @ validation_error_text e)
          ''Validate workflow DAG acyclicity and metadata'')
          (build (builder_metadata b2 (plan_metadata req (length stages))) fresh))))"

definition requirements_default :: requirements_snapshot where
  "requirements_default = \<lparr>complexity = [], rs_execution_intent = None, rs_required_capabilities = []\<rparr>"

definition capability_catalog_new :: "string list btree" where
  "capability_catalog_new = bt_of_list
    [(''Vision'', [''ImageInput'']), (''JSON'', [''StructuredOutput'']), (''ToolCalling'', [''FunctionCalling'']),
     (''Reasoning'', [''ChainOfThought'']), (''Streaming'', [''SSE'']), (''Embeddings'', [''VectorEmbedding'']),
     (''Audio'', [''AudioInputOutput'']), (''ImageGen'', [''Diffusion'']), (''Video'', [''VideoInput'']),
     (''MCP'', [''ModelContextProtocol''])]"

definition plan_with_intent ::
  "planner_env \<Rightarrow> model_catalog \<Rightarrow> uuid \<Rightarrow> string \<Rightarrow> execution_intent \<Rightarrow> planner_error + workflow_ir" where
  "plan_with_intent env own fresh intent_text intent =
    (if intent_text = [] then Inl (PlannerError ''EMPTY_INTENT'' ''Intent cannot be empty''
       ''Provide a valid natural language prompt or workflow spec'')
     else plan env own fresh
       \<lparr>pr_intent = intent, user_prompt = intent_text, requested_model = None, requested_strategy = None,
        strategy_config = None, requirements = requirements_default,
        policies = \<lparr>ps_version = 0, ps_policies = [], ps_created_at = 0\<rparr>,
        pr_capability_catalog = capability_catalog_new, pr_model_catalog = own,
        telemetry = \<lparr>avg_latency_ms = 0, error_rate = 0, healthy_provider_count = 0\<rparr>\<rparr>)"

definition planner_service_plan ::
  "planner_env \<Rightarrow> model_catalog \<Rightarrow> uuid \<Rightarrow> string \<Rightarrow> planner_error + workflow_ir" where
  "planner_service_plan env own fresh intent_text = plan_with_intent env own fresh intent_text Balanced"

section \<open>The planned workflow\<close>

definition stage_node :: "model_catalog \<Rightarrow> planning_request \<Rightarrow> nat \<times> planner_stage \<Rightarrow> workflow_node" where
  "stage_node own req ist = (case ist of (idx, st) \<Rightarrow>
     \<lparr>wn_id = sg_node_id st, wn_kind = sg_kind st, wn_capability = Some (sg_capability st),
      wn_selected_model = Some (resolve_stage_model own (sg_kind st) req), wn_config = stage_config req idx st\<rparr>)"

definition chain_edge :: "nat \<Rightarrow> workflow_edge" where
  "chain_edge i = \<lparr>we_from = stage_id i, we_to = stage_id (i + 1), we_kind = EkSequential, we_condition = None\<rparr>"

definition planned :: "planner_env \<Rightarrow> model_catalog \<Rightarrow> planning_request \<Rightarrow> workflow_ir" where
  "planned env own req =
    \<lparr>wf_version = WORKFLOW_IR_VERSION, wf_workflow_id = pl_new_v5 env (plan_identity env req),
     wf_nodes = map (stage_node own req) (enumerate 0 (plan_stages req)),
     wf_edges = map chain_edge [0..<length (plan_stages req) - 1],
     wf_metadata = plan_metadata req (length (plan_stages req))\<rparr>"

definition config_accepted :: "planning_request \<Rightarrow> bool" where
  "config_accepted req \<longleftrightarrow> (case strategy_config req of None \<Rightarrow> True | Some m \<Rightarrow>
     provider_free (JObject m) \<and>
     map_of m ''control_flow'' \<notin> {Some (JString ''split''), Some (JString ''barrier'')})"

lemma stage_id_inject [simp]: "stage_id i = stage_id j \<longleftrightarrow> i = j"
  by (simp add: stage_id_def)

lemma plan_stages_ids: "map sg_node_id (plan_stages req) = map stage_id [0..<length (plan_stages req)]"
proof (cases "requested_strategy req")
  case None
  then show ?thesis
    by (intro nth_equalityI) (simp_all add: plan_stages_def Let_def nth_enumerate_eq)
next
  case (Some strat)
  have "''n1'' = stage_id 0" by code_simp
  then show ?thesis using Some by (simp add: plan_stages_def)
qed

lemma default_capabilities_nonempty: "default_capabilities intent \<noteq> []"
  by (simp add: default_capabilities_def split: execution_intent.splits)

lemma intent_limit_pos: "0 < intent_limit intent n"
  by (simp add: intent_limit_def less_max_iff_disj split: execution_intent.splits option.splits)

lemma telemetry_limit_pos: "0 < telemetry_limit req n"
  by (simp add: telemetry_limit_def less_max_iff_disj)

definition wanted :: "planning_request \<Rightarrow> string list" where
  "wanted req = (if rs_required_capabilities (requirements req) = [] then default_capabilities (pr_intent req)
     else rs_required_capabilities (requirements req))"

lemma wanted_nonempty: "0 < length (wanted req)"
  by (simp add: wanted_def default_capabilities_nonempty)

lemma length_plan_stages:
  "length (plan_stages req) = (case requested_strategy req of Some _ \<Rightarrow> 1 | None \<Rightarrow>
     min (length (wanted req)) (min (intent_limit (pr_intent req) (length (wanted req)))
       (telemetry_limit req (length (wanted req)))))"
  by (simp add: plan_stages_def Let_def wanted_def split: option.splits)

lemma plan_stages_nonempty: "0 < length (plan_stages req)"
  using wanted_nonempty [of req] intent_limit_pos telemetry_limit_pos
  by (simp add: length_plan_stages del: length_greater_0_conv split: option.splits)

lemma plan_stages_kind: "st \<in> set (plan_stages req) \<Longrightarrow> sg_kind st \<noteq> NkOutput"
  by (auto simp: plan_stages_def Let_def stage_kind_def in_set_enumerate_eq split: option.splits if_splits)

lemma add_stages:
  assumes "distinct (map sg_node_id sts)" and "wb_seen b \<inter> sg_node_id ` set sts = {}"
  shows "try_for (add_stage own req) (enumerate i sts) b =
    Inr (b\<lparr>wb_nodes := wb_nodes b @ map (stage_node own req) (enumerate i sts),
           wb_seen := wb_seen b \<union> sg_node_id ` set sts\<rparr>)"
  using assms
proof (induction sts arbitrary: i b)
  case (Cons st sts)
  let ?b = "b\<lparr>wb_seen := insert (sg_node_id st) (wb_seen b), wb_nodes := wb_nodes b @ [stage_node own req (i, st)]\<rparr>"
  have "add_stage own req (i, st) b = Inr ?b"
    using Cons.prems by (simp add: add_stage_def add_node_with_model_def push_node_def stage_node_def)
  moreover have "try_for (add_stage own req) (enumerate (Suc i) sts) ?b = Inr (?b\<lparr>
      wb_nodes := wb_nodes ?b @ map (stage_node own req) (enumerate (Suc i) sts),
      wb_seen := wb_seen ?b \<union> sg_node_id ` set sts\<rparr>)"
    using Cons.prems by (intro Cons.IH) auto
  ultimately show ?case by (simp add: Un_commute)
qed simp

lemma wire_stages:
  assumes "\<forall>i\<in>set is. i + 1 < length stages" and "sg_node_id ` set stages \<subseteq> wb_seen b"
  shows "try_for (wire_stage stages) is b = Inr (b\<lparr>wb_edges := wb_edges b @
    map (\<lambda>i. \<lparr>we_from = sg_node_id (stages ! i), we_to = sg_node_id (stages ! (i + 1)), we_kind = EkSequential,
      we_condition = None\<rparr>) is\<rparr>)"
  using assms
proof (induction "is" arbitrary: b)
  case (Cons i "is")
  have "stages ! i \<in> set stages" "stages ! Suc i \<in> set stages"
    using Cons.prems(1) by simp_all
  then have "sg_node_id (stages ! i) \<in> wb_seen b" "sg_node_id (stages ! Suc i) \<in> wb_seen b"
    using Cons.prems(2) by blast+
  then have "wire_stage stages i b = Inr (b\<lparr>wb_edges := wb_edges b @
      [\<lparr>we_from = sg_node_id (stages ! i), we_to = sg_node_id (stages ! (i + 1)), we_kind = EkSequential,
        we_condition = None\<rparr>]\<rparr>)"
    by (simp add: wire_stage_def builder_sequential_def builder_edge_def)
  then show ?case using Cons by simp
qed simp

lemma plan_eq:
  "plan env own fresh req =
    map_err (\<lambda>e. PlannerError ''BUILD_ERR'' (''Failed to finalize workflow IR: '' @ validation_error_text e)
          ''Validate workflow DAG acyclicity and metadata'')
      (case first_error (validate (planned env own req)) of Some e \<Rightarrow> Inl e | None \<Rightarrow> Inr (planned env own req))"
proof -
  let ?sts = "plan_stages req"
  let ?b0 = "with_workflow_id builder_new (pl_new_v5 env (plan_identity env req))"
  let ?b1 = "?b0\<lparr>wb_nodes := map (stage_node own req) (enumerate 0 ?sts), wb_seen := sg_node_id ` set ?sts\<rparr>"
  have "distinct (map sg_node_id ?sts)"
    unfolding plan_stages_ids by (simp add: distinct_map inj_on_def)
  then have one: "try_for (add_stage own req) (enumerate 0 ?sts) ?b0 = Inr ?b1"
    by (subst add_stages) (simp_all add: with_workflow_id_def builder_new_def)
  have ids: "sg_node_id (?sts ! i) = stage_id i" if "i < length ?sts" for i
    using arg_cong [OF plan_stages_ids [of req], of "\<lambda>xs. xs ! i"] that by simp
  have "try_for (wire_stage ?sts) [0..<length ?sts - 1] ?b1 =
      Inr (?b1\<lparr>wb_edges := map chain_edge [0..<length ?sts - 1]\<rparr>)"
    by (subst wire_stages) (auto simp: with_workflow_id_def builder_new_def chain_edge_def ids intro!: map_cong)
  moreover have "built_ir (builder_metadata (?b1\<lparr>wb_edges := map chain_edge [0..<length ?sts - 1]\<rparr>)
      (plan_metadata req (length ?sts))) fresh = planned env own req"
    by (simp add: built_ir_def planned_def with_workflow_id_def builder_new_def builder_metadata_def)
  ultimately show ?thesis
    unfolding plan_def Let_def one and_then.simps by (simp only: and_then.simps build_def Let_def)
qed

section \<open>When the chain is well formed\<close>

definition base_config :: "planning_request \<Rightarrow> nat \<Rightarrow> planner_stage \<Rightarrow> json btree" where
  "base_config req idx st = stage_config (req\<lparr>strategy_config := None\<rparr>) idx st"

lemma base_config_facts:
  "bt_ok (base_config req idx st)" "map_of (base_config req idx st) ''control_flow'' = None"
  "provider_free (JObject (base_config req idx st))"
proof -
  let ?c = "base_config req idx st"
  show ok: "bt_ok ?c"
    by (simp add: base_config_def stage_config_def bt_insert_ok Let_def del: bt_insert.simps)
  have m: "map_of ?c k = (if k = ''prompt'' \<and> user_prompt req \<noteq> [] then Some (JString (user_prompt req))
      else if k = ''stage_index'' then Some (JNumber (PosInt (of_nat idx)))
      else if k = ''strategy'' then Some (JString (sg_strategy st)) else None)" for k
    by (simp add: base_config_def stage_config_def map_of_bt_insert Let_def del: bt_insert.simps)
  show "map_of ?c ''control_flow'' = None"
    unfolding m by simp
  have "k \<notin> set RESERVED_PROVIDER_KEYS \<and> provider_free v" if "(k, v) \<in> set ?c" for k v
  proof -
    have "map_of ?c k = Some v" using that by (simp add: bt_lookup [OF ok])
    then show ?thesis
      unfolding m by (auto simp: RESERVED_PROVIDER_KEYS_def provider_free_def inside_simps split: if_splits)
  qed
  then show "provider_free (JObject ?c)"
    unfolding provider_free_object by force
qed

lemma provider_free_entries:
  "provider_free (JObject m) \<longleftrightarrow> (\<forall>kv\<in>set m. fst kv \<notin> set RESERVED_PROVIDER_KEYS \<and> provider_free (snd kv))"
  unfolding provider_free_object by blast

lemma stage_config_eq:
  "stage_config req idx st = (case strategy_config req of None \<Rightarrow> base_config req idx st
     | Some m \<Rightarrow> fold (\<lambda>(k, v). bt_insert k v) m (base_config req idx st))"
  by (simp add: base_config_def stage_config_def Let_def del: bt_insert.simps split: option.splits)

lemma stage_config_accepted:
  assumes "\<And>m. strategy_config req = Some m \<Longrightarrow> bt_ok m"
  shows "provider_free (JObject (stage_config req idx st)) \<longleftrightarrow>
      (case strategy_config req of None \<Rightarrow> True | Some m \<Rightarrow> provider_free (JObject m))"
    and "map_of (stage_config req idx st) ''control_flow'' =
      Option.bind (strategy_config req) (\<lambda>m. map_of m ''control_flow'')"
proof (atomize (full), cases "strategy_config req")
  case None
  then show "(provider_free (JObject (stage_config req idx st)) \<longleftrightarrow>
      (case strategy_config req of None \<Rightarrow> True | Some m \<Rightarrow> provider_free (JObject m))) \<and>
    map_of (stage_config req idx st) ''control_flow'' =
      Option.bind (strategy_config req) (\<lambda>m. map_of m ''control_flow'')"
    by (simp add: stage_config_eq base_config_facts)
next
  case (Some m)
  let ?b = "base_config req idx st" and ?c = "stage_config req idx st"
  have m: "bt_ok m" by (rule assms) (rule Some)
  have c: "?c = fold (\<lambda>(k, v). bt_insert k v) m ?b" by (simp add: stage_config_eq Some)
  have ok: "bt_ok ?c" unfolding c by (rule fold_insert_ok) (rule base_config_facts)
  have lookup: "map_of ?c k = (case map_of m k of Some v \<Rightarrow> Some v | None \<Rightarrow> map_of ?b k)" for k
    unfolding c by (rule map_of_fold_insert) (rule bt_ok_distinct [OF m])
  have sub: "set m \<subseteq> set ?c"
    by (auto simp: bt_lookup [OF ok, symmetric] bt_lookup [OF m, symmetric] lookup)
  have sup: "set ?c \<subseteq> set m \<union> set ?b"
    by (auto simp: bt_lookup [OF ok, symmetric] bt_lookup [OF m, symmetric]
        bt_lookup [OF base_config_facts(1), symmetric] lookup split: option.splits)
  have "provider_free (JObject ?c) \<longleftrightarrow> provider_free (JObject m)"
    using sub sup base_config_facts(3) [of req idx st] unfolding provider_free_entries
    by (meson UnE subsetD)
  then show "(provider_free (JObject ?c) \<longleftrightarrow>
      (case strategy_config req of None \<Rightarrow> True | Some m \<Rightarrow> provider_free (JObject m))) \<and>
    map_of ?c ''control_flow'' = Option.bind (strategy_config req) (\<lambda>m. map_of m ''control_flow'')"
    using base_config_facts(2) by (simp add: Some lookup split: option.splits)
qed

lemma planned_ids: "node_ids (planned env own req) = map stage_id [0..<length (plan_stages req)]"
proof -
  have "map (\<lambda>x. wn_id (stage_node own req x)) (enumerate 0 (plan_stages req)) = map sg_node_id (plan_stages req)"
    by (intro nth_equalityI) (simp_all add: stage_node_def nth_enumerate_eq)
  then show ?thesis
    by (simp add: node_ids_def planned_def comp_def plan_stages_ids)
qed

lemma planned_edge: "e \<in> set (wf_edges (planned env own req)) \<longleftrightarrow>
    (\<exists>i. i + 1 < length (plan_stages req) \<and> e = chain_edge i)"
proof -
  have "wf_edges (planned env own req) = map chain_edge [0..<length (plan_stages req) - 1]"
    by (simp add: planned_def)
  then show ?thesis by (auto simp: image_iff less_diff_conv)
qed

lemma planned_edges:
  "edge_rel (planned env own req) = {(stage_id i, stage_id (i + 1)) | i. i + 1 < length (plan_stages req)}"
  "forward_rel (planned env own req) = edge_rel (planned env own req)"
proof -
  have ends: "we_from (chain_edge i) = stage_id i" "we_to (chain_edge i) = stage_id (i + 1)"
    "we_kind (chain_edge i) = EkSequential" for i
    by (simp_all add: chain_edge_def)
  show "edge_rel (planned env own req) = {(stage_id i, stage_id (i + 1)) | i. i + 1 < length (plan_stages req)}"
    unfolding edge_rel_def planned_edge by (auto simp: ends) (metis ends add.commute plus_1_eq_Suc)
  show "forward_rel (planned env own req) = edge_rel (planned env own req)"
    unfolding edge_rel_def forward_rel_def planned_edge by (auto simp: ends)
qed

lemma planned_graph_ok: "graph_ok (planned env own req)"
proof -
  let ?ir = "planned env own req" and ?k = "length (plan_stages req)"
  have root: "is_root ?ir (stage_id 0)"
    using plan_stages_nonempty [of req] by (auto simp: is_root_def planned_ids planned_edges)
  have reach: "i < ?k \<Longrightarrow> (stage_id 0, stage_id i) \<in> (edge_rel ?ir)\<^sup>*" for i
  proof (induction i)
    case (Suc i)
    then have "(stage_id i, stage_id (Suc i)) \<in> edge_rel ?ir"
      by (auto simp: planned_edges)
    then show ?case using Suc by (meson Suc_lessD rtrancl.rtrancl_into_rtrancl)
  qed simp
  have "inj stage_id" by (simp add: inj_def)
  then have "acyclic (forward_rel ?ir)"
    by (intro acyclic_by_rank [where rank = "inv stage_id"]) (auto simp: planned_edges)
  moreover have "distinct (node_ids ?ir)"
    by (simp add: planned_ids distinct_map inj_on_def)
  moreover have "Field (edge_rel ?ir) \<subseteq> set (node_ids ?ir)"
    by (auto simp: Field_def planned_ids planned_edges)
  moreover have "\<exists>r. is_root ?ir r \<and> (r, n) \<in> (edge_rel ?ir)\<^sup>*" if "n \<in> set (node_ids ?ir)" for n
    using that root reach by (auto simp: planned_ids)
  ultimately show ?thesis
    using root unfolding graph_ok_def by blast
qed

lemma planned_outgoing: "outgoing_count (planned env own req) i \<le> 1"
proof -
  have "distinct (map we_from (wf_edges (planned env own req)))"
    by (simp add: planned_def chain_edge_def comp_def distinct_map inj_on_def)
  then have "distinct (map we_from (filter (\<lambda>e. we_from e = i) (wf_edges (planned env own req))))"
    by (rule distinct_map_filter)
  moreover have "set (map we_from (filter (\<lambda>e. we_from e = i) (wf_edges (planned env own req)))) \<subseteq> {i}"
    by auto
  ultimately have "length (map we_from (filter (\<lambda>e. we_from e = i) (wf_edges (planned env own req)))) \<le> card {i}"
    by (metis card_mono distinct_card finite.emptyI finite.insertI)
  then show ?thesis by (simp add: outgoing_count_def)
qed

lemma planned_well_formed:
  assumes "\<And>m. strategy_config req = Some m \<Longrightarrow> bt_ok m"
  shows "well_formed (planned env own req) \<longleftrightarrow> config_accepted req"
proof -
  let ?ir = "planned env own req"
  note config = stage_config_accepted [of req, OF assms]
  obtain st sts where sts: "plan_stages req = st # sts"
    using plan_stages_nonempty [of req] by (cases "plan_stages req") auto
  have nodes: "n \<in> set (wf_nodes ?ir) \<longleftrightarrow> (\<exists>i<length (plan_stages req). n = stage_node own req (i, plan_stages req ! i))" for n
    by (auto simp: planned_def in_set_enumerate_eq image_iff)
  have cfg: "wn_config n = stage_config req i (plan_stages req ! i)" "wn_kind n \<noteq> NkOutput" "wn_id n = stage_id i"
    if "n = stage_node own req (i, plan_stages req ! i)" "i < length (plan_stages req)" for n i
    using that plan_stages_kind [OF nth_mem [OF that(2)]] arg_cong [OF plan_stages_ids [of req], of "\<lambda>xs. xs ! i"]
    by (simp_all add: stage_node_def)
  have marked: "marked k n \<longleftrightarrow> Option.bind (strategy_config req) (\<lambda>m. map_of m ''control_flow'') = Some (JString k)"
    if "n \<in> set (wf_nodes ?ir)" for k n
  proof -
    obtain i where "n = stage_node own req (i, plan_stages req ! i)" "i < length (plan_stages req)"
      using \<open>n \<in> _\<close> unfolding nodes by blast
    from cfg(1) [OF this] show ?thesis by (simp add: marked_def config(2))
  qed
  have edges: "edge_ok ?ir e" if "e \<in> set (wf_edges ?ir)" for e
    using that unfolding planned_edge by (auto simp: edge_ok_def chain_edge_def)
  have first: "stage_node own req (0, st) \<in> set (wf_nodes ?ir)" "wn_id (stage_node own req (0, st)) \<notin> Range (edge_rel ?ir)"
    using cfg(3) [of "stage_node own req (0, st)" 0] by (auto simp: nodes sts planned_edges intro!: exI [of _ 0])
  have "(\<forall>n\<in>set (wf_nodes ?ir). node_ok ?ir n) \<longleftrightarrow> config_accepted req"
  proof
    assume ok: "\<forall>n\<in>set (wf_nodes ?ir). node_ok ?ir n"
    have "\<not> marked ''split'' (stage_node own req (0, st))" "\<not> marked ''barrier'' (stage_node own req (0, st))"
      "provider_free (JObject (stage_config req 0 st))"
      using bspec [OF ok first(1)] first(2) planned_outgoing [of env own req "sg_node_id st"]
      by (auto simp: node_ok_def stage_node_def)
    then show "config_accepted req"
      using marked [OF first(1)] config(1) [of 0 st] by (auto simp: config_accepted_def split: option.splits)
  next
    assume acc: "config_accepted req"
    show "\<forall>n\<in>set (wf_nodes ?ir). node_ok ?ir n"
    proof
      fix n
      assume n: "n \<in> set (wf_nodes ?ir)"
      then obtain i where "n = stage_node own req (i, plan_stages req ! i)" "i < length (plan_stages req)"
        by (auto simp: nodes)
      from cfg(1,2) [OF this] config(1) [of i "plan_stages req ! i"] show "node_ok ?ir n"
        using acc marked [OF n] by (auto simp: node_ok_def config_accepted_def split: option.splits)
    qed
  qed
  then show ?thesis
    using planned_graph_ok edges by (auto simp: well_formed_def planned_def)
qed

section \<open>What planning returns\<close>

lemma first_error_validate: "first_error (validate ir) = None \<longleftrightarrow> well_formed ir"
  by (simp add: validate_Nil_iff)


definition demo_request :: planning_request where
  "demo_request = \<lparr>pr_intent = Balanced, user_prompt = ''hello'', requested_model = None, requested_strategy = None,
     strategy_config = Some [(''temperature'', JNumber (PosInt 1))], requirements = requirements_default,
     policies = \<lparr>ps_version = 0, ps_policies = [], ps_created_at = 0\<rparr>,
     pr_capability_catalog = capability_catalog_new,
     pr_model_catalog = \<lparr>mc_code = ''c'', mc_debug = ''d'', mc_architecture = ''a'', mc_general = ''g'', mc_creative = ''v'',
       mc_analysis = ''n'', mc_fast = ''f'', mc_cheap = ''p''\<rparr>,
     telemetry = \<lparr>avg_latency_ms = 0, error_rate = 0, healthy_provider_count = 2\<rparr>\<rparr>"



text \<open>The identity a plan is derived from joins the required capabilities with commas and does not escape them, so
  two requests that differ only there, and whose plans have different numbers of stages, share a workflow id whatever
  the hash is.\<close>

theorem plan_identity_collision:
  "let req = demo_request\<lparr>strategy_config := None\<rparr>;
       one = req\<lparr>requirements := requirements_default\<lparr>rs_required_capabilities := [''a,b'']\<rparr>\<rparr>;
       two = req\<lparr>requirements := requirements_default\<lparr>rs_required_capabilities := [''a'', ''b'']\<rparr>\<rparr>
   in wf_workflow_id (planned env own one) = wf_workflow_id (planned env own two) \<and>
      plan env own fresh one = Inr (planned env own one) \<and> plan env own fresh two = Inr (planned env own two) \<and>
      length (wf_nodes (planned env own one)) = 1 \<and> length (wf_nodes (planned env own two)) = 2"
proof -
  have ok: "plan env own fresh req = Inr (planned env own req)" if "strategy_config req = None" for req
    using planned_well_formed [of req env own] that first_error_validate [of "planned env own req"]
    by (simp add: plan_eq config_accepted_def)
  have len: "length (wf_nodes (planned env own req)) = length (plan_stages req)" for req
    by (simp add: planned_def)
  show ?thesis
    unfolding Let_def
    by (simp add: ok len length_plan_stages wanted_def demo_request_def intent_limit_def telemetry_limit_def)
       (simp add: planned_def plan_identity_def requirements_default_def)
qed

end
