(* ===== verification/State_Merge.thy ===== *)
theory State_Merge
  imports Json
begin

text \<open>
  \<open>crates/fusion-agent-state/src/lib.rs\<close>: the merge of a state patch into the execution state of an
  agent and the validation of a state against a schema, both on JSON values. The merge is related to a
  reading of its result path by path, the validator to the rules of the schema language it supports.
\<close>

section \<open>Errors\<close>

datatype state_error =
    NotAnObject string | SchemaViolation string | MergeError string | PatchValidation string

definition state_error_text :: "state_error \<Rightarrow> string" where
  "state_error_text e = (case e of
     NotAnObject s \<Rightarrow> ''expected JSON object: '' @ s
   | SchemaViolation s \<Rightarrow> ''schema violation: '' @ s
   | MergeError s \<Rightarrow> ''merge error: '' @ s
   | PatchValidation s \<Rightarrow> ''patch validation failed: '' @ s)"

fun type_of :: "json \<Rightarrow> string" where
  "type_of JNull = ''null''"
| "type_of (JBool _) = ''bool''"
| "type_of (JNumber _) = ''number''"
| "type_of (JString _) = ''string''"
| "type_of (JArray _) = ''array''"
| "type_of (JObject _) = ''object''"

fun is_object :: "json \<Rightarrow> bool" where
  "is_object (JObject _) = True"
| "is_object _ = False"

section \<open>The merge operator\<close>

lemma size_list_sort [simp]: "size_list f (sort_key g xs) = size_list f xs"
proof -
  have "size_list f xs = sum_mset (image_mset f (mset xs)) + length xs" for xs
    by (induction xs) simp_all
  then show ?thesis by simp
qed

function (sequential) merge_state :: "json \<Rightarrow> json \<Rightarrow> state_error + json" and
  merge_entries :: "(string \<times> json) list \<Rightarrow> (string \<times> json) list \<Rightarrow> (string \<times> json) list \<Rightarrow>
    state_error + (string \<times> json) list" where
  "merge_state base JNull = Inl (MergeError ''top-level null patch is not a valid StatePatch'')"
| "merge_state (JObject base_map) (JObject patch_map) =
    and_then (merge_entries base_map (sort_key fst patch_map) base_map) (\<lambda>merged. Inr (JObject (bt_of_list merged)))"
| "merge_state base patch = Inr patch"
| "merge_entries base_map [] merged = Inr merged"
| "merge_entries base_map ((key, patch_val) # rest) merged =
    (if patch_val = JNull then merge_entries base_map rest (bt_remove key merged)
     else case map_of base_map key of
       Some base_val \<Rightarrow>
         (if is_object patch_val then
            if is_object base_val then
              and_then (merge_state base_val patch_val) (\<lambda>rec. merge_entries base_map rest (bt_insert key rec merged))
            else Inl (MergeError (''ambiguous merge: patch key '' @ [CHR 0x27] @ key @ [CHR 0x27] @
              '' is object but base is '' @ type_of base_val))
          else merge_entries base_map rest (bt_insert key patch_val merged))
     | None \<Rightarrow> merge_entries base_map rest (bt_insert key patch_val merged))"
  by pat_completeness auto

termination
  by (relation "measure (case_sum (\<lambda>(b, p). size p) (\<lambda>(b, ps, m). size_list (size_prod (\<lambda>_. 0) size) ps))") auto

section \<open>Schema validation\<close>

fun is_string :: "json \<Rightarrow> bool" where
  "is_string (JString _) = True"
| "is_string _ = False"

fun is_number :: "json \<Rightarrow> bool" where
  "is_number (JNumber _) = True"
| "is_number _ = False"

fun is_integer :: "json \<Rightarrow> bool" where
  \<comment> \<open>\<open>is_i64() || is_u64()\<close>\<close>
  "is_integer (JNumber (PosInt _)) = True"
| "is_integer (JNumber (NegInt _)) = True"
| "is_integer _ = False"

fun is_boolean :: "json \<Rightarrow> bool" where
  "is_boolean (JBool _) = True"
| "is_boolean _ = False"

fun is_array :: "json \<Rightarrow> bool" where
  "is_array (JArray _) = True"
| "is_array _ = False"

definition expected :: "string \<Rightarrow> string \<Rightarrow> string \<Rightarrow> state_error + 'a" where
  "expected path want got = Inl (SchemaViolation (path @ '': expected '' @ want @ '', got '' @ got))"

definition check_scalar :: "string \<Rightarrow> json \<Rightarrow> string \<Rightarrow> state_error + unit" where
  "check_scalar type_val v path =
    (if type_val = ''string'' then if is_string v then Inr () else expected path ''string'' (type_of v)
     else if type_val = ''number'' then if is_number v then Inr () else expected path ''number'' (type_of v)
     else if type_val = ''integer'' then
       if is_integer v then Inr ()
       else if is_number v then expected path ''integer'' ''float'' else expected path ''integer'' (type_of v)
     else if type_val = ''boolean'' then if is_boolean v then Inr () else expected path ''boolean'' (type_of v)
     else if type_val = ''array'' then if is_array v then Inr () else expected path ''array'' (type_of v)
     else Inr ())"

definition schema_required :: "(string \<times> json) list \<Rightarrow> string list" where
  "schema_required schema_obj = 
    (case Option.bind (map_of schema_obj ''required'') as_array of Some arr \<Rightarrow> List.map_filter as_str arr | None \<Rightarrow> [])"

definition schema_additional :: "(string \<times> json) list \<Rightarrow> bool" where
  "schema_additional schema_obj =
    (case Option.bind (map_of schema_obj ''additionalProperties'') as_bool of Some b \<Rightarrow> b | None \<Rightarrow> True)"

definition check_required :: "string list \<Rightarrow> (string \<times> json) list \<Rightarrow> string \<Rightarrow> state_error + unit" where
  "check_required required obj path = try_for (\<lambda>req u. if bt_contains obj req then Inr ()
     else Inl (SchemaViolation (path @ '': missing required property '' @ [CHR 0x27] @ req @ [CHR 0x27]))) required ()"

fun validate_value_against_schema :: "json \<Rightarrow> json \<Rightarrow> string \<Rightarrow> state_error + unit" and
  validate_entries :: "(string \<times> json) list \<Rightarrow> (string \<times> json) list \<Rightarrow> bool \<Rightarrow> string \<Rightarrow> state_error + unit" where
  "validate_value_against_schema v schema path =
    (case as_object schema of None \<Rightarrow> Inr () | Some schema_obj \<Rightarrow>
       (case Option.bind (map_of schema_obj ''type'') as_str of None \<Rightarrow> Inr () | Some type_val \<Rightarrow>
          (if type_val = ''object'' then
             (case v of
                JObject obj \<Rightarrow> and_then (check_required (schema_required schema_obj) obj path) (\<lambda>_.
                  case Option.bind (map_of schema_obj ''properties'') as_object of
                    Some props_map \<Rightarrow> validate_entries obj props_map (schema_additional schema_obj) path
                  | None \<Rightarrow> Inr ())
              | _ \<Rightarrow> expected path ''object'' (type_of v))
           else check_scalar type_val v path)))"
| "validate_entries [] props_map allow_additional path = Inr ()"
| "validate_entries ((k, u) # obj) props_map allow_additional path =
    (case map_of props_map k of
       Some prop_schema \<Rightarrow> and_then (validate_value_against_schema u prop_schema (path @ ''.'' @ k))
         (\<lambda>_. validate_entries obj props_map allow_additional path)
     | None \<Rightarrow>
         if allow_additional then validate_entries obj props_map allow_additional path
         else Inl (SchemaViolation (path @ '': additional property '' @ [CHR 0x27] @ k @ [CHR 0x27] @ '' not allowed'')))"

definition validate_against_schema :: "json \<Rightarrow> json \<Rightarrow> state_error + unit" where
  "validate_against_schema v schema =
    (if schema = JNull \<or> schema = JObject [] then Inr () else validate_value_against_schema v schema ''$'')"

section \<open>Values and paths\<close>

fun json_ok :: "json \<Rightarrow> bool" where
  "json_ok (JArray xs) = list_all json_ok xs"
| "json_ok (JObject m) = (bt_ok m \<and> list_all (\<lambda>kv. json_ok (snd kv)) m)"
| "json_ok _ = True"

fun at_path :: "json \<Rightarrow> string list \<Rightarrow> json option" where
  "at_path v [] = Some v"
| "at_path (JObject m) (k # ks) = (case map_of m k of Some v \<Rightarrow> at_path v ks | None \<Rightarrow> None)"
| "at_path _ (k # ks) = None"

definition conflicting :: "json \<Rightarrow> json \<Rightarrow> bool" where
  "conflicting base patch \<longleftrightarrow> (\<exists>path q v. path \<noteq> [] \<and> at_path patch path = Some q \<and> is_object q \<and>
     at_path base path = Some v \<and> \<not> is_object v)"

fun cut_off :: "json \<Rightarrow> string list \<Rightarrow> bool" where
  \<comment> \<open>a proper prefix of the path ends in a value of the patch that is no object\<close>
  "cut_off v [] = False"
| "cut_off (JObject m) (k # ks) = (case map_of m k of Some v \<Rightarrow> cut_off v ks | None \<Rightarrow> False)"
| "cut_off _ (k # ks) = True"

definition merged_at :: "json \<Rightarrow> json \<Rightarrow> string list \<Rightarrow> json option" where
  "merged_at base patch path = (case at_path patch path of
     Some v \<Rightarrow> if v = JNull \<and> at_path base (butlast path) \<noteq> None then None else Some v
   | None \<Rightarrow> if cut_off patch path then None else at_path base path)"

lemma is_object_iff: "is_object v \<longleftrightarrow> (\<exists>m. v = JObject m)"
  by (cases v) simp_all

lemma cut_off_leaf: "\<not> is_object v \<Longrightarrow> cut_off v ks \<longleftrightarrow> ks \<noteq> []"
  by (cases v; cases ks) simp_all

lemma at_path_leaf: "\<not> is_object v \<Longrightarrow> ks \<noteq> [] \<Longrightarrow> at_path v ks = None"
  by (cases v; cases ks) simp_all

lemma merge_state_error: "merge_state b p = Inl e \<Longrightarrow> \<exists>m. e = MergeError m"
  and merge_entries_error: "merge_entries bm ps acc = Inl e \<Longrightarrow> \<exists>m. e = MergeError m"
proof (induction b p and bm ps acc arbitrary: e and e rule: merge_state_merge_entries.induct)
qed (auto simp: and_then_Inl_iff split: if_splits option.splits)

subsection \<open>One level of the merge\<close>

definition merged_val :: "(string \<times> json) list \<Rightarrow> string \<Rightarrow> json \<Rightarrow> json option" where
  "merged_val b k pv = (if pv = JNull then None else case map_of b k of
     Some bv \<Rightarrow> if is_object pv then (case merge_state bv pv of Inr r \<Rightarrow> Some r | Inl _ \<Rightarrow> None) else Some pv
   | None \<Rightarrow> Some pv)"

definition clash :: "(string \<times> json) list \<Rightarrow> string \<times> json \<Rightarrow> bool" where
  "clash b kv \<longleftrightarrow> is_object (snd kv) \<and>
     (\<exists>bv. map_of b (fst kv) = Some bv \<and> (is_object bv \<longrightarrow> \<not> is_ok (merge_state bv (snd kv))))"

lemma is_ok_Inr: "is_ok r \<longleftrightarrow> (\<exists>a. r = Inr a)"
  by (cases r) simp_all

lemma merge_entries_is_ok: "is_ok (merge_entries b ps m) \<longleftrightarrow> (\<forall>kv\<in>set ps. \<not> clash b kv)"
proof (induction ps arbitrary: m)
  case (Cons kv ps)
  obtain k v where kv: "kv = (k, v)" by (cases kv)
  show ?case
  proof (cases "v = JNull \<or> map_of b k = None \<or> \<not> is_object v")
    case True
    then show ?thesis using Cons by (auto simp: kv clash_def split: option.splits)
  next
    case False
    then obtain bv where "map_of b k = Some bv" "is_object v" "v \<noteq> JNull" by auto
    then show ?thesis
      using Cons by (cases "merge_state bv v") (auto simp: kv clash_def)
  qed
qed simp

lemma merge_entries_ok: "merge_entries b ps m = Inr m' \<Longrightarrow> bt_ok m \<Longrightarrow> bt_ok m'"
  by (induction ps arbitrary: m, simp, clarsimp split: if_splits option.splits)
    (metis bt_insert_ok bt_remove_ok)+

lemma merge_entries_lookup:
  "merge_entries b ps m = Inr m' \<Longrightarrow> distinct (map fst ps) \<Longrightarrow>
    map_of m' k = (case map_of ps k of None \<Rightarrow> map_of m k | Some pv \<Rightarrow> merged_val b k pv)"
proof (induction ps arbitrary: m)
  case (Cons kv ps)
  obtain k' v where kv: "kv = (k', v)" by (cases kv)
  have "map_of ps k' = None" using Cons.prems(2) by (simp add: kv map_of_eq_None_iff)
  then show ?case
    using Cons by (auto simp: kv merged_val_def map_of_bt_insert map_of_bt_remove split: if_splits option.splits)
qed simp

lemma merge_object:
  assumes "bt_ok b" and "bt_ok p"
  shows "is_ok (merge_state (JObject b) (JObject p)) \<longleftrightarrow> (\<forall>kv\<in>set p. \<not> clash b kv)"
    and "merge_state (JObject b) (JObject p) = Inr r \<Longrightarrow> \<exists>m. r = JObject m \<and> bt_ok m \<and>
      (\<forall>k. map_of m k = (case map_of p k of None \<Rightarrow> map_of b k | Some pv \<Rightarrow> merged_val b k pv))"
proof -
  have p: "sort_key fst p = p"
    using assms(2) by (simp add: bt_ok_def strict_sorted_iff sort_key_id_if_sorted)
  show "is_ok (merge_state (JObject b) (JObject p)) \<longleftrightarrow> (\<forall>kv\<in>set p. \<not> clash b kv)"
    using merge_entries_is_ok [of b p b] by (cases "merge_entries b p b") (simp_all add: p)
  assume "merge_state (JObject b) (JObject p) = Inr r"
  then obtain m where m: "merge_entries b p b = Inr m" "r = JObject (bt_of_list m)"
    by (auto simp: p)
  have "bt_ok m" by (rule merge_entries_ok [OF m(1) assms(1)])
  then show "\<exists>m. r = JObject m \<and> bt_ok m \<and>
      (\<forall>k. map_of m k = (case map_of p k of None \<Rightarrow> map_of b k | Some pv \<Rightarrow> merged_val b k pv))"
    using merge_entries_lookup [OF m(1) bt_ok_distinct [OF assms(2)]]
    by (intro exI [of _ "bt_of_list m"]) (simp add: m(2) bt_of_list_ok map_of_bt_of_list bt_ok_distinct)
qed

lemma json_ok_lookup: "json_ok (JObject m) \<Longrightarrow> map_of m k = Some v \<Longrightarrow> json_ok v"
  by (auto simp: list_all_iff dest!: map_of_SomeD)

lemma conflicting_step:
  "conflicting (JObject b) (JObject p) \<longleftrightarrow> (\<exists>k pv bv. map_of p k = Some pv \<and> map_of b k = Some bv \<and> is_object pv \<and>
     (\<not> is_object bv \<or> conflicting bv pv))" (is "?l \<longleftrightarrow> ?r")
proof
  assume ?l
  then obtain path q v where path: "path \<noteq> []" "at_path (JObject p) path = Some q" "is_object q"
    "at_path (JObject b) path = Some v" "\<not> is_object v"
    unfolding conflicting_def by blast
  then obtain k ks where k: "path = k # ks" by (cases path) auto
  then obtain pv bv where pv: "map_of p k = Some pv" "map_of b k = Some bv" "at_path pv ks = Some q" "at_path bv ks = Some v"
    using path(2,4) by (auto split: option.splits)
  have "is_object pv"
    using pv(3) path(3) at_path_leaf [of pv ks] by (cases "ks = []") auto
  moreover have "\<not> is_object bv \<or> conflicting bv pv"
    using pv(3,4) path(3,5) unfolding conflicting_def by (cases "ks = []") auto
  ultimately show ?r using pv(1,2) by blast
next
  assume ?r
  then obtain k pv bv where k: "map_of p k = Some pv" "map_of b k = Some bv" "is_object pv"
    and or: "\<not> is_object bv \<or> conflicting bv pv" by blast
  from or show ?l
  proof
    assume "\<not> is_object bv"
    then show ?l unfolding conflicting_def using k by (intro exI [of _ "[k]"]) simp
  next
    assume "conflicting bv pv"
    then obtain path q v where "path \<noteq> []" "at_path pv path = Some q" "is_object q" "at_path bv path = Some v" "\<not> is_object v"
      unfolding conflicting_def by blast
    then show ?l unfolding conflicting_def using k by (intro exI [of _ "k # path"]) simp
  qed
qed

lemma merge_is_ok:
  "json_ok b \<Longrightarrow> json_ok p \<Longrightarrow> is_object b \<Longrightarrow> is_object p \<Longrightarrow> is_ok (merge_state b p) \<longleftrightarrow> \<not> conflicting b p"
proof (induction "size p" arbitrary: b p rule: less_induct)
  case less
  obtain bm pm where o: "b = JObject bm" "p = JObject pm"
    using less.prems(3,4) by (auto simp: is_object_iff)
  have ok: "bt_ok bm" "bt_ok pm" using less.prems(1,2) by (simp_all add: o)
  have IH: "is_ok (merge_state bv pv) \<longleftrightarrow> \<not> conflicting bv pv"
    if "map_of pm k = Some pv" "map_of bm k = Some bv" "is_object pv" "is_object bv" for k pv bv
  proof (rule less.hyps)
    show "size pv < size p"
      using map_of_SomeD [OF that(1)] size_list_estimation' [of "(k, pv)" pm "size pv" "size_prod (\<lambda>_. 0) size"]
      by (simp add: o)
  qed (use that less.prems(1,2) json_ok_lookup in \<open>auto simp: o simp del: json_ok.simps\<close>)
  have "is_ok (merge_state b p) \<longleftrightarrow> (\<forall>k pv. map_of pm k = Some pv \<longrightarrow> \<not> clash bm (k, pv))"
    unfolding o merge_object(1) [OF ok] by (auto simp: bt_lookup [OF ok(2)])
  also have "\<dots> \<longleftrightarrow> \<not> conflicting b p"
    unfolding o conflicting_step clash_def using IH by (auto 0 4)
  finally show ?case .
qed

lemma merge_json_ok:
  "merge_state b p = Inr r \<Longrightarrow> json_ok b \<Longrightarrow> json_ok p \<Longrightarrow> json_ok r"
proof (induction "size p" arbitrary: b p r rule: less_induct)
  case less
  show ?case
  proof (cases "is_object b \<and> is_object p")
    case True
    then obtain bm pm where o: "b = JObject bm" "p = JObject pm"
      by (auto simp: is_object_iff)
    have ok: "bt_ok bm" "bt_ok pm" using less.prems(2,3) by (simp_all add: o)
    obtain m where m: "r = JObject m" "bt_ok m"
      and law: "\<And>k. map_of m k = (case map_of pm k of None \<Rightarrow> map_of bm k | Some pv \<Rightarrow> merged_val bm k pv)"
      using merge_object(2) [OF ok] less.prems(1) unfolding o by blast
    have "json_ok v" if kv: "map_of m k = Some v" for k v
    proof (cases "map_of pm k")
      case None
      then show ?thesis using kv law [of k] json_ok_lookup [of bm k v] less.prems(2) by (simp add: o)
    next
      case (Some pv)
      have pv: "json_ok pv" "size pv < size p"
        using json_ok_lookup [of pm k pv] less.prems(3) Some map_of_SomeD [OF Some]
          size_list_estimation' [of "(k, pv)" pm "size pv" "size_prod (\<lambda>_. 0) size"] by (simp_all add: o)
      have "v = pv \<or> (\<exists>bv. map_of bm k = Some bv \<and> merge_state bv pv = Inr v)"
        using kv law [of k] Some by (auto simp: merged_val_def split: if_splits option.splits sum.splits)
      then show ?thesis
        using pv less.hyps [of pv] json_ok_lookup [of bm k] less.prems(2) unfolding o by blast
    qed
    then show ?thesis
      using m by (simp add: list_all_iff) (metis bt_lookup prod.collapse)
  next
    case False
    then show ?thesis using less.prems by (cases b; cases p) simp_all
  qed
qed

lemma merge_at_path:
  assumes "merge_state b p = Inr r" and "json_ok b" and "json_ok p" and "is_object b" and "is_object p"
  shows "if \<exists>q. at_path p path = Some (JObject q) then \<exists>m. at_path r path = Some (JObject m)
    else at_path r path = merged_at b p path"
  using assms
proof (induction path arbitrary: b p r)
  case Nil
  then show ?case using merge_object(2) by (auto simp: is_object_iff)
next
  case (Cons k ks)
  obtain bm pm where o: "b = JObject bm" "p = JObject pm"
    using Cons.prems(4,5) by (auto simp: is_object_iff)
  have ok: "bt_ok bm" "bt_ok pm" using Cons.prems(2,3) by (simp_all add: o)
  obtain m where m: "r = JObject m"
    and law: "map_of m k = (case map_of pm k of None \<Rightarrow> map_of bm k | Some pv \<Rightarrow> merged_val bm k pv)"
    using merge_object(2) [OF ok] Cons.prems(1) unfolding o by blast
  note laws = merged_at_def at_path_leaf cut_off_leaf
  show ?case
  proof (cases "map_of pm k")
    case None
    then show ?thesis using law by (simp add: o m laws)
  next
    case (Some pv)
    show ?thesis
    proof (cases "is_object pv \<and> map_of bm k \<noteq> None")
      case True
      then obtain bv where bv: "map_of bm k = Some bv" "is_object pv" by auto
      have "is_ok (merge_state b p)" using Cons.prems(1) by simp
      then have "\<not> clash bm (k, pv)"
        using merge_object(1) [OF ok] map_of_SomeD [OF Some] by (auto simp: o)
      then obtain s where s: "is_object bv" "merge_state bv pv = Inr s"
        using bv by (auto simp: clash_def is_ok_Inr)
      then have "map_of m k = Some s"
        using law Some bv by (auto simp: merged_val_def)
      moreover have "if \<exists>q. at_path pv ks = Some (JObject q) then \<exists>m. at_path s ks = Some (JObject m)
          else at_path s ks = merged_at bv pv ks"
        using Some bv s json_ok_lookup Cons.prems(2,3) unfolding o by (intro Cons.IH) blast+
      moreover have "ks \<noteq> [] \<or> (\<exists>q. at_path pv ks = Some (JObject q))"
        using bv(2) by (cases ks) (auto simp: is_object_iff)
      moreover have "merged_at b p (k # ks) = merged_at bv pv ks" if "ks \<noteq> []"
        using Some bv(1) that by (simp add: o merged_at_def split: option.splits)
      ultimately show ?thesis
        using Some bv(1) by (cases "ks = []") (auto simp: o m)
    next
      case False
      then have "map_of m k = (if pv = JNull then None else Some pv)"
        using law Some by (auto simp: merged_val_def split: option.splits)
      then show ?thesis
        using Some False by (cases ks; cases "is_object pv") (auto simp: o m laws split: option.splits)
    qed
  qed
qed

text \<open>C12. Merging a patch object into a state object fails, with a merge error, exactly when some path leads to an
  object in the patch and to a value that is no object in the state. Otherwise it succeeds and the result reads, path by
  path, as follows: where the patch has a value that is no object, the result has that value, except that a null deletes
  the key of an object that the state has; where the patch has an object, the result has an object; below a value the
  patch replaces or deletes there is nothing; everywhere else the result has what the state has.\<close>

theorem merge_state_exact:
  assumes "json_ok base" and "json_ok patch" and "is_object base" and "is_object patch"
  shows "if conflicting base patch then \<exists>msg. merge_state base patch = Inl (MergeError msg)
    else \<exists>r. merge_state base patch = Inr r \<and> json_ok r \<and> is_object r \<and>
      (\<forall>path. if \<exists>q. at_path patch path = Some (JObject q) then \<exists>m. at_path r path = Some (JObject m)
         else at_path r path = merged_at base patch path)"
proof (cases "conflicting base patch")
  case True
  then obtain e where "merge_state base patch = Inl e"
    using merge_is_ok [OF assms] by (cases "merge_state base patch") auto
  then show ?thesis using True merge_state_error by auto
next
  case False
  then obtain r where r: "merge_state base patch = Inr r"
    using merge_is_ok [OF assms] by (auto simp: is_ok_Inr)
  have path: "if \<exists>q. at_path patch path = Some (JObject q) then \<exists>m. at_path r path = Some (JObject m)
      else at_path r path = merged_at base patch path" for path
    by (rule merge_at_path [OF r assms])
  have "is_object r"
    using path [of "[]"] assms(4) by (auto simp: is_object_iff)
  then show ?thesis using False r path merge_json_ok [OF r assms(1,2)] by auto
qed

theorem merge_state_exact_witness:
  "\<exists>r. merge_state (JObject [(''a'', JObject [(''x'', JBool True), (''y'', JNull)]), (''b'', JBool True)])
       (JObject [(''a'', JObject [(''x'', JNull)]), (''c'', JBool False)]) = Inr r \<and>
     at_path r [''a'', ''x''] = None \<and> at_path r [''b''] = Some (JBool True)"
proof -
  let ?b = "JObject [(''a'', JObject [(''x'', JBool True), (''y'', JNull)]), (''b'', JBool True)]"
  let ?p = "JObject [(''a'', JObject [(''x'', JNull)]), (''c'', JBool False)]"
  have "is_ok (merge_state ?b ?p)" by code_simp
  then have ok: "\<not> (\<exists>msg. merge_state ?b ?p = Inl (MergeError msg))" by auto
  have "json_ok ?b" "json_ok ?p" by code_simp+
  from merge_state_exact [OF this] ok obtain r where r: "merge_state ?b ?p = Inr r"
    and path: "\<And>path. if \<exists>q. at_path ?p path = Some (JObject q) then \<exists>m. at_path r path = Some (JObject m)
      else at_path r path = merged_at ?b ?p path"
    by (auto split: if_splits)
  have "merged_at ?b ?p [''a'', ''x''] = None" "merged_at ?b ?p [''b''] = Some (JBool True)"
    by code_simp+
  then show ?thesis using r path [of "[''a'', ''x'']"] path [of "[''b'']"] by simp
qed

section \<open>The schema language\<close>

definition has_type :: "string \<Rightarrow> json \<Rightarrow> bool" where
  "has_type t v \<longleftrightarrow> (t = ''object'' \<longrightarrow> is_object v) \<and> (t = ''string'' \<longrightarrow> is_string v) \<and> (t = ''number'' \<longrightarrow> is_number v) \<and>
     (t = ''integer'' \<longrightarrow> is_integer v) \<and> (t = ''boolean'' \<longrightarrow> is_boolean v) \<and> (t = ''array'' \<longrightarrow> is_array v)"

inductive violates :: "json \<Rightarrow> json \<Rightarrow> bool" where
  wrong_type: "map_of s ''type'' = Some (JString t) \<Longrightarrow> \<not> has_type t v \<Longrightarrow> violates v (JObject s)"
| missing_property: "map_of s ''type'' = Some (JString ''object'') \<Longrightarrow> map_of s ''required'' = Some (JArray rs) \<Longrightarrow>
    JString r \<in> set rs \<Longrightarrow> map_of m r = None \<Longrightarrow> violates (JObject m) (JObject s)"
| bad_property: "map_of s ''type'' = Some (JString ''object'') \<Longrightarrow> map_of s ''properties'' = Some (JObject ps) \<Longrightarrow>
    (k, u) \<in> set m \<Longrightarrow> map_of ps k = Some sch \<Longrightarrow> violates u sch \<Longrightarrow> violates (JObject m) (JObject s)"
| extra_property: "map_of s ''type'' = Some (JString ''object'') \<Longrightarrow> map_of s ''properties'' = Some (JObject ps) \<Longrightarrow>
    map_of s ''additionalProperties'' = Some (JBool False) \<Longrightarrow> (k, u) \<in> set m \<Longrightarrow> map_of ps k = None \<Longrightarrow>
    violates (JObject m) (JObject s)"

inductive_simps violates_iff: "violates v (JObject s)"


lemma as_eq_Some_iff:
  "as_str v = Some x \<longleftrightarrow> v = JString x" "as_object v = Some m \<longleftrightarrow> v = JObject m"
  "as_array v = Some xs \<longleftrightarrow> v = JArray xs" "as_bool v = Some b \<longleftrightarrow> v = JBool b"
  by (cases v; auto)+

lemma check_required_iff:
  "check_required required obj path = Inr () \<longleftrightarrow> (\<forall>r\<in>set required. map_of obj r \<noteq> None)"
  by (induction required) (auto simp: check_required_def bt_contains_def)

lemma set_schema_required:
  "r \<in> set (schema_required s) \<longleftrightarrow> (\<exists>rs. map_of s ''required'' = Some (JArray rs) \<and> JString r \<in> set rs)"
proof (cases "Option.bind (map_of s ''required'') as_array")
  case None
  then have "map_of s ''required'' \<noteq> Some (JArray rs)" for rs by auto
  then show ?thesis by (simp add: schema_required_def None)
next
  case (Some arr)
  then have "map_of s ''required'' = Some (JArray arr)"
    by (auto simp: bind_eq_Some_conv as_eq_Some_iff)
  then show ?thesis
    by (auto simp: schema_required_def map_filter_def as_eq_Some_iff image_iff split: option.splits)
qed

lemma schema_additional_iff: "schema_additional s \<longleftrightarrow> map_of s ''additionalProperties'' \<noteq> Some (JBool False)"
  by (cases "map_of s ''additionalProperties''"; rule json.exhaust [of "the (map_of s ''additionalProperties'')"])
    (auto simp: schema_additional_def)

lemma check_scalar_iff: "t \<noteq> ''object'' \<Longrightarrow> check_scalar t v path = Inr () \<longleftrightarrow> has_type t v"
  by (auto simp: check_scalar_def has_type_def expected_def)

lemma entries_Ball: "(\<forall>(k, u)\<in>set m. P k u) \<longleftrightarrow> (\<forall>k u. (k, u) \<in> set m \<longrightarrow> P k u)"
  by auto

declare validate_value_against_schema.simps [simp del]

lemma validate_value_iff: "validate_value_against_schema v schema path = Inr () \<longleftrightarrow> \<not> violates v schema"
  and validate_entries_iff: "validate_entries obj props_map allow ep = Inr () \<longleftrightarrow>
    (\<forall>(k, u)\<in>set obj. case map_of props_map k of Some sch \<Rightarrow> \<not> violates u sch | None \<Rightarrow> allow)"
proof (induction v schema path and obj props_map allow ep rule: validate_value_against_schema_validate_entries.induct)
  case (1 v schema path)
  show ?case
  proof (cases "\<exists>s t. schema = JObject s \<and> map_of s ''type'' = Some (JString t)")
    case False
    have "\<not> violates v schema"
    proof
      assume "violates v schema"
      then show False using False by cases auto
    qed
    moreover have "validate_value_against_schema v schema path = Inr ()"
      using False by (auto simp: validate_value_against_schema.simps bind_eq_Some_conv as_eq_Some_iff split: option.splits)
    ultimately show ?thesis by simp
  next
    case True
    then obtain s t where s: "schema = JObject s" "map_of s ''type'' = Some (JString t)" by blast
    show ?thesis
    proof (cases "t = ''object'' \<and> is_object v")
      case False
      then show ?thesis
        using s check_scalar_iff [of t v path]
        by (cases v; cases "t = ''object''")
          (auto simp: validate_value_against_schema.simps violates_iff expected_def has_type_def)
    next
      case True
      then obtain m where m: "v = JObject m" "t = ''object''" by (auto simp: is_object_iff)
      have req: "check_required (schema_required s) m path = Inr () \<longleftrightarrow>
          (\<forall>rs r. map_of s ''required'' = Some (JArray rs) \<longrightarrow> JString r \<in> set rs \<longrightarrow> map_of m r \<noteq> None)"
        unfolding check_required_iff Ball_def set_schema_required by blast
      show ?thesis
      proof (cases "\<exists>ps. map_of s ''properties'' = Some (JObject ps)")
        case True
        then obtain ps where ps: "map_of s ''properties'' = Some (JObject ps)" by blast
        have "validate_entries m ps (schema_additional s) path = Inr () \<longleftrightarrow> (\<forall>(k, u)\<in>set m. case map_of ps k of
            Some sch \<Rightarrow> \<not> violates u sch | None \<Rightarrow> schema_additional s)"
          using 1 s m ps by simp
        then have "validate_value_against_schema v schema path = Inr () \<longleftrightarrow>
            check_required (schema_required s) m path = Inr () \<and> (\<forall>(k, u)\<in>set m. case map_of ps k of
            Some sch \<Rightarrow> \<not> violates u sch | None \<Rightarrow> schema_additional s)"
          using s m ps by (simp add: validate_value_against_schema.simps)
        moreover have "violates v schema \<longleftrightarrow> \<not> (\<forall>rs r. map_of s ''required'' = Some (JArray rs) \<longrightarrow>
              JString r \<in> set rs \<longrightarrow> map_of m r \<noteq> None) \<or>
            \<not> (\<forall>(k, u)\<in>set m. case map_of ps k of Some sch \<Rightarrow> \<not> violates u sch | None \<Rightarrow> schema_additional s)"
          unfolding s(1) m(1) violates_iff entries_Ball
          by (auto simp: s(2) m(2) ps has_type_def schema_additional_iff split: option.splits)
            (metis option.distinct(1) option.inject)+
        ultimately show ?thesis using req by blast
      next
        case False
        then have "validate_value_against_schema v schema path = Inr () \<longleftrightarrow> check_required (schema_required s) m path = Inr ()"
          using s m by (auto simp: validate_value_against_schema.simps bind_eq_Some_conv as_eq_Some_iff split: option.splits)
        moreover have "violates v schema \<longleftrightarrow> \<not> (\<forall>rs r. map_of s ''required'' = Some (JArray rs) \<longrightarrow>
              JString r \<in> set rs \<longrightarrow> map_of m r \<noteq> None)"
          unfolding s(1) m(1) violates_iff using False by (auto simp: s(2) m(2) has_type_def)
        ultimately show ?thesis using req by blast
      qed
    qed
  qed
next
  case (3 k u obj props_map allow path)
  then show ?case by (cases "map_of props_map k") auto
qed simp

lemma validate_against_schema_iff:
  "validate_against_schema v schema = Inr () \<longleftrightarrow> \<not> violates v schema"
proof -
  have "\<not> violates v JNull" "\<not> violates v (JObject [])"
    by (auto simp: violates_iff elim: violates.cases)
  then show ?thesis
    by (auto simp: validate_against_schema_def validate_value_iff)
qed

lemma validate_value_error:
  "validate_value_against_schema v schema path = Inl e \<Longrightarrow> \<exists>msg. e = SchemaViolation (path @ msg)"
  and validate_entries_error: "validate_entries obj props_map allow ep = Inl e \<Longrightarrow> \<exists>msg. e = SchemaViolation (ep @ msg)"
proof (induction v schema path and obj props_map allow ep arbitrary: e and e
    rule: validate_value_against_schema_validate_entries.induct)
  case (1 v schema path)
  have req: "check_required rs obj path = Inl e \<Longrightarrow> \<exists>msg. e = SchemaViolation (path @ msg)" for rs obj
    by (induction rs) (auto simp: check_required_def split: if_splits)
  have "check_scalar t v path = Inl e \<Longrightarrow> \<exists>msg. e = SchemaViolation (path @ msg)" for t
    by (auto simp: check_scalar_def expected_def split: if_splits)
  then show ?case
    using 1 req by (fastforce simp: validate_value_against_schema.simps expected_def and_then_Inl_iff
        split: option.splits if_splits json.splits)
next
  case (3 k u obj props_map allow path)
  then show ?case by (cases "map_of props_map k") (fastforce simp: and_then_Inl_iff split: if_splits)+
qed simp

end
