(* ===== verification/Agent_State.thy ===== *)
theory Agent_State
  imports State_Merge Monetary
begin

text \<open>
  \<open>crates/fusion-agent-state\<close>: the execution state of an agent and the loop that advances it
  (\<open>lib.rs\<close>, \<open>runner.rs\<close>, the token estimate of \<open>benchmark.rs\<close> and the persistent store of
  \<open>persistence.rs\<close>). The trait \<open>StateStore\<close> is a record of its operations, over which the runner is
  defined; the model, the tools and the cancellation token of the host are functions on a world
  \<open>'w\<close> that they may change. Newtypes around one JSON value are that value.
\<close>

section \<open>Core types\<close>

record skill_spec =
  sk_schema :: json
  sk_instructions :: string
  sk_version :: string

definition MAX_INSTRUCTIONS_BYTES :: nat where
  "MAX_INSTRUCTIONS_BYTES = 32 * 1024"

definition skill_validate :: "skill_spec \<Rightarrow> state_error + unit" where
  "skill_validate skill =
    (if MAX_INSTRUCTIONS_BYTES < length (sk_instructions skill)
     then Inl (PatchValidation (''instructions too large: '' @ show_nat (length (sk_instructions skill)) @ '' > '' @
       show_nat MAX_INSTRUCTIONS_BYTES @ '' bytes''))
     else if trim (sk_instructions skill) = [] then Inl (PatchValidation ''instructions must not be empty'')
     else Inr ())"

definition execution_state_new :: "json \<Rightarrow> state_error + json" where
  "execution_state_new v = (if is_object v then Inr v else Inl (NotAnObject ''ExecutionState must be a JSON object''))"

definition state_patch_new :: "json \<Rightarrow> state_error + json" where
  "state_patch_new v = (if is_object v then Inr v else Inl (NotAnObject ''StatePatch must be a JSON object''))"

record agent_action =
  aa_raw :: string
  aa_tool :: "string option"
  aa_arguments :: json

definition agent_action_new :: "string \<Rightarrow> agent_action" where
  "agent_action_new raw = \<lparr>aa_raw = raw, aa_tool = None, aa_arguments = JNull\<rparr>"

definition with_tool :: "agent_action \<Rightarrow> string \<Rightarrow> json \<Rightarrow> agent_action" where
  "with_tool a tool arguments = a\<lparr>aa_tool := Some tool, aa_arguments := arguments\<rparr>"

record agent_usage =
  au_prompt_tokens :: u32
  au_completion_tokens :: u32
  au_total_tokens :: u32

record agent_step =
  as_reasoning :: "string option"
  as_patch :: json
  as_action :: agent_action
  as_usage :: "agent_usage option"

definition agent_step_new :: "string option \<Rightarrow> json \<Rightarrow> agent_action \<Rightarrow> agent_step" where
  "agent_step_new reasoning patch action =
    \<lparr>as_reasoning = reasoning, as_patch = patch, as_action = action, as_usage = None\<rparr>"

definition with_usage :: "agent_step \<Rightarrow> agent_usage \<Rightarrow> agent_step" where
  "with_usage st usage = st\<lparr>as_usage := Some usage\<rparr>"

section \<open>Stores\<close>

record 's state_store =
  ss_load :: "'s \<Rightarrow> json"
  ss_validate_patch :: "'s \<Rightarrow> json \<Rightarrow> state_error + unit"
  ss_commit :: "'s \<Rightarrow> json \<Rightarrow> 's \<times> (state_error + json)"

record in_memory_store =
  im_skill :: skill_spec
  im_state :: json

definition in_memory_new :: "skill_spec \<Rightarrow> json \<Rightarrow> state_error + in_memory_store" where
  "in_memory_new skill initial =
    and_then (skill_validate skill) (\<lambda>_.
    and_then (validate_against_schema initial (sk_schema skill)) (\<lambda>_.
    Inr \<lparr>im_skill = skill, im_state = initial\<rparr>))"

definition in_memory_validate_patch :: "in_memory_store \<Rightarrow> json \<Rightarrow> state_error + unit" where
  "in_memory_validate_patch s patch =
    and_then (merge_state (im_state s) patch) (\<lambda>merged. validate_against_schema merged (sk_schema (im_skill s)))"

definition in_memory_commit :: "in_memory_store \<Rightarrow> json \<Rightarrow> in_memory_store \<times> (state_error + json)" where
  "in_memory_commit s patch =
    (case and_then (merge_state (im_state s) patch) (\<lambda>merged.
        and_then (validate_against_schema merged (sk_schema (im_skill s))) (\<lambda>_. Inr merged)) of
       Inl e \<Rightarrow> (s, Inl e)
     | Inr next \<Rightarrow> (s\<lparr>im_state := next\<rparr>, Inr next))"

definition in_memory :: "in_memory_store state_store" where
  "in_memory = \<lparr>ss_load = im_state, ss_validate_patch = in_memory_validate_patch, ss_commit = in_memory_commit\<rparr>"

record committed_transition =
  ct_prev_state :: json
  ct_next_state :: json
  ct_action :: agent_action
  ct_reasoning :: "string option"
  ct_usage :: "agent_usage option"

definition apply_transition ::
  "'s state_store \<Rightarrow> 's \<Rightarrow> agent_step \<Rightarrow> 's \<times> (state_error + committed_transition)" where
  "apply_transition ops s st =
    (case ss_commit ops s (as_patch st) of
       (s', Inl e) \<Rightarrow> (s', Inl e)
     | (s', Inr next) \<Rightarrow> (s', Inr \<lparr>ct_prev_state = ss_load ops s, ct_next_state = next, ct_action = as_action st,
         ct_reasoning = as_reasoning st, ct_usage = as_usage st\<rparr>))"

section \<open>Model input\<close>

record agent_message =
  am_role :: string
  am_content :: string

record agent_request =
  ar_model :: string
  ar_messages :: "agent_message list"

definition newline :: string where
  "newline = [CHR 0x0A]"

definition build_model_input ::
  "(json \<Rightarrow> string) \<Rightarrow> skill_spec \<Rightarrow> json \<Rightarrow> json \<Rightarrow> string \<Rightarrow> agent_request" where
  \<comment> \<open>\<open>json_text\<close> is \<open>serde_json::to_string\<close>, which does not fail on a \<open>Value\<close>\<close>
  "build_model_input json_text skill state observation model =
    (let obs_json = (case observation of JString s \<Rightarrow> s | other \<Rightarrow> json_text other);
         state_msg = ''Skill Execution State:'' @ newline @ ''```json'' @ newline @ json_text state @ newline @ ''```'';
         obs_msg = ''Latest Observation:'' @ newline @ obs_json
     in \<lparr>ar_model = model, ar_messages =
          [\<lparr>am_role = ''system'', am_content = sk_instructions skill\<rparr>,
           \<lparr>am_role = ''user'', am_content = state_msg\<rparr>,
           \<lparr>am_role = ''user'', am_content = obs_msg\<rparr>]\<rparr>)"

definition estimate_tokens :: "string \<Rightarrow> u64" where
  "estimate_tokens text = (of_nat (length text) + 3) div 4"

definition tokens_for_request :: "agent_request \<Rightarrow> u64" where
  "tokens_for_request req =
    fold (\<lambda>m total. total + estimate_tokens (am_role m) + estimate_tokens (am_content m)) (ar_messages req) 0"

definition cost_for_tokens :: "u64 \<Rightarrow> u64 \<Rightarrow> nano_usd" where
  "cost_for_tokens input_tokens output_tokens =
    from_nanos (saturating_add (saturating_mul input_tokens 500) (saturating_mul output_tokens 1500))"

section \<open>Event log and budget\<close>

record event_log_entry =
  ee_step :: u64
  ee_prev_state :: json
  ee_patch :: json
  ee_next_state :: json
  ee_action :: string
  ee_observation :: json
  ee_reasoning :: "string option"

record event_log =
  el_entries :: "event_log_entry list"
  el_max_entries :: "nat option"

definition event_log_new :: event_log where
  "event_log_new = \<lparr>el_entries = [], el_max_entries = None\<rparr>"

definition with_max_entries :: "nat \<Rightarrow> event_log" where
  "with_max_entries n = \<lparr>el_entries = [], el_max_entries = Some n\<rparr>"

definition log_push :: "event_log_entry \<Rightarrow> event_log \<Rightarrow> event_log" where
  "log_push e l =
    (let entries = el_entries l @ [e]
     in l\<lparr>el_entries := (case el_max_entries l of
            Some n \<Rightarrow> if n < length entries then drop (length entries - n) entries else entries
          | None \<Rightarrow> entries)\<rparr>)"

record budget_tracker =
  bt_total_cost :: nano_usd
  bt_total_tokens :: u64
  bt_total_steps :: u64

definition budget_tracker_new :: budget_tracker where
  "budget_tracker_new = \<lparr>bt_total_cost = nano_ZERO, bt_total_tokens = 0, bt_total_steps = 0\<rparr>"

definition record_step :: "nano_usd \<Rightarrow> u64 \<Rightarrow> budget_tracker \<Rightarrow> budget_tracker" where
  "record_step c tokens b =
    b\<lparr>bt_total_cost := from_nanos (saturating_add (as_nanos (bt_total_cost b)) (as_nanos c)),
      bt_total_tokens := saturating_add (bt_total_tokens b) tokens,
      bt_total_steps := bt_total_steps b + 1\<rparr>"

end
