(* ===== verification/Agent_Runner.thy ===== *)
theory Agent_Runner
  imports Agent_State
begin

text \<open>
  \<open>crates/fusion-agent-state/src/runner.rs\<close>: the loop that asks the model for a step, commits the
  patch of the step, runs its action and logs the transition. The laws of a store are a locale, in
  which the loop is verified once for every store; the in-memory store is its instance here.
\<close>

section \<open>The host\<close>

datatype check_point = BeforeStep | BeforeCommit | BeforeTool | BeforeIteration

record 'w agent_env =
  ae_complete :: "agent_request \<Rightarrow> 'w \<Rightarrow> (string + agent_step) \<times> 'w"
  ae_execute :: "agent_action \<Rightarrow> 'w \<Rightarrow> (string + json) \<times> 'w"
  ae_cancelled :: "check_point \<Rightarrow> 'w \<Rightarrow> bool" \<comment> \<open>another thread may cancel between two checks; false without a token\<close>
  ae_json_text :: "json \<Rightarrow> string"

record runner_config =
  rc_max_steps :: u64
  rc_model :: string
  rc_max_tokens :: "u64 option"

definition runner_config_default :: runner_config where
  "runner_config_default = \<lparr>rc_max_steps = 200, rc_model = ''mock-model'', rc_max_tokens = None\<rparr>"

record step_outcome =
  so_t :: u64
  so_committed_state :: json
  so_observation :: json
  so_total_tokens :: u64

record 's agent_runner =
  run_skill :: skill_spec
  run_store :: 's
  run_log :: event_log
  run_config :: runner_config
  run_total_tokens :: u64

definition runner_new :: "skill_spec \<Rightarrow> 's \<Rightarrow> runner_config \<Rightarrow> 's agent_runner" where
  "runner_new skill store config =
    \<lparr>run_skill = skill, run_store = store, run_log = event_log_new, run_config = config, run_total_tokens = 0\<rparr>"

section \<open>One step\<close>

definition log_transition ::
  "u64 \<Rightarrow> json \<Rightarrow> agent_step \<Rightarrow> committed_transition \<Rightarrow> json \<Rightarrow> 's agent_runner \<Rightarrow> 's agent_runner" where
  "log_transition t prev st committed obs r =
    r\<lparr>run_log := log_push
       \<lparr>ee_step = t, ee_prev_state = prev, ee_patch = as_patch st, ee_next_state = ct_next_state committed,
        ee_action = aa_raw (ct_action committed), ee_observation = obs, ee_reasoning = ct_reasoning committed\<rparr>
       (run_log r)\<rparr>"

definition cancelled_observation :: json where
  "cancelled_observation = JObject (bt_of_list [(''cancelled'', JBool True), (''before_tool'', JBool True)])"

definition predicted_over :: "'s agent_runner \<Rightarrow> u64 \<Rightarrow> (u64 \<times> u64) option" where
  "predicted_over r input_tokens = (case rc_max_tokens (run_config r) of
     None \<Rightarrow> None
   | Some m \<Rightarrow>
       (let predicted = saturating_add (saturating_add (run_total_tokens r) input_tokens) 12
        in if m < predicted then Some (m, predicted) else None))"

definition output_tokens :: "committed_transition \<Rightarrow> u64" where
  "output_tokens committed = (case ct_usage committed of Some u \<Rightarrow> ucast (au_completion_tokens u) | None \<Rightarrow> 12)"

definition run_tool ::
  "'w agent_env \<Rightarrow> u64 \<Rightarrow> u64 \<Rightarrow> json \<Rightarrow> agent_step \<Rightarrow> committed_transition \<Rightarrow> 's agent_runner \<Rightarrow> 'w \<Rightarrow>
    ('s agent_runner \<times> 'w) \<times> (string + step_outcome)" where
  "run_tool env t input_tokens prev st committed r w =
    (case ae_execute env (ct_action committed) w of
       (Inl e, w') \<Rightarrow> ((r, w'), Inl e)
     | (Inr next_obs, w') \<Rightarrow>
         (let total_step_tokens = saturating_add input_tokens (output_tokens committed);
              r1 = r\<lparr>run_total_tokens := saturating_add (run_total_tokens r) total_step_tokens\<rparr>
          in if (case rc_max_tokens (run_config r) of Some m \<Rightarrow> m < run_total_tokens r1 | None \<Rightarrow> False)
             then ((r1, w'), Inl (''token budget '' @ show_nat (unat (the (rc_max_tokens (run_config r)))) @
               '' exceeded: '' @ show_nat (unat (run_total_tokens r1))))
             else ((log_transition t prev st committed next_obs r1, w'),
               Inr \<lparr>so_t = t, so_committed_state = ct_next_state committed, so_observation = next_obs,
                 so_total_tokens = run_total_tokens r1\<rparr>)))"

definition commit_step ::
  "'s state_store \<Rightarrow> 'w agent_env \<Rightarrow> u64 \<Rightarrow> u64 \<Rightarrow> agent_step \<Rightarrow> 's agent_runner \<Rightarrow> 'w \<Rightarrow>
    ('s agent_runner \<times> 'w) \<times> (string + step_outcome)" where
  "commit_step ops env t input_tokens st r w =
    (let prev = ss_load ops (run_store r)
     in case apply_transition ops (run_store r) st of
          (s', Inl e) \<Rightarrow> ((r\<lparr>run_store := s'\<rparr>, w), Inl (state_error_text e))
        | (s', Inr committed) \<Rightarrow>
            (let r1 = r\<lparr>run_store := s'\<rparr>
             in if ae_cancelled env BeforeTool w
                then ((log_transition t prev st committed cancelled_observation r1, w),
                  Inl ''cancelled before tool execution'')
                else case predicted_over r1 input_tokens of
                  Some (m, predicted) \<Rightarrow> ((r1, w), Inl (''token budget '' @ show_nat (unat m) @
                    '' would exceed: predicted '' @ show_nat (unat predicted) @ '' > max''))
                | None \<Rightarrow> run_tool env t input_tokens prev st committed r1 w))"

definition runner_step ::
  "'s state_store \<Rightarrow> 'w agent_env \<Rightarrow> json \<Rightarrow> 's agent_runner \<Rightarrow> 'w \<Rightarrow>
    ('s agent_runner \<times> 'w) \<times> (string + step_outcome)" where
  "runner_step ops env observation r w =
    (if ae_cancelled env BeforeStep w then ((r, w), Inl ''cancelled'')
     else
       (let t = of_nat (length (el_entries (run_log r))) + 1
        in if rc_max_steps (run_config r) < t
           then ((r, w), Inl (''max_steps '' @ show_nat (unat (rc_max_steps (run_config r))) @ '' exceeded''))
           else
             (let req = build_model_input (ae_json_text env) (run_skill r) (ss_load ops (run_store r)) observation
                    (rc_model (run_config r))
              in case ae_complete env req w of
                   (Inl e, w1) \<Rightarrow> ((r, w1), Inl e)
                 | (Inr st, w1) \<Rightarrow>
                     if ae_cancelled env BeforeCommit w1 then ((r, w1), Inl ''cancelled before commit'')
                     else commit_step ops env t (tokens_for_request req) st r w1)))"

section \<open>The loop\<close>

fun run_iterations ::
  "'s state_store \<Rightarrow> 'w agent_env \<Rightarrow> (json \<Rightarrow> json \<Rightarrow> bool) \<Rightarrow> nat \<Rightarrow> json \<Rightarrow> 's agent_runner \<Rightarrow> 'w \<Rightarrow>
    ('s agent_runner \<times> 'w) \<times> (string + json)" where
  "run_iterations ops env is_done 0 observation r w =
    ((r, w), Inl ''run_until: max_steps reached without done'')"
| "run_iterations ops env is_done (Suc n) observation r w =
    (if ae_cancelled env BeforeIteration w then ((r, w), Inl ''cancelled'')
     else if is_done (ss_load ops (run_store r)) observation then ((r, w), Inr (ss_load ops (run_store r)))
     else case runner_step ops env observation r w of
            ((r', w'), Inl e) \<Rightarrow> ((r', w'), Inl e)
          | ((r', w'), Inr outcome) \<Rightarrow> run_iterations ops env is_done n (so_observation outcome) r' w')"

definition run_until ::
  "'s state_store \<Rightarrow> 'w agent_env \<Rightarrow> (json \<Rightarrow> json \<Rightarrow> bool) \<Rightarrow> json \<Rightarrow> 's agent_runner \<Rightarrow> 'w \<Rightarrow>
    ('s agent_runner \<times> 'w) \<times> (string + json)" where
  "run_until ops env is_done observation r w =
    run_iterations ops env is_done (unat (rc_max_steps (run_config r))) observation r w"

section \<open>Replay of the log\<close>

fun replays :: "json \<Rightarrow> json \<Rightarrow> event_log_entry list \<Rightarrow> json \<Rightarrow> bool" where
  "replays schema s [] s' \<longleftrightarrow> s' = s"
| "replays schema s (e # es) s' \<longleftrightarrow> ee_prev_state e = s \<and> merge_state s (ee_patch e) = Inr (ee_next_state e) \<and>
    \<not> violates (ee_next_state e) schema \<and> replays schema (ee_next_state e) es s'"

lemma replays_snoc: "replays schema s (es @ [e]) s' \<longleftrightarrow> replays schema s es (ee_prev_state e) \<and>
    merge_state (ee_prev_state e) (ee_patch e) = Inr (ee_next_state e) \<and> \<not> violates (ee_next_state e) schema \<and>
    s' = ee_next_state e"
  by (induction es arbitrary: s) auto

definition one_ahead :: "json \<Rightarrow> json \<Rightarrow> json \<Rightarrow> bool" where
  "one_ahead schema s s' \<longleftrightarrow> s' = s \<or> (\<exists>patch. merge_state s patch = Inr s' \<and> \<not> violates s' schema)"

locale state_store_laws =
  fixes ops :: "'s state_store" and schema_of :: "'s \<Rightarrow> json"
  assumes commit_failure: "ss_commit ops s p = (s', Inl e) \<Longrightarrow> s' = s"
    and commit_success: "ss_commit ops s p = (s', Inr v) \<Longrightarrow> merge_state (ss_load ops s) p = Inr v \<and>
      \<not> violates v (schema_of s) \<and> ss_load ops s' = v \<and> schema_of s' = schema_of s"
    and validate_agrees: "ss_validate_patch ops s p = Inr () \<longleftrightarrow> is_ok (snd (ss_commit ops s p))"
begin

lemma transition_success:
  assumes "apply_transition ops s st = (s', Inr c)"
  shows "merge_state (ss_load ops s) (as_patch st) = Inr (ct_next_state c)" "\<not> violates (ct_next_state c) (schema_of s)"
    "ss_load ops s' = ct_next_state c" "schema_of s' = schema_of s" "ct_action c = as_action st"
    "ss_commit ops s (as_patch st) = (s', Inr (ct_next_state c))"
  using assms commit_success [of s "as_patch st"] by (auto simp: apply_transition_def split: prod.splits sum.splits)

lemma transition_failure: "apply_transition ops s st = (s', Inl e) \<Longrightarrow> s' = s"
  using commit_failure [of s "as_patch st"] by (auto simp: apply_transition_def split: prod.splits sum.splits)

lemma log_transition_simps:
  assumes "el_max_entries (run_log r) = None"
  shows "el_entries (run_log (log_transition t prev st c obs r)) = el_entries (run_log r) @
      [\<lparr>ee_step = t, ee_prev_state = prev, ee_patch = as_patch st, ee_next_state = ct_next_state c,
        ee_action = aa_raw (ct_action c), ee_observation = obs, ee_reasoning = ct_reasoning c\<rparr>]"
    "el_max_entries (run_log (log_transition t prev st c obs r)) = None"
    "run_store (log_transition t prev st c obs r) = run_store r"
    "run_config (log_transition t prev st c obs r) = run_config r"
    "run_skill (log_transition t prev st c obs r) = run_skill r"
    "run_total_tokens (log_transition t prev st c obs r) = run_total_tokens r"
  using assms by (simp_all add: log_transition_def log_push_def Let_def)

definition logs_step :: "'s agent_runner \<Rightarrow> 's agent_runner \<Rightarrow> bool" where
  "logs_step r r' \<longleftrightarrow> (\<exists>e. el_entries (run_log r') = el_entries (run_log r) @ [e] \<and>
     ee_step e = of_nat (length (el_entries (run_log r))) + 1 \<and>
     replays (schema_of (run_store r)) (ss_load ops (run_store r)) [e] (ss_load ops (run_store r')))"

definition keeps :: "'s agent_runner \<Rightarrow> 's agent_runner \<Rightarrow> bool" where
  "keeps r r' \<longleftrightarrow> el_max_entries (run_log r') = None \<and> schema_of (run_store r') = schema_of (run_store r) \<and>
     run_config r' = run_config r \<and> run_skill r' = run_skill r"

definition stops :: "'s agent_runner \<Rightarrow> 's agent_runner \<Rightarrow> bool" where
  "stops r r' \<longleftrightarrow> logs_step r r' \<or> el_entries (run_log r') = el_entries (run_log r) \<and>
     one_ahead (schema_of (run_store r)) (ss_load ops (run_store r)) (ss_load ops (run_store r'))"

lemma commit_step_effect:
  assumes "commit_step ops env t n st r w = ((r', w'), res)" and "el_max_entries (run_log r) = None"
    and "t = of_nat (length (el_entries (run_log r))) + 1"
  shows "keeps r r' \<and> (case res of Inr out \<Rightarrow> logs_step r r' | Inl _ \<Rightarrow> stops r r')"
proof (cases "apply_transition ops (run_store r) st")
  case (Pair s' tr)
  show ?thesis
  proof (cases tr)
    case (Inl e)
    then show ?thesis
      using assms transition_failure [of "run_store r" st s' e] Pair
      by (auto simp: commit_step_def keeps_def stops_def one_ahead_def)
  next
    case (Inr c)
    note tr = transition_success [OF Pair [unfolded Inr]]
    let ?r1 = "r\<lparr>run_store := s'\<rparr>"
    have log: "keeps r (log_transition t (ss_load ops (run_store r)) st c obs (?r1\<lparr>run_total_tokens := k\<rparr>)) \<and>
        logs_step r (log_transition t (ss_load ops (run_store r)) st c obs (?r1\<lparr>run_total_tokens := k\<rparr>))" for obs k
      using assms(2,3) tr by (simp add: keeps_def logs_step_def log_transition_simps)
    have ahead: "keeps r (?r1\<lparr>run_total_tokens := k\<rparr>) \<and> stops r (?r1\<lparr>run_total_tokens := k\<rparr>)" for k
      using assms(2) tr by (auto simp: keeps_def stops_def one_ahead_def)
    have same: "?r1 = ?r1\<lparr>run_total_tokens := run_total_tokens r\<rparr>" by simp
    have res: "r' = ?r1\<lparr>run_total_tokens := k\<rparr> \<and> (\<exists>e. res = Inl e) \<or>
        r' = log_transition t (ss_load ops (run_store r)) st c obs (?r1\<lparr>run_total_tokens := k\<rparr>) \<Longrightarrow>
        keeps r r' \<and> (case res of Inr out \<Rightarrow> logs_step r r' | Inl _ \<Rightarrow> stops r r')" for k obs
      using log [of obs k] ahead [of k] by (auto simp: stops_def split: sum.splits)
    have step: "commit_step ops env t n st r w =
        (if ae_cancelled env BeforeTool w
         then ((log_transition t (ss_load ops (run_store r)) st c cancelled_observation ?r1, w), Inl ''cancelled before tool execution'')
         else case predicted_over ?r1 n of
           Some (m, p) \<Rightarrow> ((?r1, w), Inl (''token budget '' @ show_nat (unat m) @ '' would exceed: predicted '' @ show_nat (unat p) @ '' > max''))
         | None \<Rightarrow> run_tool env t n (ss_load ops (run_store r)) st c ?r1 w)"
      by (simp add: commit_step_def Pair Inr Let_def)
    consider "ae_cancelled env BeforeTool w" | m p where "\<not> ae_cancelled env BeforeTool w" "predicted_over ?r1 n = Some (m, p)"
      | "\<not> ae_cancelled env BeforeTool w" "predicted_over ?r1 n = None"
      by (cases "predicted_over ?r1 n") auto
    then show ?thesis
    proof cases
      case 1
      then show ?thesis
        using assms(1) res [of "run_total_tokens r" cancelled_observation] unfolding step by simp
    next
      case 2
      then show ?thesis
        using assms(1) ahead [of "run_total_tokens r"] unfolding step by auto
    next
      case 3
      then have tool: "run_tool env t n (ss_load ops (run_store r)) st c ?r1 w = ((r', w'), res)"
        using assms(1) unfolding step by simp
      obtain x w2 where x: "ae_execute env (ct_action c) w = (x, w2)" by fastforce
      show ?thesis
      proof (cases x)
        case (Inl e)
        then show ?thesis
          using tool x ahead [of "run_total_tokens r"] by (auto simp: run_tool_def)
      next
        case (Inr obs)
        let ?k = "saturating_add (run_total_tokens r) (saturating_add n (output_tokens c))"
        have "r' = ?r1\<lparr>run_total_tokens := ?k\<rparr> \<and> (\<exists>e. res = Inl e) \<or>
            r' = log_transition t (ss_load ops (run_store r)) st c obs (?r1\<lparr>run_total_tokens := ?k\<rparr>)"
          using tool x Inr by (auto simp: run_tool_def Let_def split: if_splits)
        then show ?thesis by (rule res)
      qed
    qed
  qed
qed

lemma runner_step_effect:
  assumes "runner_step ops env obs r w = ((r', w'), res)" and "el_max_entries (run_log r) = None"
  shows "keeps r r' \<and> (case res of Inr out \<Rightarrow> logs_step r r' | Inl _ \<Rightarrow> stops r r')"
proof (cases "\<exists>st w1. commit_step ops env (of_nat (length (el_entries (run_log r))) + 1)
    (tokens_for_request (build_model_input (ae_json_text env) (run_skill r) (ss_load ops (run_store r)) obs
      (rc_model (run_config r)))) st r w1 = ((r', w'), res)")
  case True
  then obtain st w1 where "commit_step ops env (of_nat (length (el_entries (run_log r))) + 1)
    (tokens_for_request (build_model_input (ae_json_text env) (run_skill r) (ss_load ops (run_store r)) obs
      (rc_model (run_config r)))) st r w1 = ((r', w'), res)" by blast
  then show ?thesis by (rule commit_step_effect [OF _ assms(2) refl])
next
  case False
  then have "r' = r \<and> (\<exists>e. res = Inl e)"
    using assms(1) unfolding runner_step_def Let_def
    by (auto split: if_splits prod.splits sum.splits)
  then show ?thesis
    using assms(2) by (auto simp: keeps_def stops_def one_ahead_def)
qed

lemma run_iterations_effect:
  assumes "run_iterations ops env is_done n obs r w = ((r', w'), res)" and "el_max_entries (run_log r) = None"
    and "replays (schema_of (run_store r)) init (el_entries (run_log r)) (ss_load ops (run_store r))"
    and "length (el_entries (run_log r)) + n < 2 ^ 64"
    and "map ee_step (el_entries (run_log r)) = map (\<lambda>i. of_nat i + 1) [0..<length (el_entries (run_log r))]"
  shows "length (el_entries (run_log r')) \<le> length (el_entries (run_log r)) + n \<and>
    map ee_step (el_entries (run_log r')) = map (\<lambda>i. of_nat i + 1) [0..<length (el_entries (run_log r'))] \<and>
    (\<exists>mid. replays (schema_of (run_store r)) init (el_entries (run_log r')) mid \<and>
      (case res of
         Inr s \<Rightarrow> ss_load ops (run_store r') = mid \<and> s = mid \<and> (\<exists>obs. is_done s obs)
       | Inl _ \<Rightarrow> one_ahead (schema_of (run_store r)) mid (ss_load ops (run_store r'))))"
  using assms
proof (induction n arbitrary: obs r w)
  case 0
  then show ?case by (auto simp: one_ahead_def)
next
  case (Suc n)
  have logged: "replays (schema_of (run_store r)) init (el_entries (run_log q)) (ss_load ops (run_store q)) \<and>
      length (el_entries (run_log q)) = Suc (length (el_entries (run_log r))) \<and>
      map ee_step (el_entries (run_log q)) = map (\<lambda>i. of_nat i + 1) [0..<length (el_entries (run_log q))]"
    if "logs_step r q" for q
    using that Suc.prems(3,5) by (auto simp: logs_step_def replays_snoc)
  consider "ae_cancelled env BeforeIteration w \<or> is_done (ss_load ops (run_store r)) obs"
    | r1 w1 e where "runner_step ops env obs r w = ((r1, w1), Inl e)" "(r', w') = (r1, w1)" "res = Inl e"
    | r1 w1 out where "runner_step ops env obs r w = ((r1, w1), Inr out)"
      "run_iterations ops env is_done n (so_observation out) r1 w1 = ((r', w'), res)"
    using Suc.prems(1) by (auto split: if_splits prod.splits sum.splits)
  then show ?case
  proof cases
    case 1
    then show ?thesis
      using Suc.prems by (auto simp: one_ahead_def split: if_splits)
  next
    case 2
    then have "keeps r r1" "stops r r1"
      using runner_step_effect [OF 2(1) Suc.prems(2)] by simp_all
    then show ?thesis
      using 2 logged [of r1] Suc.prems(3,5) by (auto simp: stops_def one_ahead_def)
  next
    case 3
    then have k: "keeps r r1" "logs_step r r1"
      using runner_step_effect [OF 3(1) Suc.prems(2)] by simp_all
    have sch: "schema_of (run_store r1) = schema_of (run_store r)" "el_max_entries (run_log r1) = None"
      using k(1) by (simp_all add: keeps_def)
    show ?thesis
      using Suc.IH [OF 3(2)] logged [OF k(2)] Suc.prems(4) unfolding sch by simp
  qed
qed

lemma run_tool_cong:
  "f (ct_action c) w = g (ct_action c) w \<Longrightarrow>
    run_tool (env\<lparr>ae_execute := f\<rparr>) t n prev st c r w = run_tool (env\<lparr>ae_execute := g\<rparr>) t n prev st c r w"
  by (simp add: run_tool_def)

lemma commit_step_cong:
  assumes "\<And>s' v. ss_commit ops (run_store r) (as_patch st) = (s', Inr v) \<Longrightarrow> \<not> ae_cancelled env BeforeTool w \<Longrightarrow>
      predicted_over r n = None \<Longrightarrow> f (as_action st) w = g (as_action st) w"
  shows "commit_step ops (env\<lparr>ae_execute := f\<rparr>) t n st r w = commit_step ops (env\<lparr>ae_execute := g\<rparr>) t n st r w"
proof (cases "apply_transition ops (run_store r) st")
  case (Pair s' tr)
  show ?thesis
  proof (cases tr)
    case (Inr c)
    note tr = transition_success [OF Pair [unfolded Inr]]
    have "predicted_over (r\<lparr>run_store := s'\<rparr>) n = predicted_over r n"
      by (simp add: predicted_over_def split: option.splits)
    then show ?thesis
      using assms [OF tr(6)] run_tool_cong [of f c w g env t n "ss_load ops (run_store r)" st "r\<lparr>run_store := s'\<rparr>"]
      by (simp add: commit_step_def Pair Inr Let_def tr(5) split: option.splits)
  qed (simp add: commit_step_def Pair)
qed

lemma tool_call_guarded:
  assumes "\<And>st w1 s' v. ae_complete env (build_model_input (ae_json_text env) (run_skill r) (ss_load ops (run_store r)) obs
        (rc_model (run_config r))) w = (Inr st, w1) \<Longrightarrow> ss_commit ops (run_store r) (as_patch st) = (s', Inr v) \<Longrightarrow>
      \<not> ae_cancelled env BeforeStep w \<Longrightarrow> \<not> ae_cancelled env BeforeCommit w1 \<Longrightarrow> \<not> ae_cancelled env BeforeTool w1 \<Longrightarrow>
      predicted_over r (tokens_for_request (build_model_input (ae_json_text env) (run_skill r) (ss_load ops (run_store r)) obs
        (rc_model (run_config r)))) = None \<Longrightarrow>
      f (as_action st) w1 = g (as_action st) w1"
  shows "runner_step ops (env\<lparr>ae_execute := f\<rparr>) obs r w = runner_step ops (env\<lparr>ae_execute := g\<rparr>) obs r w"
proof -
  let ?req = "build_model_input (ae_json_text env) (run_skill r) (ss_load ops (run_store r)) obs (rc_model (run_config r))"
  obtain x w1 where x: "ae_complete env ?req w = (x, w1)" by fastforce
  show ?thesis
  proof (cases "\<exists>st. x = Inr st \<and> \<not> ae_cancelled env BeforeStep w \<and> \<not> ae_cancelled env BeforeCommit w1")
    case True
    then obtain st where st: "x = Inr st" "\<not> ae_cancelled env BeforeStep w" "\<not> ae_cancelled env BeforeCommit w1" by blast
    have "commit_step ops (env\<lparr>ae_execute := f\<rparr>) t (tokens_for_request ?req) st r w1 =
        commit_step ops (env\<lparr>ae_execute := g\<rparr>) t (tokens_for_request ?req) st r w1" for t
      using assms [of st w1] x st by (intro commit_step_cong) simp
    then show ?thesis using x st by (simp add: runner_step_def Let_def)
  next
    case False
    then show ?thesis using x by (auto simp: runner_step_def Let_def split: sum.splits)
  qed
qed

lemma step_within_budget:
  assumes "runner_step ops env obs r w = ((r', w'), Inr out)" and "rc_max_tokens (run_config r) = Some m"
  shows "so_total_tokens out \<le> m" and "run_total_tokens r' = so_total_tokens out"
  using assms
  by (auto simp: runner_step_def commit_step_def run_tool_def log_transition_def Let_def
      split: if_splits prod.splits sum.splits option.splits)

end

section \<open>The in-memory store\<close>

lemma in_memory_commit_eq:
  "in_memory_commit s p = (case merge_state (im_state s) p of Inl e \<Rightarrow> (s, Inl e)
     | Inr v \<Rightarrow> (case validate_against_schema v (sk_schema (im_skill s)) of Inl e \<Rightarrow> (s, Inl e)
         | Inr _ \<Rightarrow> (s\<lparr>im_state := v\<rparr>, Inr v)))"
  by (simp add: in_memory_commit_def split: sum.splits)

interpretation mem: state_store_laws in_memory "\<lambda>s. sk_schema (im_skill s)"
proof
  show "ss_commit in_memory s p = (s', Inl e) \<Longrightarrow> s' = s" for s p s' e
    by (auto simp: in_memory_def in_memory_commit_eq split: sum.splits)
  show "ss_commit in_memory s p = (s', Inr v) \<Longrightarrow> merge_state (ss_load in_memory s) p = Inr v \<and>
      \<not> violates v (sk_schema (im_skill s)) \<and> ss_load in_memory s' = v \<and> sk_schema (im_skill s') = sk_schema (im_skill s)"
    for s p s' v
    by (auto simp: in_memory_def in_memory_commit_eq validate_against_schema_iff [symmetric] split: sum.splits)
  show "ss_validate_patch in_memory s p = Inr () \<longleftrightarrow> is_ok (snd (ss_commit in_memory s p))" for s p
    by (auto simp: in_memory_def in_memory_commit_eq in_memory_validate_patch_def split: sum.splits)
qed

lemma replays_conforms: "replays schema s es s' \<Longrightarrow> \<not> violates s schema \<Longrightarrow> \<not> violates s' schema"
  by (induction es arbitrary: s) auto

lemma in_memory_new_Inr:
  "in_memory_new skill initial = Inr s \<longleftrightarrow> skill_validate skill = Inr () \<and> \<not> violates initial (sk_schema skill) \<and>
    s = \<lparr>im_skill = skill, im_state = initial\<rparr>"
  by (auto simp: in_memory_new_def validate_against_schema_iff)

definition demo_skill :: skill_spec where
  "demo_skill = \<lparr>sk_schema = JObject [(''properties'', JObject [(''n'', JObject [(''type'', JString ''integer'')])]),
     (''type'', JString ''object'')], sk_instructions = ''count'', sk_version = ''1''\<rparr>"

definition demo_agent_env :: "nat agent_env" where
  \<comment> \<open>the world counts the steps; the model writes the count into the state\<close>
  "demo_agent_env = \<lparr>ae_complete = (\<lambda>req w. (Inr (agent_step_new None (JObject [(''n'', JNumber (PosInt (of_nat w)))])
       (agent_action_new ''go'')), w + 1)),
     ae_execute = (\<lambda>a w. (Inr (JString ''ok''), w)), ae_cancelled = (\<lambda>_ _. False), ae_json_text = (\<lambda>_. ''{}'')\<rparr>"

definition demo_done :: "json \<Rightarrow> json \<Rightarrow> bool" where
  "demo_done s obs \<longleftrightarrow> json_get ''n'' s = Some (JNumber (PosInt 1))"

definition demo_runner :: "in_memory_store agent_runner" where
  "demo_runner = runner_new demo_skill \<lparr>im_skill = demo_skill, im_state = JObject []\<rparr>
     \<lparr>rc_max_steps = 3, rc_model = ''m'', rc_max_tokens = None\<rparr>"

lemma demo_new: "in_memory_new demo_skill (JObject []) = Inr \<lparr>im_skill = demo_skill, im_state = JObject []\<rparr>"
  by (simp add: in_memory_new_def skill_validate_def MAX_INSTRUCTIONS_BYTES_def demo_skill_def trim_def is_ws_def
      validate_against_schema_def validate_value_against_schema.simps check_required_def schema_required_def)

lemma demo_commit:
  "in_memory_commit \<lparr>im_skill = demo_skill, im_state = JObject []\<rparr> (JObject [(''n'', JNumber (PosInt k))]) =
    (\<lparr>im_skill = demo_skill, im_state = JObject [(''n'', JNumber (PosInt k))]\<rparr>, Inr (JObject [(''n'', JNumber (PosInt k))]))"
  "in_memory_commit \<lparr>im_skill = demo_skill, im_state = JObject [(''n'', JNumber (PosInt j))]\<rparr> (JObject [(''n'', JNumber (PosInt k))]) =
    (\<lparr>im_skill = demo_skill, im_state = JObject [(''n'', JNumber (PosInt k))]\<rparr>, Inr (JObject [(''n'', JNumber (PosInt k))]))"
  by (simp_all add: in_memory_commit_def demo_skill_def bt_of_list_def validate_against_schema_def
      validate_value_against_schema.simps check_required_def schema_required_def check_scalar_def)

lemmas demo_run_simps = demo_agent_env_def demo_runner_def runner_new_def event_log_new_def in_memory_def
  runner_step_def commit_step_def run_tool_def apply_transition_def agent_step_new_def log_transition_def log_push_def
  predicted_over_def demo_commit Let_def

text \<open>C5. A run from a fresh in-memory store logs at most \<open>max_steps\<close> transitions, numbered from 1. Replaying the logged
  patches from the initial state with the merge operator reproduces every logged state, each of which satisfies the
  schema. When the run returns a state, that state is the result of the replay, is what the store holds and satisfies
  \<open>is_done\<close>; when the run fails, the store holds the result of the replay or is one valid transition ahead of it. In
  every case the state in the store satisfies the schema.\<close>

theorem agent_run_replays:
  assumes "in_memory_new skill initial = Inr s0"
    and "run_until in_memory env is_done obs (runner_new skill s0 config) w = ((r', w'), res)"
  shows "length (el_entries (run_log r')) \<le> unat (rc_max_steps config) \<and>
    map ee_step (el_entries (run_log r')) = map (\<lambda>i. of_nat i + 1) [0..<length (el_entries (run_log r'))] \<and>
    \<not> violates (im_state (run_store r')) (sk_schema skill) \<and>
    (\<exists>final. replays (sk_schema skill) initial (el_entries (run_log r')) final \<and>
      (case res of
         Inr s \<Rightarrow> im_state (run_store r') = final \<and> s = final \<and> (\<exists>obs. is_done s obs)
       | Inl _ \<Rightarrow> one_ahead (sk_schema skill) final (im_state (run_store r'))))"
proof -
  have s0: "s0 = \<lparr>im_skill = skill, im_state = initial\<rparr>" "\<not> violates initial (sk_schema skill)"
    using assms(1) by (simp_all add: in_memory_new_Inr)
  let ?r = "runner_new skill s0 config"
  have "unat (rc_max_steps config) < 2 ^ 64"
    using unsigned_less [of "rc_max_steps config"] by simp
  then have run: "length (el_entries (run_log r')) \<le> unat (rc_max_steps config) \<and>
    map ee_step (el_entries (run_log r')) = map (\<lambda>i. of_nat i + 1) [0..<length (el_entries (run_log r'))] \<and>
    (\<exists>mid. replays (sk_schema skill) initial (el_entries (run_log r')) mid \<and>
      (case res of
         Inr s \<Rightarrow> im_state (run_store r') = mid \<and> s = mid \<and> (\<exists>obs. is_done s obs)
       | Inl _ \<Rightarrow> one_ahead (sk_schema skill) mid (im_state (run_store r'))))"
    using mem.run_iterations_effect [OF assms(2) [unfolded run_until_def], of initial]
    by (simp add: runner_new_def event_log_new_def s0(1) in_memory_def cong: sum.case_cong)
  then obtain mid where mid: "replays (sk_schema skill) initial (el_entries (run_log r')) mid"
    "im_state (run_store r') = mid \<or> one_ahead (sk_schema skill) mid (im_state (run_store r'))"
    by (cases res) auto
  have "\<not> violates (im_state (run_store r')) (sk_schema skill)"
    using replays_conforms [OF mid(1) s0(2)] mid(2) by (auto simp: one_ahead_def)
  then show ?thesis using run by blast
qed

theorem agent_run_replays_witness:
  "snd (run_until in_memory demo_agent_env demo_done (JString []) demo_runner 0) = Inr (JObject [(''n'', JNumber (PosInt 1))]) \<and>
   replays (sk_schema demo_skill) (JObject []) (el_entries (run_log (fst (fst
     (run_until in_memory demo_agent_env demo_done (JString []) demo_runner 0))))) (JObject [(''n'', JNumber (PosInt 1))])"
proof -
  obtain r' w' res where run: "run_until in_memory demo_agent_env demo_done (JString []) demo_runner 0 = ((r', w'), res)"
    by (metis prod.exhaust)
  have res: "snd (run_until in_memory demo_agent_env demo_done (JString []) demo_runner 0) = Inr (JObject [(''n'', JNumber (PosInt 1))])"
  proof -
    have "unat (rc_max_steps (run_config demo_runner)) = Suc (Suc (Suc 0))"
      by (simp add: demo_runner_def runner_new_def)
    then show ?thesis
      by (simp only: run_until_def) (simp add: demo_run_simps demo_done_def)
  qed
  show ?thesis
    using agent_run_replays [OF demo_new run [unfolded demo_runner_def]] res run by auto
qed

text \<open>C14. The tools of the host are called at most once in a step, with the action of the step the model returned, and only
  after the patch of that step was committed, the token was found not cancelled at all three checks and the predicted
  token use was within the budget: two tool executors that agree on that one call give the same step.\<close>

theorem tool_runs_after_commit:
  assumes "\<And>st w1 s' v. ae_complete env (build_model_input (ae_json_text env) (run_skill r) (im_state (run_store r)) obs
        (rc_model (run_config r))) w = (Inr st, w1) \<Longrightarrow> in_memory_commit (run_store r) (as_patch st) = (s', Inr v) \<Longrightarrow>
      \<not> ae_cancelled env BeforeStep w \<Longrightarrow> \<not> ae_cancelled env BeforeCommit w1 \<Longrightarrow> \<not> ae_cancelled env BeforeTool w1 \<Longrightarrow>
      predicted_over r (tokens_for_request (build_model_input (ae_json_text env) (run_skill r) (im_state (run_store r)) obs
        (rc_model (run_config r)))) = None \<Longrightarrow>
      f (as_action st) w1 = g (as_action st) w1"
  shows "runner_step in_memory (env\<lparr>ae_execute := f\<rparr>) obs r w = runner_step in_memory (env\<lparr>ae_execute := g\<rparr>) obs r w"
proof (rule mem.tool_call_guarded)
  fix st w1 s' v
  assume "ae_complete env (build_model_input (ae_json_text env) (run_skill r) (ss_load in_memory (run_store r)) obs
        (rc_model (run_config r))) w = (Inr st, w1)" "ss_commit in_memory (run_store r) (as_patch st) = (s', Inr v)"
    "\<not> ae_cancelled env BeforeStep w" "\<not> ae_cancelled env BeforeCommit w1" "\<not> ae_cancelled env BeforeTool w1"
    "predicted_over r (tokens_for_request (build_model_input (ae_json_text env) (run_skill r) (ss_load in_memory (run_store r))
       obs (rc_model (run_config r)))) = None"
  then show "f (as_action st) w1 = g (as_action st) w1"
    using assms by (simp add: in_memory_def)
qed

theorem tool_runs_after_commit_witness:
  "runner_step in_memory (demo_agent_env\<lparr>ae_cancelled := (\<lambda>p _. p = BeforeTool), ae_execute := (\<lambda>_ w. (Inl ''x'', w + 7))\<rparr>)
     JNull demo_runner 0 =
   runner_step in_memory (demo_agent_env\<lparr>ae_cancelled := (\<lambda>p _. p = BeforeTool), ae_execute := (\<lambda>_ w. (Inr JNull, w))\<rparr>)
     JNull demo_runner 0"
  by (rule tool_runs_after_commit) simp

text \<open>A step that stops because the predicted token use exceeds the budget has already committed its patch, but logs
  nothing: the store is then ahead of the log, which the cancellation path just before takes care to avoid.\<close>

theorem budget_stop_not_logged:
  "let r = demo_runner\<lparr>run_config := (run_config demo_runner)\<lparr>rc_max_tokens := Some 1\<rparr>\<rparr>;
       ((r', w'), res) = runner_step in_memory demo_agent_env JNull r 0
   in \<not> is_ok res \<and> im_state (run_store r') = JObject [(''n'', JNumber (PosInt 0))] \<and> im_state (run_store r) = JObject [] \<and>
      el_entries (run_log r') = []"
proof -
  have "12 \<le> saturating_add x (12 :: u64)" for x
    using saturating_add_ge [of 12 x] by (simp add: saturating_add_comm)
  then have "1 < saturating_add x (12 :: u64)" for x
    by (rule less_le_trans [rotated]) (simp add: word_less_nat_alt)
  then show ?thesis
    by (simp add: demo_run_simps)
qed

end
