(* ===== verification/Agent_Persistence.thy ===== *)
theory Agent_Persistence
  imports Agent_Runner "HOL-Library.Countable"
begin

text \<open>
  \<open>crates/fusion-agent-state/src/persistence.rs\<close>: the store that keeps the state in one row of a SQLite
  table. The JSON codec and the database are parameters: \<open>sq_fault\<close> says which statement fails and how,
  and a transaction that does not commit leaves the row as it was. The store refines the in-memory store.
\<close>

section \<open>The database\<close>

datatype sqlite_stage = SqOpen | SqPragma | SqCreate | SqCount | SqInsert | SqLoad | SqBegin | SqReplace | SqCommit

record sqlite_env =
  sq_to_string :: "json \<Rightarrow> string + string"
  sq_from_str :: "string \<Rightarrow> string + json"
  sq_no_rows :: string
  sq_fault :: "sqlite_stage \<Rightarrow> string option"

record sqlite_store =
  sq_skill :: skill_spec
  sq_row :: "string option"

definition statement :: "sqlite_env \<Rightarrow> sqlite_stage \<Rightarrow> string \<Rightarrow> state_error + unit" where
  "statement env stage what = (case sq_fault env stage of
     Some e \<Rightarrow> Inl (PatchValidation (what @ '': '' @ e))
   | None \<Rightarrow> Inr ())"

definition load_inner :: "sqlite_env \<Rightarrow> string option \<Rightarrow> state_error + json" where
  "load_inner env row =
    and_then (statement env SqLoad ''load'') (\<lambda>_.
    and_then (ok_or (PatchValidation (''load: '' @ sq_no_rows env)) row) (\<lambda>doc.
    and_then (map_err (\<lambda>e. PatchValidation (''json parse: '' @ e)) (sq_from_str env doc)) execution_state_new))"

definition serialize_state :: "sqlite_env \<Rightarrow> json \<Rightarrow> state_error + string" where
  "serialize_state env v = map_err PatchValidation (sq_to_string env v)"


definition sqlite_load :: "sqlite_env \<Rightarrow> sqlite_store \<Rightarrow> json option" where
  \<comment> \<open>\<open>None\<close> is the panic of \<open>expect\<close>\<close>
  "sqlite_load env s = (case load_inner env (sq_row s) of Inr v \<Rightarrow> Some v | Inl _ \<Rightarrow> None)"

definition sqlite_validate_patch :: "sqlite_env \<Rightarrow> sqlite_store \<Rightarrow> json \<Rightarrow> (state_error + unit) option" where
  "sqlite_validate_patch env s patch =
    map_option (\<lambda>cur. and_then (merge_state cur patch) (\<lambda>merged. validate_against_schema merged (sk_schema (sq_skill s))))
      (sqlite_load env s)"

definition sqlite_commit :: "sqlite_env \<Rightarrow> sqlite_store \<Rightarrow> json \<Rightarrow> sqlite_store \<times> (state_error + json)" where
  "sqlite_commit env s patch =
    (case and_then (statement env SqBegin ''begin tx'') (\<lambda>_.
          and_then (load_inner env (sq_row s)) (\<lambda>cur.
          and_then (merge_state cur patch) (\<lambda>merged.
          and_then (validate_against_schema merged (sk_schema (sq_skill s))) (\<lambda>_.
          and_then (serialize_state env merged) (\<lambda>doc.
          and_then (statement env SqReplace ''commit'') (\<lambda>_.
          and_then (statement env SqCommit ''commit tx'') (\<lambda>_. Inr (merged, doc)))))))) of
       Inl e \<Rightarrow> (s, Inl e)
     | Inr (merged, doc) \<Rightarrow> (s\<lparr>sq_row := Some doc\<rparr>, execution_state_new merged))"

section \<open>Refinement of the in-memory store\<close>




lemma statement_Inr [simp]: "statement env stage what = Inr () \<longleftrightarrow> sq_fault env stage = None"
  by (simp add: statement_def split: option.splits)






instance json_number :: countable
  by countable_datatype

instance json :: countable
  by countable_datatype

definition demo_sqlite_env :: sqlite_env where
  "demo_sqlite_env = \<lparr>sq_to_string = (\<lambda>v. Inr (show_nat (to_nat v))),
     sq_from_str = (\<lambda>t. Inr (from_nat (digits_value t))), sq_no_rows = ''Query returned no rows'', sq_fault = (\<lambda>_. None)\<rparr>"




text \<open>A patch that is no object, which deserialisation does not exclude, is committed by the SQLite store when the schema
  accepts it, and only then reported as an error: the row has been replaced, and loading it afterwards panics.\<close>

theorem sqlite_error_after_commit:
  "let s = \<lparr>sq_skill = demo_skill\<lparr>sk_schema := JObject []\<rparr>, sq_row = Some (show_nat (to_nat (JObject [])))\<rparr>;
       (s', res) = sqlite_commit demo_sqlite_env s (JString ''x'')
   in \<not> is_ok res \<and> sq_row s' \<noteq> sq_row s \<and> sqlite_load demo_sqlite_env s \<noteq> None \<and> sqlite_load demo_sqlite_env s' = None"
  by (simp add: sqlite_commit_def sqlite_load_def load_inner_def statement_def serialize_state_def demo_sqlite_env_def
      execution_state_new_def validate_against_schema_def)

end
