(* ===== verification/Agent_Host.thy ===== *)
theory Agent_Host
  imports Agent_Runner Budget
begin

text \<open>
  \<open>src/agent/host.rs\<close>: the adapters that connect the agent loop to the host. \<open>parse_skill_response\<close> reads
  a step from the text of a model, \<open>RouterLlm\<close> asks a provider with retries, \<open>RouterTools\<close> runs an action behind an
  allowlist, an approval gate and a resource check. The JSON parser, the provider, the gates and the tools are
  parameters that may change the world.
\<close>

section \<open>Reading a step\<close>

definition fence_open :: string where
  "fence_open = ''```json''"

definition fence_close :: string where
  "fence_close = ''```''"

definition parse_skill_response :: "(string \<Rightarrow> string + json) \<Rightarrow> string \<Rightarrow> string + agent_step" where
  "parse_skill_response from_str txt =
    and_then (ok_or ''missing ```json fence for state_patch/action'' (find_split fence_open txt)) (\<lambda>(before, after_fence).
    and_then (ok_or ''unterminated ```json fence'' (find_split fence_close after_fence)) (\<lambda>(body, rest).
    and_then (map_err (\<lambda>e. ''invalid JSON in fence: '' @ e) (from_str (trim body))) (\<lambda>v.
    and_then (ok_or (''missing required key '' @ [CHR 0x27] @ ''state_patch'' @ [CHR 0x27]) (json_get ''state_patch'' v)) (\<lambda>patch_val.
    if \<not> is_object patch_val then Inl ''state_patch must be a JSON object''
    else and_then (ok_or (''missing required key '' @ [CHR 0x27] @ ''action'' @ [CHR 0x27]) (json_get ''action'' v)) (\<lambda>action_val.
    and_then (ok_or ''action must be a string'' (as_str action_val)) (\<lambda>action_str.
    and_then (map_err state_error_text (state_patch_new patch_val)) (\<lambda>patch.
    Inr (agent_step_new (let r = trim before in if r = [] then None else Some r) patch (agent_action_new action_str)))))))))"

section \<open>Asking the provider\<close>

record completion_request =
  cq_model :: string
  cq_messages :: "agent_message list"
  cq_stream :: bool
  cq_temperature :: "u32 option" \<comment> \<open>the bits of the \<open>f32\<close>\<close>
  cq_max_tokens :: "u32 option" \<comment> \<open>tools, files, execution, output and strategy are all \<open>None\<close>\<close>

record completion_response =
  cp_contents :: "string list" \<comment> \<open>of the choices\<close>
  cp_usage :: "agent_usage option"

record 'w router_llm =
  rl_chat_completion :: "completion_request \<Rightarrow> 'w \<Rightarrow> (string + completion_response) \<times> 'w"
  rl_sleep :: "nat \<Rightarrow> 'w \<Rightarrow> 'w"
  rl_from_str :: "string \<Rightarrow> string + json"
  rl_model :: string
  rl_max_retries :: u32

definition agent_to_router_request :: "'w router_llm \<Rightarrow> agent_request \<Rightarrow> completion_request" where
  "agent_to_router_request llm req =
    \<lparr>cq_model = rl_model llm, cq_messages = ar_messages req, cq_stream = False, cq_temperature = Some 0,
     cq_max_tokens = Some 1024\<rparr>"

definition preview :: "string \<Rightarrow> string" where
  \<comment> \<open>on ASCII text, where a character is a byte\<close>
  "preview txt = map (\<lambda>c. if c = CHR 0x0A then CHR '' '' else c) (take 100 txt)"

definition read_response :: "'w router_llm \<Rightarrow> completion_response \<Rightarrow> string + agent_step" where
  "read_response llm resp =
    (let txt = (case cp_contents resp of c # _ \<Rightarrow> c | [] \<Rightarrow> [])
     in case parse_skill_response (rl_from_str llm) txt of
          Inr st \<Rightarrow> Inr (case cp_usage resp of Some u \<Rightarrow> with_usage st u | None \<Rightarrow> st)
        | Inl e \<Rightarrow> Inl (''malformed model output: '' @ e @ '' | preview: '' @ preview txt @ '' (len '' @ show_nat (length txt) @ '')''))"

fun complete_attempts ::
  "'w router_llm \<Rightarrow> completion_request \<Rightarrow> nat \<Rightarrow> nat \<Rightarrow> 'w \<Rightarrow> (string + agent_step) \<times> 'w" where
  \<comment> \<open>\<open>attempt\<close> attempts were made, \<open>left\<close> more may follow the next one\<close>
  "complete_attempts llm req attempt left w =
    (case rl_chat_completion llm req w of
       (Inr resp, w1) \<Rightarrow> (read_response llm resp, w1)
     | (Inl e, w1) \<Rightarrow>
         (case left of
            0 \<Rightarrow> (Inl (''provider failed after '' @ show_nat (unat (rl_max_retries llm + 1)) @ '' retries: '' @ e), w1)
          | Suc n \<Rightarrow> complete_attempts llm req (attempt + 1) n (rl_sleep llm (50 * (attempt + 1)) w1)))"

declare complete_attempts.simps [simp del]

definition router_complete :: "'w router_llm \<Rightarrow> agent_request \<Rightarrow> 'w \<Rightarrow> (string + agent_step) \<times> 'w" where
  "router_complete llm req w =
    complete_attempts llm (agent_to_router_request llm req) 0 (unat (rl_max_retries llm)) w"

section \<open>Running an action\<close>

definition READ_ONLY_ALLOWLIST :: "string list" where
  "READ_ONLY_ALLOWLIST = [''file_read'', ''calculator'', ''search'']"

record 'w router_tools =
  rt_registry :: "string \<rightharpoonup> (json \<Rightarrow> 'w \<Rightarrow> (string + json) \<times> 'w)"
  rt_allowlist :: "string list"
  rt_approval :: "(string \<Rightarrow> 'w \<Rightarrow> bool \<times> 'w) option"
  rt_can_afford :: "(string \<Rightarrow> 'w \<Rightarrow> bool \<times> 'w) option"
  rt_reserve_calls :: "'w \<Rightarrow> nat"
  rt_show_list :: "string list \<Rightarrow> string" \<comment> \<open>the \<open>Debug\<close> text of a list of strings\<close>

definition not_executed :: "string \<Rightarrow> string \<Rightarrow> (string \<times> json) list \<Rightarrow> json" where
  "not_executed tool_name reason extra = JObject (bt_of_list
     ([(''tool'', JString tool_name), (''executed'', JBool False), (''reason'', JString reason)] @ extra))"

definition ask :: "(string \<Rightarrow> 'w \<Rightarrow> bool \<times> 'w) option \<Rightarrow> string \<Rightarrow> 'w \<Rightarrow> bool \<times> 'w" where
  "ask gate name w = (case gate of Some g \<Rightarrow> g name w | None \<Rightarrow> (True, w))"

definition action_tool :: "agent_action \<Rightarrow> string" where
  "action_tool action = (case aa_tool action of Some t \<Rightarrow> t | None \<Rightarrow> aa_raw action)"

definition run_registered :: "'w router_tools \<Rightarrow> agent_action \<Rightarrow> 'w \<Rightarrow> (string + json) \<times> 'w" where
  "run_registered tools action w =
    (let tool_name = action_tool action
     in case rt_registry tools tool_name of
          None \<Rightarrow> (Inr (not_executed tool_name ''tool not registered (fail closed)'' []), w)
        | Some tool \<Rightarrow>
            (let args = (if aa_arguments action = JNull then JObject [] else aa_arguments action)
             in case tool args w of
                  (Inl e, w1) \<Rightarrow> (Inl (''tool '' @ [CHR 0x27] @ tool_name @ [CHR 0x27] @ '' failed: '' @ e), w1)
                | (Inr result, w1) \<Rightarrow> (Inr (JObject (bt_of_list
                    [(''tool'', JString tool_name), (''executed'', JBool True), (''result'', result)])), w1)))"

definition router_execute :: "'w router_tools \<Rightarrow> agent_action \<Rightarrow> 'w \<Rightarrow> (string + json) \<times> 'w" where
  "router_execute tools action w =
    (let tool_name = action_tool action
     in if tool_name \<notin> set (rt_allowlist tools)
        then (Inr (not_executed tool_name (''tool '' @ [CHR 0x27] @ tool_name @ [CHR 0x27] @ '' not in allowlist '' @
               rt_show_list tools (rt_allowlist tools)) [(''action_raw'', JString (aa_raw action))]), w)
        else case ask (rt_approval tools) tool_name w of
          (False, w1) \<Rightarrow> (Inr (not_executed tool_name ''approval denied'' []), w1)
        | (True, w1) \<Rightarrow>
            (case ask (rt_can_afford tools) tool_name w1 of
               (False, w2) \<Rightarrow> (Inr (not_executed tool_name ''resource/budget unavailable''
                 [(''reserve_calls'', JNumber (PosInt (of_nat (rt_reserve_calls tools w2))))]), w2)
             | (True, w2) \<Rightarrow> run_registered tools action w2))"

definition record_usage :: "budget_envelope option \<Rightarrow> agent_usage option \<Rightarrow> budget_envelope option" where
  "record_usage envelope usage = (case (envelope, usage) of
     (Some env, Some u) \<Rightarrow>
       (let c = from_nanos (saturating_add (saturating_mul (ucast (au_prompt_tokens u)) 500)
                  (saturating_mul (ucast (au_completion_tokens u)) 1500))
        in Some (snd (record_and_check env c (ucast (au_total_tokens u)))))
   | (e, _) \<Rightarrow> e)"

section \<open>What a response means\<close>

lemma json_get_Some_iff: "json_get k v = Some u \<longleftrightarrow> (\<exists>m. v = JObject m \<and> map_of m k = Some u)"
  by (cases v) auto

definition first_split :: "string \<Rightarrow> string \<Rightarrow> string \<Rightarrow> string \<Rightarrow> bool" where
  "first_split p s a b \<longleftrightarrow> s = a @ p @ b \<and> (\<forall>u r. s = u @ p @ r \<longrightarrow> length a \<le> length u)"

text \<open>C36. A response is read as a step exactly when its first JSON fence is closed and holds an object with an object
  under \<open>state_patch\<close> and a string under \<open>action\<close>; the step then has that patch and action, no usage, and as reasoning
  the trimmed text before the fence, unless that is empty. So a response without such a fence commits nothing and runs
  nothing.\<close>

theorem parse_skill_exact:
  "parse_skill_response from_str txt = Inr st \<longleftrightarrow>
    (\<exists>before after body rest m patch action. first_split fence_open txt before after \<and>
       first_split fence_close after body rest \<and> from_str (trim body) = Inr (JObject m) \<and>
       map_of m ''state_patch'' = Some (JObject patch) \<and> map_of m ''action'' = Some (JString action) \<and>
       st = \<lparr>as_reasoning = (if trim before = [] then None else Some (trim before)), as_patch = JObject patch,
         as_action = \<lparr>aa_raw = action, aa_tool = None, aa_arguments = JNull\<rparr>, as_usage = None\<rparr>)"
proof
  assume "parse_skill_response from_str txt = Inr st"
  then show "\<exists>before after body rest m patch action. first_split fence_open txt before after \<and>
       first_split fence_close after body rest \<and> from_str (trim body) = Inr (JObject m) \<and>
       map_of m ''state_patch'' = Some (JObject patch) \<and> map_of m ''action'' = Some (JString action) \<and>
       st = \<lparr>as_reasoning = (if trim before = [] then None else Some (trim before)), as_patch = JObject patch,
         as_action = \<lparr>aa_raw = action, aa_tool = None, aa_arguments = JNull\<rparr>, as_usage = None\<rparr>"
    unfolding parse_skill_response_def first_split_def find_split_Some_iff [symmetric]
    by (auto simp: json_get_Some_iff as_eq_Some_iff is_object_iff state_patch_new_def agent_step_new_def
        agent_action_new_def Let_def split: if_splits)
next
  assume "\<exists>before after body rest m patch action. first_split fence_open txt before after \<and>
       first_split fence_close after body rest \<and> from_str (trim body) = Inr (JObject m) \<and>
       map_of m ''state_patch'' = Some (JObject patch) \<and> map_of m ''action'' = Some (JString action) \<and>
       st = \<lparr>as_reasoning = (if trim before = [] then None else Some (trim before)), as_patch = JObject patch,
         as_action = \<lparr>aa_raw = action, aa_tool = None, aa_arguments = JNull\<rparr>, as_usage = None\<rparr>"
  then show "parse_skill_response from_str txt = Inr st"
    unfolding first_split_def find_split_Some_iff [symmetric]
    by (auto simp: parse_skill_response_def state_patch_new_def agent_step_new_def agent_action_new_def)
      (metis is_object.simps(1))
qed

section \<open>The provider is asked a bounded number of times\<close>

definition counting :: "'w router_llm \<Rightarrow> ('w \<times> nat) router_llm" where
  \<comment> \<open>the same provider, counting its calls\<close>
  "counting llm = \<lparr>rl_chat_completion = (\<lambda>q (w, k). let (x, w1) = rl_chat_completion llm q w in (x, (w1, k + 1))),
     rl_sleep = (\<lambda>ms (w, k). (rl_sleep llm ms w, k)), rl_from_str = rl_from_str llm, rl_model = rl_model llm,
     rl_max_retries = rl_max_retries llm\<rparr>"

lemma counting_read [simp]: "read_response (counting llm) = read_response llm"
  by (rule ext) (simp add: read_response_def counting_def)

lemma counting_simps:
  "rl_chat_completion (counting llm) q (w, k) =
     (fst (rl_chat_completion llm q w), (snd (rl_chat_completion llm q w), k + 1))"
  "rl_sleep (counting llm) ms (w, k) = (rl_sleep llm ms w, k)" "rl_max_retries (counting llm) = rl_max_retries llm"
  by (simp_all add: counting_def split: prod.splits)

lemma complete_attempts_counted:
  "\<exists>n. complete_attempts (counting llm) req a left (w, k) =
     (fst (complete_attempts llm req a left w), (snd (complete_attempts llm req a left w), k + n)) \<and> 0 < n \<and> n \<le> left + 1"
proof (induction left arbitrary: a w k)
  case 0
  then show ?case
    by (auto simp: complete_attempts.simps counting_simps split: prod.splits sum.splits)
next
  case (Suc left)
  obtain x w1 where x: "rl_chat_completion llm req w = (x, w1)" by fastforce
  show ?case
  proof (cases x)
    case (Inr resp)
    then show ?thesis
      using x by (auto simp: complete_attempts.simps [of _ req a "Suc left"] counting_simps)
  next
    case (Inl e)
    obtain n where n: "complete_attempts (counting llm) req (a + 1) left (rl_sleep llm (50 * (a + 1)) w1, k + 1) =
      (fst (complete_attempts llm req (a + 1) left (rl_sleep llm (50 * (a + 1)) w1)),
       (snd (complete_attempts llm req (a + 1) left (rl_sleep llm (50 * (a + 1)) w1)), k + 1 + n))" "n \<le> left + 1"
      using Suc by blast
    then show ?thesis
      using x Inl by (intro exI [of _ "n + 1"])
        (simp add: complete_attempts.simps [of _ req a "Suc left"] counting_simps)
  qed
qed

section \<open>Only listed tools run\<close>

definition may_run :: "'w router_tools \<Rightarrow> string \<Rightarrow> bool" where
  "may_run tools name \<longleftrightarrow> name \<in> set (rt_allowlist tools) \<and>
     (\<exists>w w1 w2. ask (rt_approval tools) name w = (True, w1) \<and> ask (rt_can_afford tools) name w1 = (True, w2))"

lemma router_execute_cong:
  assumes "\<And>name. may_run tools name \<Longrightarrow> rt_registry tools name = reg name"
  shows "router_execute tools action w = router_execute (tools\<lparr>rt_registry := reg\<rparr>) action w"
proof -
  let ?n = "action_tool action"
  have reg: "run_registered tools action v = run_registered (tools\<lparr>rt_registry := reg\<rparr>) action v" if "may_run tools ?n" for v
    using assms [OF that] by (simp add: run_registered_def Let_def)
  show ?thesis
  proof (cases "?n \<in> set (rt_allowlist tools)")
    case True
    obtain b w1 where b: "ask (rt_approval tools) ?n w = (b, w1)" by fastforce
    obtain c w2 where c: "ask (rt_can_afford tools) ?n w1 = (c, w2)" by fastforce
    have "b \<Longrightarrow> c \<Longrightarrow> may_run tools ?n"
      using True b c by (auto simp: may_run_def)
    then show ?thesis
      using True b c reg [of w2] by (cases b; cases c) (simp_all add: router_execute_def Let_def)
  qed (simp add: router_execute_def Let_def)
qed

definition host_env ::
  "'w router_llm \<Rightarrow> 'w router_tools \<Rightarrow> (check_point \<Rightarrow> 'w \<Rightarrow> bool) \<Rightarrow> (json \<Rightarrow> string) \<Rightarrow> 'w agent_env" where
  "host_env llm tools cancelled json_text = \<lparr>ae_complete = router_complete llm, ae_execute = router_execute tools,
     ae_cancelled = cancelled, ae_json_text = json_text\<rparr>"

definition demo_tools :: "nat router_tools" where
  "demo_tools = \<lparr>rt_registry = [''search'' \<mapsto> (\<lambda>args w. (Inr JNull, w + 1)), ''shell'' \<mapsto> (\<lambda>args w. (Inr JNull, 0))],
     rt_allowlist = READ_ONLY_ALLOWLIST, rt_approval = Some (\<lambda>name w. (name = ''search'', w)), rt_can_afford = None,
     rt_reserve_calls = (\<lambda>_. 0), rt_show_list = (\<lambda>_. ''[]'')\<rparr>"

definition demo_llm :: "nat router_llm" where
  "demo_llm = \<lparr>rl_chat_completion = (\<lambda>q w. (Inr \<lparr>cp_contents = [], cp_usage = None\<rparr>, w)), rl_sleep = (\<lambda>_ w. w),
     rl_from_str = (\<lambda>_. Inl ''x''), rl_model = ''m'', rl_max_retries = 2\<rparr>"

text \<open>C15. A whole run of the agent over the host's adapters is independent of every tool that is not on the allowlist, that
  the approval gate never approves or that the resource check never admits: replacing such tools, or removing them,
  changes neither the result of the run nor the state, the log or the world it leaves.\<close>

theorem run_uses_admitted_tools_only:
  assumes "\<And>name. may_run tools name \<Longrightarrow> rt_registry tools name = reg name"
  shows "run_until ops (host_env llm tools cancelled json_text) is_done obs r w =
    run_until ops (host_env llm (tools\<lparr>rt_registry := reg\<rparr>) cancelled json_text) is_done obs r w"
proof -
  have "router_execute tools = router_execute (tools\<lparr>rt_registry := reg\<rparr>)"
    using router_execute_cong [OF assms] by (intro ext)
  then show ?thesis by (simp add: host_env_def)
qed

theorem run_uses_admitted_tools_only_witness:
  "run_until in_memory (host_env demo_llm demo_tools (\<lambda>_ _. False) (\<lambda>_. ''{}'')) demo_done JNull demo_runner 0 =
   run_until in_memory (host_env demo_llm (demo_tools\<lparr>rt_registry := (rt_registry demo_tools)(''shell'' := None,
     ''file_read'' \<mapsto> (\<lambda>_ _. (Inl ''x'', 9)))\<rparr>) (\<lambda>_ _. False) (\<lambda>_. ''{}'')) demo_done JNull demo_runner 0"
  by (rule run_uses_admitted_tools_only) (auto simp: may_run_def demo_tools_def ask_def)

text \<open>One completion asks the provider at least once and at most \<open>max_retries + 1\<close> times, whatever the provider
  answers, and its result is that of the uncounted provider.\<close>

theorem completion_attempts_bounded:
  "\<exists>n. router_complete (counting llm) req (w, 0) = (fst (router_complete llm req w), (snd (router_complete llm req w), n)) \<and>
     0 < n \<and> n \<le> unat (rl_max_retries llm) + 1"
proof -
  have "agent_to_router_request (counting llm) req = agent_to_router_request llm req"
    by (simp add: agent_to_router_request_def counting_def)
  then show ?thesis
    using complete_attempts_counted [of llm "agent_to_router_request llm req" 0 "unat (rl_max_retries llm)" w 0]
    by (simp add: router_complete_def counting_simps)
qed

end
