(* ===== verification/Utf8.thy ===== *)
theory Utf8
  imports Rust_Text
begin

text \<open>
  UTF-8 as the Rust standard library reads it: the validity check behind \<open>read_to_string\<close>, the replacement of
  invalid sequences by \<open>String::from_utf8_lossy\<close>, and the character boundaries at which a \<open>str\<close> may be sliced.
\<close>

definition byte :: "string \<Rightarrow> nat \<Rightarrow> nat" where
  \<comment> \<open>zero past the end, as the decoder of the standard library reads\<close>
  "byte s i = (if i < length s then of_char (s ! i) else 0)"

definition cont :: "nat \<Rightarrow> bool" where
  "cont b \<longleftrightarrow> 0x80 \<le> b \<and> b \<le> 0xBF"

definition second_ok3 :: "nat \<Rightarrow> nat \<Rightarrow> bool" where
  "second_ok3 b c \<longleftrightarrow>
    (if b = 0xE0 then 0xA0 \<le> c \<and> c \<le> 0xBF else if b = 0xED then 0x80 \<le> c \<and> c \<le> 0x9F else cont c)"

definition second_ok4 :: "nat \<Rightarrow> nat \<Rightarrow> bool" where
  "second_ok4 b c \<longleftrightarrow>
    (if b = 0xF0 then 0x90 \<le> c \<and> c \<le> 0xBF else if b = 0xF4 then 0x80 \<le> c \<and> c \<le> 0x8F else cont c)"

definition utf8_first :: "string \<Rightarrow> bool \<times> nat" where
  \<comment> \<open>whether the first sequence is a character, and its length\<close>
  "utf8_first s =
    (let b = byte s 0
     in if b < 0x80 then (True, 1)
        else if 0xC2 \<le> b \<and> b \<le> 0xDF then (if cont (byte s 1) then (True, 2) else (False, 1))
        else if 0xE0 \<le> b \<and> b \<le> 0xEF then
          (if \<not> second_ok3 b (byte s 1) then (False, 1)
           else if \<not> cont (byte s 2) then (False, 2) else (True, 3))
        else if 0xF0 \<le> b \<and> b \<le> 0xF4 then
          (if \<not> second_ok4 b (byte s 1) then (False, 1)
           else if \<not> cont (byte s 2) then (False, 2)
           else if \<not> cont (byte s 3) then (False, 3) else (True, 4))
        else (False, 1))"

lemma utf8_first_pos: "0 < snd (utf8_first s)"
  by (simp add: utf8_first_def Let_def)

function utf8_valid :: "string \<Rightarrow> bool" where
  "utf8_valid s = (if s = [] then True else if fst (utf8_first s) then utf8_valid (drop (snd (utf8_first s)) s) else False)"
  by auto
termination by (relation "measure length") (auto simp: utf8_first_pos)

function from_utf8_lossy :: "string \<Rightarrow> string" where
  "from_utf8_lossy s =
    (if s = [] then []
     else (if fst (utf8_first s) then take (snd (utf8_first s)) s else [CHR 0xEF, CHR 0xBF, CHR 0xBD])
       @ from_utf8_lossy (drop (snd (utf8_first s)) s))"
  by auto
termination by (relation "measure length") (auto simp: utf8_first_pos)

definition is_char_boundary :: "string \<Rightarrow> nat \<Rightarrow> bool" where
  "is_char_boundary s i \<longleftrightarrow> i = 0 \<or> i = length s \<or> i < length s \<and> \<not> cont (byte s i)"

declare utf8_valid.simps [simp del] from_utf8_lossy.simps [simp del]

lemma utf8_valid_Nil [simp]: "utf8_valid []"
  by (simp add: utf8_valid.simps)

lemma from_utf8_lossy_Nil [simp]: "from_utf8_lossy [] = []"
  by (simp add: from_utf8_lossy.simps)

lemma byte_beyond: "length s \<le> i \<Longrightarrow> byte s i = 0"
  by (simp add: byte_def)

lemma utf8_first_fits:
  assumes "fst (utf8_first s)" "s \<noteq> []"
  shows "snd (utf8_first s) \<le> length s"
proof (rule ccontr)
  assume "\<not> ?thesis"
  then have "length s \<le> snd (utf8_first s) - 1" by simp
  moreover from this have "byte s (snd (utf8_first s) - 1) = 0" by (rule byte_beyond)
  ultimately show False using assms
    by (auto simp: utf8_first_def Let_def cont_def second_ok3_def second_ok4_def split: if_splits)
qed

lemma from_utf8_lossy_valid: "utf8_valid s \<Longrightarrow> from_utf8_lossy s = s"
proof (induction s rule: from_utf8_lossy.induct)
  case (1 s)
  show ?case
  proof (cases "s = []")
    case False
    from 1(2) False have "fst (utf8_first s)" "utf8_valid (drop (snd (utf8_first s)) s)"
      by (simp_all add: utf8_valid.simps [of s] split: if_splits)
    with 1(1) [OF False] False show ?thesis by (subst from_utf8_lossy.simps) simp
  qed simp
qed

lemma length_from_utf8_lossy: "length (from_utf8_lossy s) \<le> 3 * length s"
proof (induction s rule: from_utf8_lossy.induct)
  case (1 s)
  define n where "n = snd (utf8_first s)"
  show ?case
  proof (cases "s = []")
    case False
    have n: "0 < n" by (simp add: n_def utf8_first_pos)
    have "length (from_utf8_lossy (drop n s)) \<le> 3 * length (drop n s)" using "1.IH" [OF False] by (simp add: n_def)
    moreover from False have "1 \<le> length s" by (cases s) auto
    ultimately show ?thesis using n False
      by (subst from_utf8_lossy.simps) (simp add: n_def [symmetric], linarith)
  qed simp
qed

lemma utf8_first_ascii: "of_char c < (0x80 :: nat) \<Longrightarrow> utf8_first (c # s) = (True, 1)"
  by (simp add: utf8_first_def byte_def)

lemma utf8_valid_ascii [simp]: "of_char c < (0x80 :: nat) \<Longrightarrow> utf8_valid (c # s) = utf8_valid s"
  by (subst utf8_valid.simps) (simp add: utf8_first_ascii)

lemma utf8_valid_e_acute [simp]: "utf8_valid (CHR 0xC3 # CHR 0xA9 # s) = utf8_valid s"
  by (subst utf8_valid.simps) (simp add: utf8_first_def byte_def cont_def numeral_2_eq_2)

end
