(* ===== verification/Http_Tool.thy ===== *)
theory Http_Tool
  imports Json Utf8
begin

text \<open>
  \<open>src/tools/http_tool.rs\<close>: the HTTP tool and its defence against requests to internal addresses. Addresses are
  words, in network order. The URL parser, the printing and parsing of addresses, name resolution and the HTTP
  client are parameters; name resolution may answer differently when the tool checks a host and when the client
  dials it.
\<close>

unbundle bit_operations_syntax

section \<open>Addresses\<close>

datatype ip_addr = V4 "32 word" | V6 "128 word"

definition octet :: "nat \<Rightarrow> 32 word \<Rightarrow> 8 word" where
  "octet i v = ucast (drop_bit (24 - 8 * i) v)"

definition segment :: "nat \<Rightarrow> 128 word \<Rightarrow> 16 word" where
  "segment i v = ucast (drop_bit (112 - 16 * i) v)"

definition v4_is_loopback :: "32 word \<Rightarrow> bool" where
  "v4_is_loopback v \<longleftrightarrow> octet 0 v = 127"

definition v4_is_link_local :: "32 word \<Rightarrow> bool" where
  "v4_is_link_local v \<longleftrightarrow> octet 0 v = 169 \<and> octet 1 v = 254"

definition v4_is_private :: "32 word \<Rightarrow> bool" where
  "v4_is_private v \<longleftrightarrow> octet 0 v = 10 \<or> octet 0 v = 172 \<and> 16 \<le> octet 1 v \<and> octet 1 v \<le> 31 \<or>
     octet 0 v = 192 \<and> octet 1 v = 168"

definition to_ipv4_mapped :: "128 word \<Rightarrow> 32 word option" where
  "to_ipv4_mapped v = (if drop_bit 32 v = 0xffff then Some (ucast v) else None)"

definition v4_blocked :: "32 word \<Rightarrow> bool" where
  "v4_blocked v \<longleftrightarrow> v4_is_loopback v \<or> v4_is_link_local v \<or> v4_is_private v \<or> v = 0 \<or> v = 0xffffffff \<or>
     octet 0 v = 0 \<or> octet 0 v = 100 \<and> octet 1 v AND 0xC0 = 0x40"

definition v6_blocked :: "128 word \<Rightarrow> bool" where
  "v6_blocked v \<longleftrightarrow> v = 1 \<or> v = 0 \<or> segment 0 v AND 0xffc0 = 0xfe80 \<or> segment 0 v AND 0xfe00 = 0xfc00 \<or>
     segment 0 v = 0x0064 \<and> segment 1 v = 0xff9b \<and> list_all (\<lambda>i. segment i v = 0) [2, 3, 4, 5] \<or>
     list_all (\<lambda>i. segment i v = 0) [0, 1, 2, 3, 4, 5] \<and> (segment 6 v \<noteq> 0 \<or> segment 7 v \<noteq> 0)"

fun is_blocked_ip :: "ip_addr \<Rightarrow> bool" where
  "is_blocked_ip (V4 v) = v4_blocked v"
| "is_blocked_ip (V6 v) = (case to_ipv4_mapped v of Some u \<Rightarrow> v4_blocked u | None \<Rightarrow> v6_blocked v)"

section \<open>Address ranges\<close>

definition in_prefix :: "'a::len word \<Rightarrow> nat \<Rightarrow> 'a word \<Rightarrow> bool" where
  "in_prefix net n v \<longleftrightarrow> drop_bit (LENGTH('a) - n) v = drop_bit (LENGTH('a) - n) net"

definition ipv4 :: "nat \<Rightarrow> nat \<Rightarrow> nat \<Rightarrow> nat \<Rightarrow> 32 word" where
  "ipv4 a b c d = of_nat (((a * 256 + b) * 256 + c) * 256 + d)"

definition internal_v4 :: "32 word \<Rightarrow> bool" where
  "internal_v4 v \<longleftrightarrow> in_prefix (ipv4 0 0 0 0) 8 v \<or> in_prefix (ipv4 10 0 0 0) 8 v \<or> in_prefix (ipv4 100 64 0 0) 10 v \<or>
     in_prefix (ipv4 127 0 0 0) 8 v \<or> in_prefix (ipv4 169 254 0 0) 16 v \<or> in_prefix (ipv4 172 16 0 0) 12 v \<or>
     in_prefix (ipv4 192 168 0 0) 16 v \<or> v = ipv4 255 255 255 255"

definition internal_v6 :: "128 word \<Rightarrow> bool" where
  \<comment> \<open>\<open>::/96\<close>, \<open>fe80::/10\<close>, \<open>fc00::/7\<close> and \<open>64:ff9b::/96\<close>\<close>
  "internal_v6 v \<longleftrightarrow> in_prefix 0 96 v \<or> in_prefix (push_bit 112 0xfe80) 10 v \<or> in_prefix (push_bit 112 0xfc00) 7 v \<or>
     in_prefix (push_bit 96 0x0064ff9b) 96 v"

lemma and_high_bits: "x AND NOT (mask n) = push_bit n (drop_bit n (x :: 'a::len word))"
  by (rule bit_word_eqI) (auto simp: bit_simps)

lemma unat_drop_bit: "unat (drop_bit n (v :: 'a::len word)) = unat v div 2 ^ n"
  unfolding unsigned_drop_bit_eq by (simp add: drop_bit_eq_div take_bit_nat_eq_self [OF unsigned_less])

lemma unat_push_bit: "unat (push_bit n (v :: 'a::len word)) = unat v * 2 ^ n mod 2 ^ LENGTH('a)"
  unfolding unsigned_push_bit_eq by (simp add: push_bit_eq_mult take_bit_eq_mod)

lemma unat_and_high_bits: "unat (x AND NOT (mask n)) = unat (x :: 'a::len word) div 2 ^ n * 2 ^ n"
proof -
  have "unat x div 2 ^ n * 2 ^ n < 2 ^ LENGTH('a)"
    using unsigned_less [of x] by (meson div_times_less_eq_dividend le_less_trans)
  then show ?thesis
    unfolding and_high_bits unat_push_bit unat_drop_bit by simp
qed

lemma unat_octet: "unat (octet i v) = unat v div 2 ^ (24 - 8 * i) mod 256"
  unfolding octet_def unsigned_ucast_eq unat_drop_bit by (simp add: take_bit_eq_mod)

lemma unat_segment: "unat (segment i v) = unat v div 2 ^ (112 - 16 * i) mod 65536"
  unfolding segment_def unsigned_ucast_eq unat_drop_bit by (simp add: take_bit_eq_mod)

lemma in_prefix_unat:
  "in_prefix net n (v :: 'a::len word) \<longleftrightarrow> unat v div 2 ^ (LENGTH('a) - n) = unat net div 2 ^ (LENGTH('a) - n)"
  unfolding in_prefix_def word_unat_eq_iff unat_drop_bit ..

lemma masked_word:
  "(x :: 8 word) AND 0xC0 = 0x40 \<longleftrightarrow> unat x div 64 = 1"
  "(y :: 16 word) AND 0xffc0 = 0xfe80 \<longleftrightarrow> unat y div 64 = 0x3fa"
  "y AND 0xfe00 = 0xfc00 \<longleftrightarrow> unat y div 512 = 0x7e"
proof -
  have m: "(0xC0 :: 8 word) = NOT (mask 6)" "(0xffc0 :: 16 word) = NOT (mask 6)" "(0xfe00 :: 16 word) = NOT (mask 9)"
    by (simp_all add: mask_eq_exp_minus_1 not_eq_complement)
  show "(x :: 8 word) AND 0xC0 = 0x40 \<longleftrightarrow> unat x div 64 = 1"
    unfolding word_unat_eq_iff m unat_and_high_bits by simp
  show "(y :: 16 word) AND 0xffc0 = 0xfe80 \<longleftrightarrow> unat y div 64 = 0x3fa"
    unfolding word_unat_eq_iff m unat_and_high_bits by simp
  show "y AND 0xfe00 = 0xfc00 \<longleftrightarrow> unat y div 512 = 0x7e"
    unfolding word_unat_eq_iff m unat_and_high_bits by simp
qed

lemma div_iff: "0 < k \<Longrightarrow> m div k = c \<longleftrightarrow> c * k \<le> m \<and> m < Suc c * (k :: nat)"
  using dividend_less_div_times [of k m] div_times_less_eq_dividend [of m k] div_nat_eqI [of k c m]
  by (auto simp: mult.commute)

lemma halves:
  "m div 256 = 169 \<and> m mod 256 = 254 \<longleftrightarrow> m = (43518 :: nat)" "m div 256 = 192 \<and> m mod 256 = 168 \<longleftrightarrow> m = 49320"
  "m div 256 = 172 \<and> 16 \<le> m mod 256 \<and> m mod 256 \<le> 31 \<longleftrightarrow> m div 16 = 2753"
  "m div 256 = 100 \<and> m mod 256 div 64 = 1 \<longleftrightarrow> m div 64 = 401"
proof -
  define a b where "a = m div 256" and "b = m mod 256"
  have m: "m = 256 * a + b" "b < 256" by (simp_all add: a_def b_def)
  show "m div 256 = 169 \<and> m mod 256 = 254 \<longleftrightarrow> m = 43518" "m div 256 = 192 \<and> m mod 256 = 168 \<longleftrightarrow> m = 49320"
    "m div 256 = 172 \<and> 16 \<le> m mod 256 \<and> m mod 256 \<le> 31 \<longleftrightarrow> m div 16 = 2753"
    "m div 256 = 100 \<and> m mod 256 div 64 = 1 \<longleftrightarrow> m div 64 = 401"
    unfolding a_def [symmetric] b_def [symmetric] using m by (auto simp: div_iff) presburger+
qed

lemma v4_blocked_iff: "v4_blocked v \<longleftrightarrow> internal_v4 v"
proof -
  define m where "m = unat v div 65536"
  have lt: "m < 65536"
    using unsigned_less [of v, where ?'a = nat] by (simp add: m_def less_mult_imp_div_less)
  have oct: "unat (octet 0 v) = m div 256" "unat (octet 1 v) = m mod 256"
    using lt by (simp_all add: unat_octet m_def div_mult2_eq [symmetric])
  have pre: "unat v div 16777216 = m div 256" "unat v div 4194304 = m div 64" "unat v div 1048576 = m div 16"
    by (simp_all add: m_def div_mult2_eq [symmetric])
  have zero: "v = 0 \<Longrightarrow> m div 256 = 0" by (simp add: m_def)
  have "v4_blocked v \<longleftrightarrow> m div 256 = 127 \<or> m div 256 = 169 \<and> m mod 256 = 254 \<or>
      m div 256 = 10 \<or> m div 256 = 172 \<and> 16 \<le> m mod 256 \<and> m mod 256 \<le> 31 \<or> m div 256 = 192 \<and> m mod 256 = 168 \<or>
      v = 0xffffffff \<or> m div 256 = 0 \<or> m div 256 = 100 \<and> m mod 256 div 64 = 1"
  proof -
    have "octet 0 v = c \<longleftrightarrow> m div 256 = unat c" "octet 1 v = c \<longleftrightarrow> m mod 256 = unat c"
      "c \<le> octet 1 v \<longleftrightarrow> unat c \<le> m mod 256" "octet 1 v \<le> c \<longleftrightarrow> m mod 256 \<le> unat c" for c
      by (simp_all only: word_unat_eq_iff word_le_nat_alt oct)
    note oct_iff = this this [of 127] this [of 169]
    have "v4_blocked v \<longleftrightarrow> m div 256 = unat (127 :: 8 word) \<or> m div 256 = unat (169 :: 8 word) \<and> m mod 256 = unat (254 :: 8 word) \<or>
        (m div 256 = unat (10 :: 8 word) \<or> m div 256 = unat (172 :: 8 word) \<and> unat (16 :: 8 word) \<le> m mod 256 \<and>
          m mod 256 \<le> unat (31 :: 8 word) \<or> m div 256 = unat (192 :: 8 word) \<and> m mod 256 = unat (168 :: 8 word)) \<or>
        v = 0 \<or> v = 0xffffffff \<or> m div 256 = unat (0 :: 8 word) \<or> m div 256 = unat (100 :: 8 word) \<and> m mod 256 div 64 = 1"
      unfolding v4_blocked_def v4_is_loopback_def v4_is_link_local_def v4_is_private_def masked_word oct
      by (simp only: oct_iff)
    then show ?thesis using zero by (simp only: unat_numeral unsigned_0) (simp, blast)
  qed
  also have "\<dots> \<longleftrightarrow> internal_v4 v"
  proof -
    show ?thesis
      unfolding halves [of m] by (simp add: internal_v4_def in_prefix_unat ipv4_def pre m_def [symmetric], blast)
  qed
  finally show ?thesis .
qed

lemma segments_eq:
  "x div 2 ^ k = (c :: nat) \<longleftrightarrow> x div 2 ^ (k + 16) = c div 65536 \<and> x div 2 ^ k mod 65536 = c mod 65536"
proof -
  have "x div 2 ^ (k + 16) = x div 2 ^ k div 2 ^ 16"
    by (simp only: power_add div_mult2_eq)
  moreover have "(2 :: nat) ^ 16 = 65536" by simp
  ultimately show ?thesis by (metis div_mult_mod_eq)
qed

lemma div_div_power: "x div 2 ^ j div 2 ^ k = x div (2 :: nat) ^ (j + k)"
  by (simp only: power_add div_mult2_eq)

lemma segment_zero: "unat (segment 0 v) = unat v div 2 ^ 112"
proof -
  have "unat v < 65536 * 2 ^ 112"
    using unsigned_less [of v, where ?'a = nat] by simp
  then have "unat v div 2 ^ 112 < 65536"
    by (rule less_mult_imp_div_less)
  then show ?thesis by (simp only: unat_segment mult_0_right diff_zero mod_less)
qed

lemma high_segments:
  "unat v div 2 ^ 32 = c \<longleftrightarrow> unat (segment 0 v) = c div 65536 div 65536 div 65536 div 65536 div 65536 \<and>
     unat (segment 1 v) = c div 65536 div 65536 div 65536 div 65536 mod 65536 \<and>
     unat (segment 2 v) = c div 65536 div 65536 div 65536 mod 65536 \<and>
     unat (segment 3 v) = c div 65536 div 65536 mod 65536 \<and> unat (segment 4 v) = c div 65536 mod 65536 \<and>
     unat (segment 5 v) = c mod 65536"
proof -
  have seg: "unat (segment 1 v) = unat v div 2 ^ 96 mod 65536" "unat (segment 2 v) = unat v div 2 ^ 80 mod 65536"
    "unat (segment 3 v) = unat v div 2 ^ 64 mod 65536" "unat (segment 4 v) = unat v div 2 ^ 48 mod 65536"
    "unat (segment 5 v) = unat v div 2 ^ 32 mod 65536"
    unfolding unat_segment by simp_all
  have plus: "(32 :: nat) + 16 = 48" "(48 :: nat) + 16 = 64" "(64 :: nat) + 16 = 80" "(80 :: nat) + 16 = 96"
    "(96 :: nat) + 16 = 112" by simp_all
  show ?thesis
    unfolding seg segment_zero
    using segments_eq [of "unat v" 32 c, unfolded plus] segments_eq [of "unat v" 48 "c div 65536", unfolded plus]
      segments_eq [of "unat v" 64 "c div 65536 div 65536", unfolded plus]
      segments_eq [of "unat v" 80 "c div 65536 div 65536 div 65536", unfolded plus]
      segments_eq [of "unat v" 96 "c div 65536 div 65536 div 65536 div 65536", unfolded plus]
    by blast
qed

lemma low_segments: "unat v div 2 ^ 32 = 0 \<Longrightarrow> segment 6 v = 0 \<Longrightarrow> segment 7 v = 0 \<Longrightarrow> v = 0"
proof -
  assume a: "unat v div 2 ^ 32 = 0" "segment 6 v = 0" "segment 7 v = 0"
  have "unat v div 2 ^ 16 mod 65536 = 0" "unat v div 2 ^ 0 mod 65536 = 0"
    using arg_cong [OF a(2), of unat] arg_cong [OF a(3), of unat] by (simp_all add: unat_segment)
  then have "unat v div 2 ^ 0 = 0"
    using a(1) segments_eq [of "unat v" 0 0] segments_eq [of "unat v" 16 0] by simp
  then show "v = 0" by (simp add: unat_eq_zero)
qed

lemma v6_blocked_iff: "v6_blocked v \<longleftrightarrow> internal_v6 v"
proof -
  have seg: "segment i v = c \<longleftrightarrow> unat (segment i v) = unat c" for i c by (simp only: word_unat_eq_iff)
  have zero: "list_all (\<lambda>i. segment i v = 0) [0, 1, 2, 3, 4, 5] \<longleftrightarrow> unat v div 2 ^ 32 = 0"
    unfolding high_segments [of v 0] by (simp add: seg del: One_nat_def)
  have nat64: "segment 0 v = 0x0064 \<and> segment 1 v = 0xff9b \<and> list_all (\<lambda>i. segment i v = 0) [2, 3, 4, 5] \<longleftrightarrow>
      unat v div 2 ^ 32 = 0x0064ff9b * 2 ^ 64"
  proof -
    have "segment 1 v = 0xff9b \<longleftrightarrow> unat (segment 1 v) = 65435"
      unfolding word_unat_eq_iff by simp
    then show ?thesis
      unfolding high_segments [of v "0x0064ff9b * 2 ^ 64"] by (simp add: seg [of 0] seg [of 2] seg [of 3] seg [of 4] seg [of 5])
  qed
  have top: "segment 0 v AND 0xffc0 = 0xfe80 \<longleftrightarrow> unat v div 2 ^ 118 = 0x3fa"
    "segment 0 v AND 0xfe00 = 0xfc00 \<longleftrightarrow> unat v div 2 ^ 121 = 0x7e"
    using div_div_power [of "unat v" 112 6] div_div_power [of "unat v" 112 9]
    by (simp_all add: masked_word segment_zero)
  have "v = 1 \<Longrightarrow> unat v div 2 ^ 32 = 0" "v = 0 \<Longrightarrow> unat v div 2 ^ 32 = 0" by simp_all
  then have low: "v = 1 \<or> v = 0 \<or> unat v div 2 ^ 32 = 0 \<and> (segment 6 v \<noteq> 0 \<or> segment 7 v \<noteq> 0) \<longleftrightarrow> unat v div 2 ^ 32 = 0"
    using low_segments [of v] by (cases "unat v div 2 ^ 32 = 0") auto
  have "internal_v6 v \<longleftrightarrow> unat v div 2 ^ 32 = 0 \<or> unat v div 2 ^ 118 = 0x3fa \<or> unat v div 2 ^ 121 = 0x7e \<or>
      unat v div 2 ^ 32 = 0x0064ff9b * 2 ^ 64"
    by (simp add: internal_v6_def in_prefix_unat unat_push_bit)
  then show ?thesis
    unfolding v6_blocked_def zero nat64 top using low by blast
qed

definition internal :: "ip_addr \<Rightarrow> bool" where
  "internal ip \<longleftrightarrow> (case ip of V4 v \<Rightarrow> internal_v4 v
     | V6 v \<Rightarrow> if in_prefix (push_bit 32 0xffff) 96 v then internal_v4 (ucast v) else internal_v6 v)"

lemma is_blocked_ip_iff: "is_blocked_ip ip \<longleftrightarrow> internal ip"
proof (cases ip)
  case (V6 v)
  have "drop_bit 32 v = 0xffff \<longleftrightarrow> in_prefix (push_bit 32 0xffff) 96 v"
    by (simp add: in_prefix_unat word_unat_eq_iff [of "drop_bit 32 v"] unat_drop_bit unat_push_bit)
  then show ?thesis
    by (simp add: V6 internal_def to_ipv4_mapped_def v4_blocked_iff v6_blocked_iff)
qed (simp add: internal_def v4_blocked_iff)

section \<open>The tool\<close>

definition MAX_BODY_BYTES :: nat where
  "MAX_BODY_BYTES = 1048576"

definition BLOCKED_HEADERS :: "string list" where
  "BLOCKED_HEADERS = [''authorization'', ''host'']"

datatype url_host = UDomain string | UIpv4 "32 word" | UIpv6 "128 word"

record parsed_url =
  pu_text :: string
  pu_scheme :: string
  pu_host :: "url_host option"
  pu_port :: "u16 option" \<comment> \<open>\<open>port_or_known_default\<close>\<close>

record http_tool_request =
  hq_method :: string
  hq_url :: parsed_url
  hq_body :: "json option"
  hq_headers :: "(string \<times> string) list"

record http_tool_response =
  hr_status :: u16
  hr_chunks :: "(string + string) list"

record http_env =
  he_parse_url :: "string \<Rightarrow> string + parsed_url"
  he_show_ip :: "ip_addr \<Rightarrow> string"
  he_parse_ip :: "string \<Rightarrow> ip_addr option"
  he_show_list :: "string list \<Rightarrow> string"
  he_lookup_host :: "string \<Rightarrow> u16 \<Rightarrow> string + ip_addr list" \<comment> \<open>when the tool checks the host\<close>
  he_to_socket_addrs :: "string \<Rightarrow> string + ip_addr list" \<comment> \<open>when the client dials it\<close>
  he_send :: "(string \<Rightarrow> string + ip_addr list) \<Rightarrow> http_tool_request \<Rightarrow> ip_addr list \<times> (string + http_tool_response)"
    \<comment> \<open>the client, given its resolver: the addresses it dials and the response\<close>

record http_tool =
  ht_allowed_hosts :: "string list"
  ht_allowed_schemes :: "string list"

definition http_tool_default :: http_tool where
  "http_tool_default = \<lparr>ht_allowed_hosts = [], ht_allowed_schemes = [''https'']\<rparr>"

definition with_allowed_hosts :: "http_tool \<Rightarrow> string list \<Rightarrow> http_tool" where
  "with_allowed_hosts tool hosts = tool\<lparr>ht_allowed_hosts := hosts\<rparr>"

definition with_allowed_schemes :: "http_tool \<Rightarrow> string list \<Rightarrow> http_tool" where
  "with_allowed_schemes tool schemes = tool\<lparr>ht_allowed_schemes := schemes\<rparr>"

definition is_host_allowlisted :: "http_tool \<Rightarrow> string \<Rightarrow> bool" where
  "is_host_allowlisted tool host \<longleftrightarrow> list_ex (\<lambda>h. eq_ignore_ascii_case h host) (ht_allowed_hosts tool)"

definition squoted :: "string \<Rightarrow> string" where
  "squoted s = [CHR 0x27] @ s @ [CHR 0x27]"

definition check_literal :: "http_env \<Rightarrow> http_tool \<Rightarrow> ip_addr \<Rightarrow> string + unit" where
  "check_literal env tool ip =
    (if \<not> is_host_allowlisted tool (he_show_ip env ip) \<and> is_blocked_ip ip
     then Inl (''URL host '' @ squoted (he_show_ip env ip) @ '' resolves to a blocked (loopback/private/link-local) address'')
     else Inr ())"

definition validate_url :: "http_env \<Rightarrow> http_tool \<Rightarrow> string \<Rightarrow> string + parsed_url" where
  "validate_url env tool url_str =
    and_then (map_err (\<lambda>e. ''Invalid URL: '' @ e) (he_parse_url env url_str)) (\<lambda>url.
    let scheme = to_ascii_lowercase (pu_scheme url)
    in if \<not> list_ex (\<lambda>s. eq_ignore_ascii_case s scheme) (ht_allowed_schemes tool)
       then Inl (''URL scheme '' @ squoted scheme @ '' is not allowed (allowed: '' @ he_show_list env (ht_allowed_schemes tool) @ '')'')
       else (case pu_host url of
           None \<Rightarrow> Inl ''URL must have a host''
         | Some (UIpv4 v) \<Rightarrow> and_then (check_literal env tool (V4 v)) (\<lambda>_. Inr url)
         | Some (UIpv6 v) \<Rightarrow> and_then (check_literal env tool (V6 v)) (\<lambda>_. Inr url)
         | Some (UDomain _) \<Rightarrow> Inr url))"

definition url_host_string :: "http_env \<Rightarrow> parsed_url \<Rightarrow> string" where
  "url_host_string env url = (case pu_host url of
     Some (UDomain d) \<Rightarrow> d | Some (UIpv4 v) \<Rightarrow> he_show_ip env (V4 v) | Some (UIpv6 v) \<Rightarrow> he_show_ip env (V6 v) | None \<Rightarrow> [])"

definition resolves_to :: "http_env \<Rightarrow> string \<Rightarrow> ip_addr \<Rightarrow> string" where
  "resolves_to env host ip = ''URL host '' @ squoted host @ '' resolves to blocked address '' @ he_show_ip env ip"

definition no_addresses :: "string \<Rightarrow> string" where
  "no_addresses host = ''URL host '' @ squoted host @ '' resolved to no addresses''"

fun select_pinned_addr :: "http_env \<Rightarrow> string \<Rightarrow> ip_addr option \<Rightarrow> ip_addr list \<Rightarrow> string + ip_addr option" where
  "select_pinned_addr env host first [] = (if first = None then Inl (no_addresses host) else Inr first)"
| "select_pinned_addr env host first (a # addrs) =
    (if is_blocked_ip a then Inl (resolves_to env host a)
     else select_pinned_addr env host (if first = None then Some a else first) addrs)"

definition validate_and_pin_host :: "http_env \<Rightarrow> http_tool \<Rightarrow> string \<Rightarrow> u16 \<Rightarrow> string + ip_addr option" where
  "validate_and_pin_host env tool host port =
    (if is_host_allowlisted tool host then Inr None
     else case he_parse_ip env host of
       Some ip \<Rightarrow>
         if is_blocked_ip ip
         then Inl (''URL host '' @ squoted host @ '' is a blocked (loopback/private/link-local) address'')
         else Inr None
     | None \<Rightarrow>
         and_then (map_err (\<lambda>e. ''DNS resolution failed for '' @ squoted host @ '': '' @ e) (he_lookup_host env host port))
           (select_pinned_addr env host None))"

definition resolver_validate :: "http_env \<Rightarrow> string \<Rightarrow> ip_addr list \<Rightarrow> string + unit" where
  "resolver_validate env host addrs =
    (if addrs = [] then Inl (no_addresses host)
     else try_for (\<lambda>a u. if is_blocked_ip a then Inl (resolves_to env host a) else Inr ()) addrs ())"

definition validating_resolve :: "http_env \<Rightarrow> http_tool \<Rightarrow> string \<Rightarrow> string + ip_addr list" where
  "validating_resolve env tool host =
    and_then (map_err (\<lambda>e. ''DNS resolution failed for '' @ squoted host @ '': DNS resolution failed for '' @ squoted host @
      '': '' @ e) (he_to_socket_addrs env host)) (\<lambda>addrs.
    and_then (if is_host_allowlisted tool host then Inr () else resolver_validate env host addrs) (\<lambda>_. Inr addrs))"

fun read_body :: "(string + string) list \<Rightarrow> string \<Rightarrow> string + (string \<times> bool)" where
  "read_body [] body = Inr (body, False)"
| "read_body (Inl e # chunks) body = Inl (''HTTP body read error: '' @ e)"
| "read_body (Inr chunk # chunks) body =
    (if MAX_BODY_BYTES < length body + length chunk
     then Inr (body @ take (MAX_BODY_BYTES - length body) chunk, True)
     else read_body chunks (body @ chunk))"

definition read_body_limited :: "http_tool_response \<Rightarrow> string + (string \<times> bool)" where
  "read_body_limited resp = (case read_body (hr_chunks resp) [] of
     Inl e \<Rightarrow> Inl e | Inr (body, truncated) \<Rightarrow> Inr (from_utf8_lossy body, truncated))"

definition request_body :: "string \<Rightarrow> json \<Rightarrow> string + json option" where
  "request_body m args =
    (if m = ''GET'' \<or> m = ''DELETE'' then Inr None
     else if m = ''POST'' \<or> m = ''PUT'' then Inr (Some (case json_get ''body'' args of Some b \<Rightarrow> b | None \<Rightarrow> JNull))
     else Inl (''Unsupported HTTP method: '' @ m))"

definition request_headers :: "json \<Rightarrow> (string \<times> string) list" where
  "request_headers args = (case Option.bind (json_get ''headers'' args) as_object of
     None \<Rightarrow> []
   | Some hdrs \<Rightarrow> List.map_filter (\<lambda>(k, v). case as_str v of
         Some s \<Rightarrow> if to_ascii_lowercase k \<in> set BLOCKED_HEADERS then None else Some (k, s)
       | None \<Rightarrow> None) hdrs)"

definition prepare_request :: "http_env \<Rightarrow> http_tool \<Rightarrow> json \<Rightarrow> string + http_tool_request" where
  "prepare_request env tool args =
    and_then (ok_or (''Missing '' @ squoted ''method'' @ '' argument'') (Option.bind (json_get ''method'' args) as_str)) (\<lambda>m.
    and_then (ok_or (''Missing '' @ squoted ''url'' @ '' argument'') (Option.bind (json_get ''url'' args) as_str)) (\<lambda>url_str.
    and_then (validate_url env tool url_str) (\<lambda>url.
    and_then (validate_and_pin_host env tool (url_host_string env url) (case pu_port url of Some p \<Rightarrow> p | None \<Rightarrow> 80)) (\<lambda>_.
    and_then (request_body m args) (\<lambda>body.
    Inr \<lparr>hq_method = m, hq_url = url, hq_body = body, hq_headers = request_headers args\<rparr>)))))"

definition http_execute :: "http_env \<Rightarrow> http_tool \<Rightarrow> json \<Rightarrow> ip_addr list \<times> (string + json)" where
  "http_execute env tool args =
    (case prepare_request env tool args of
       Inl e \<Rightarrow> ([], Inl e)
     | Inr req \<Rightarrow>
         (case he_send env (validating_resolve env tool) req of
            (dialed, Inl e) \<Rightarrow> (dialed, Inl (''HTTP request failed: '' @ e))
          | (dialed, Inr resp) \<Rightarrow>
              (case read_body_limited resp of
                 Inl e \<Rightarrow> (dialed, Inl e)
               | Inr (body, truncated) \<Rightarrow> (dialed, Inr (JObject (bt_of_list
                   [(''status'', JNumber (PosInt (ucast (hr_status resp)))), (''body'', JString body),
                    (''truncated'', JBool truncated)]))))))"

section \<open>What the tool guarantees\<close>

text \<open>C26. The tool refuses an address exactly when it lies in one of the ranges \<open>0.0.0.0/8\<close>, \<open>10.0.0.0/8\<close>,
  \<open>100.64.0.0/10\<close>, \<open>127.0.0.0/8\<close>, \<open>169.254.0.0/16\<close>, \<open>172.16.0.0/12\<close>, \<open>192.168.0.0/16\<close> or is the broadcast address, or, for
  IPv6, in \<open>::/96\<close>, \<open>fe80::/10\<close>, \<open>fc00::/7\<close> or \<open>64:ff9b::/96\<close>; an IPv4-mapped address is judged by the IPv4
  address it carries.\<close>

theorem is_blocked_ip_exact: "is_blocked_ip ip \<longleftrightarrow> internal ip"
  by (rule is_blocked_ip_iff)

definition dial_set :: "(string \<Rightarrow> string + ip_addr list) \<Rightarrow> parsed_url \<Rightarrow> ip_addr set" where
  "dial_set resolve url = (case pu_host url of
     Some (UIpv4 v) \<Rightarrow> {V4 v} | Some (UIpv6 v) \<Rightarrow> {V6 v}
   | Some (UDomain d) \<Rightarrow> (case resolve d of Inr addrs \<Rightarrow> set addrs | Inl _ \<Rightarrow> {})
   | None \<Rightarrow> {})"

definition client_dials_resolved :: "http_env \<Rightarrow> bool" where
  \<comment> \<open>the client has redirects off: it dials the literal of its URL, or what its resolver returned for the domain\<close>
  "client_dials_resolved env \<longleftrightarrow>
    (\<forall>resolve req. set (fst (he_send env resolve req)) \<subseteq> dial_set resolve (hq_url req))"

lemma resolver_validate_iff:
  "resolver_validate env host addrs = Inr () \<longleftrightarrow> addrs \<noteq> [] \<and> (\<forall>a\<in>set addrs. \<not> is_blocked_ip a)"
proof -
  have "try_for (\<lambda>a u. if is_blocked_ip a then Inl (resolves_to env host a) else Inr ()) addrs () = Inr () \<longleftrightarrow>
      (\<forall>a\<in>set addrs. \<not> is_blocked_ip a)"
    by (induction addrs) auto
  then show ?thesis by (simp add: resolver_validate_def)
qed

lemma validated_url_dials:
  assumes "validate_url env tool url_str = Inr url" and "ip \<in> dial_set (validating_resolve env tool) url"
  shows "\<not> is_blocked_ip ip \<or> is_host_allowlisted tool (url_host_string env url)"
proof (cases "pu_host url")
  case None
  then show ?thesis using assms(2) by (simp add: dial_set_def)
next
  case (Some h)
  have url: "validate_url env tool url_str = Inr url" "he_parse_url env url_str = Inr url"
    using assms(1) by (auto simp: validate_url_def Let_def split: if_splits option.splits url_host.splits)
  show ?thesis
  proof (cases h)
    case (UDomain d)
    then obtain addrs where "validating_resolve env tool d = Inr addrs" "ip \<in> set addrs"
      using assms(2) Some by (auto simp: dial_set_def split: sum.splits)
    then show ?thesis
      using Some UDomain resolver_validate_iff [of env d addrs]
      by (auto simp: validating_resolve_def url_host_string_def split: if_splits)
  next
    case (UIpv4 v)
    then show ?thesis
      using assms(2) url Some
      by (auto simp: dial_set_def validate_url_def Let_def check_literal_def url_host_string_def split: if_splits)
  next
    case (UIpv6 v)
    then show ?thesis
      using assms(2) url Some
      by (auto simp: dial_set_def validate_url_def Let_def check_literal_def url_host_string_def split: if_splits)
  qed
qed

lemma prepare_request_Inr:
  assumes "prepare_request env tool args = Inr req"
  shows "(\<exists>url_str. json_get ''url'' args = Some (JString url_str) \<and> validate_url env tool url_str = Inr (hq_url req)) \<and>
    (\<forall>(k, v)\<in>set (hq_headers req). to_ascii_lowercase k \<notin> set BLOCKED_HEADERS)"
proof -
  have "\<forall>(k, v)\<in>set (request_headers args). to_ascii_lowercase k \<notin> set BLOCKED_HEADERS"
    by (auto simp: request_headers_def map_filter_def split: option.splits if_splits)
  moreover have "as_str v = Some s \<Longrightarrow> v = JString s" for v s by (cases v) auto
  ultimately show ?thesis
    using assms by (fastforce simp: prepare_request_def bind_eq_Some_conv)
qed

definition demo_http_env :: http_env where
  \<comment> \<open>a name that resolves to a public address when it is checked and to the metadata service when it is dialled\<close>
  "demo_http_env = \<lparr>he_parse_url = (\<lambda>s. Inr \<lparr>pu_text = s, pu_scheme = ''https'', pu_host = Some (UDomain s), pu_port = None\<rparr>),
     he_show_ip = (\<lambda>_. ''ip''), he_parse_ip = (\<lambda>_. None), he_show_list = (\<lambda>_. ''[]''),
     he_lookup_host = (\<lambda>_ _. Inr [V4 0x08080808]), he_to_socket_addrs = (\<lambda>_. Inr [V4 0xA9FEA9FE]),
     he_send = (\<lambda>resolve req. case resolve (pu_text (hq_url req)) of Inl e \<Rightarrow> ([], Inl e)
       | Inr addrs \<Rightarrow> (case pu_host (hq_url req) of
           Some (UDomain d) \<Rightarrow> if d = pu_text (hq_url req) then (addrs, Inr \<lparr>hr_status = 200, hr_chunks = []\<rparr>) else ([], Inl [])
         | _ \<Rightarrow> ([], Inl [])))\<rparr>"

text \<open>C7. Whatever the name service answers, and even when it answers differently at the check and at the connection, an
  execution of the tool dials no internal address, unless the host of its URL is on the operator's allowlist. This
  rests on the client dialling only the literal address of a URL or the addresses its resolver returned.\<close>

theorem http_never_dials_internal:
  assumes "client_dials_resolved env" and "ip \<in> set (fst (http_execute env tool args))"
  shows "\<not> internal ip \<or> (\<exists>url_str url. json_get ''url'' args = Some (JString url_str) \<and>
    he_parse_url env url_str = Inr url \<and> is_host_allowlisted tool (url_host_string env url))"
proof -
  obtain req where req: "prepare_request env tool args = Inr req"
    "ip \<in> set (fst (he_send env (validating_resolve env tool) req))"
    using assms(2) by (auto simp: http_execute_def split: sum.splits prod.splits)
  have dial: "ip \<in> dial_set (validating_resolve env tool) (hq_url req)"
    using assms(1) req(2) by (auto simp: client_dials_resolved_def)
  obtain url_str where url: "json_get ''url'' args = Some (JString url_str)" "validate_url env tool url_str = Inr (hq_url req)"
    using prepare_request_Inr [OF req(1)] by blast
  have "he_parse_url env url_str = Inr (hq_url req)"
    using url(2) by (auto simp: validate_url_def Let_def split: if_splits option.splits url_host.splits)
  then show ?thesis
    using validated_url_dials [OF url(2) dial] url(1) is_blocked_ip_iff by blast
qed

theorem http_never_dials_internal_witness:
  "let env = demo_http_env\<lparr>he_to_socket_addrs := (\<lambda>_. Inr [V4 0x08080404])\<rparr>;
       args = JObject [(''method'', JString ''GET''), (''url'', JString ''h'')]
   in client_dials_resolved env \<and> fst (http_execute env http_tool_default args) = [V4 0x08080404] \<and>
      \<not> internal (V4 0x08080404) \<and> fst (http_execute demo_http_env http_tool_default args) = []"
proof -
  let ?env = "demo_http_env\<lparr>he_to_socket_addrs := (\<lambda>_. Inr [V4 0x08080404])\<rparr>"
  let ?args = "JObject [(''method'', JString ''GET''), (''url'', JString ''h'')]"
  have c: "client_dials_resolved ?env"
    by (auto simp: client_dials_resolved_def demo_http_env_def dial_set_def split: sum.splits option.splits url_host.splits)
  have run: "fst (http_execute ?env http_tool_default ?args) = [V4 0x08080404]"
    "fst (http_execute demo_http_env http_tool_default ?args) = []"
    by code_simp+
  moreover have "\<not> internal (V4 0x08080404)"
    using http_never_dials_internal [OF c, of "V4 0x08080404" http_tool_default ?args] run
    by (auto simp: is_host_allowlisted_def http_tool_default_def)
  ultimately show ?thesis using c by simp
qed

lemma read_body_exact:
  "(\<forall>c\<in>set chunks. \<exists>b. c = Inr b) \<Longrightarrow> length body \<le> MAX_BODY_BYTES \<Longrightarrow>
    read_body chunks body = Inr (take MAX_BODY_BYTES (body @ concat (map projr chunks)),
      MAX_BODY_BYTES < length body + length (concat (map projr chunks)))"
proof (induction chunks arbitrary: body)
  case (Cons c chunks)
  then obtain b where "c = Inr b" by auto
  then show ?case using Cons by auto
qed simp

lemma read_body_bounded: "length body \<le> MAX_BODY_BYTES \<Longrightarrow> read_body chunks body = Inr (out, t) \<Longrightarrow> length out \<le> MAX_BODY_BYTES"
  by (induction chunks body rule: read_body.induct) (auto split: if_splits)

lemma read_body_limited_bounded:
  assumes "read_body_limited resp = Inr (body, t)"
  shows "length body \<le> 3 * MAX_BODY_BYTES"
proof -
  from assms obtain bytes where "read_body (hr_chunks resp) [] = Inr (bytes, t)" "body = from_utf8_lossy bytes"
    by (auto simp: read_body_limited_def split: sum.splits)
  with read_body_bounded [of "[]" "hr_chunks resp" bytes t] length_from_utf8_lossy [of bytes] show ?thesis by simp
qed

end
