(* ===== verification/Paths.thy ===== *)
theory Paths
  imports Json Utf8
begin

text \<open>
  \<open>src/security/paths.rs\<close>, the command check of \<open>src/plugin/transport.rs\<close> and the file tool of
  \<open>src/tools/builtin.rs\<close>: containment of paths in a trust root. A path is the list of its components; the file
  system is a parameter that changes with time: it gives for every moment the answers of the system calls made then, so that
  what another process does between two calls is part of every statement.
\<close>

section \<open>Paths\<close>

datatype path_comp = RootDir | CurDir | ParentDir | Normal string

type_synonym path = "path_comp list"

fun comp_of :: "string \<Rightarrow> path_comp" where
  "comp_of s = (if s = ''.'' then CurDir else if s = ''..'' then ParentDir else Normal s)"

definition path_of :: "string \<Rightarrow> path" where
  \<comment> \<open>\<open>Path::components\<close>: empty names are skipped, and \<open>.\<close> except at the start of a relative path\<close>
  "path_of s =
    (let names = filter (\<lambda>n. n \<noteq> []) (split_on (CHR ''/'') s)
     in if s \<noteq> [] \<and> hd s = CHR ''/'' then RootDir # map comp_of (filter (\<lambda>n. n \<noteq> ''.'') names)
        else case names of [] \<Rightarrow> [] | n # ns \<Rightarrow> comp_of n # map comp_of (filter (\<lambda>m. m \<noteq> ''.'') ns))"

definition is_absolute :: "path \<Rightarrow> bool" where
  "is_absolute p \<longleftrightarrow> (case p of RootDir # _ \<Rightarrow> True | _ \<Rightarrow> False)"

definition path_join :: "path \<Rightarrow> path \<Rightarrow> path" where
  "path_join p q = (if is_absolute q then q else if p = [] then q else p @ filter (\<lambda>c. c \<noteq> CurDir) q)"

definition path_starts_with :: "path \<Rightarrow> path \<Rightarrow> bool" where
  "path_starts_with p base \<longleftrightarrow> take (length base) p = base"

definition path_pop :: "path \<Rightarrow> path" where
  \<comment> \<open>\<open>PathBuf::pop\<close> does nothing on an empty path and on the root\<close>
  "path_pop p = (if p = [] \<or> last p = RootDir then p else butlast p)"

definition path_push :: "path_comp \<Rightarrow> path \<Rightarrow> path" where
  "path_push c p = (if c = RootDir then [RootDir] else p @ [c])"

definition lexical_step :: "path_comp \<Rightarrow> path \<Rightarrow> path" where
  "lexical_step c out = (case c of ParentDir \<Rightarrow> path_pop out | CurDir \<Rightarrow> out | _ \<Rightarrow> path_push c out)"

definition lexical_normalize :: "path \<Rightarrow> path" where
  "lexical_normalize p = fold lexical_step p []"

section \<open>System calls\<close>

record fs_handle =
  fh_meta :: "string + bool \<times> nat" \<comment> \<open>\<open>is_file\<close> and \<open>len\<close>\<close>
  fh_nlink :: "nat option"
  fh_id :: "(u64 \<times> u64) option"
  fh_reads :: "(string + string) list" \<comment> \<open>what successive reads return\<close>

record fs_view =
  fs_canonicalize :: "path \<Rightarrow> path option"
  fs_metadata :: "path \<Rightarrow> string + bool \<times> u64 \<times> u64" \<comment> \<open>\<open>is_file\<close>, \<open>dev\<close> and \<open>ino\<close>\<close>
  fs_open :: "path \<Rightarrow> string + fs_handle"

type_synonym fs_run = "nat \<Rightarrow> fs_view"
type_synonym ('e, 'a) io = "nat \<Rightarrow> ('e + 'a) \<times> nat"

definition syscall :: "fs_run \<Rightarrow> (fs_view \<Rightarrow> 'e + 'a) \<Rightarrow> ('e, 'a) io" where
  "syscall fs f now = (f (fs now), Suc now)"

definition pure :: "'e + 'a \<Rightarrow> ('e, 'a) io" where
  "pure r now = (r, now)"

definition io_bind :: "('e, 'a) io \<Rightarrow> ('a \<Rightarrow> ('e, 'b) io) \<Rightarrow> ('e, 'b) io" where
  "io_bind m k now = (case m now of (Inl e, t) \<Rightarrow> (Inl e, t) | (Inr x, t) \<Rightarrow> k x t)"

definition io_err :: "('e \<Rightarrow> 'f) \<Rightarrow> ('e, 'a) io \<Rightarrow> ('f, 'a) io" where
  "io_err f m now = (case m now of (r, t) \<Rightarrow> (map_err f r, t))"

definition io_or_else :: "('e, 'a) io \<Rightarrow> ('e \<Rightarrow> ('f, 'a) io) \<Rightarrow> ('f, 'a) io" where
  "io_or_else m k now = (case m now of (Inl e, t) \<Rightarrow> k e t | (Inr x, t) \<Rightarrow> (Inr x, t))"

named_theorems io_ok \<open>the successful runs of an operation\<close>

lemma syscall_ok [io_ok]: "syscall fs f now = (Inr x, t) \<longleftrightarrow> f (fs now) = Inr x \<and> t = Suc now"
  by (auto simp: syscall_def)

lemma pure_ok [io_ok]: "pure r now = (Inr x, t) \<longleftrightarrow> r = Inr x \<and> t = now"
  by (auto simp: pure_def)

lemma io_bind_ok [io_ok]:
  "io_bind m k now = (Inr y, t) \<longleftrightarrow> (\<exists>x s. m now = (Inr x, s) \<and> k x s = (Inr y, t))"
  by (auto simp: io_bind_def split: prod.splits sum.splits)

lemma io_err_ok [io_ok]: "io_err f m now = (Inr x, t) \<longleftrightarrow> m now = (Inr x, t)"
  by (auto simp: io_err_def split: prod.splits)



lemma if_error_ok [io_ok]:
  "(if b then Inl e else r) = Inr x \<longleftrightarrow> \<not> b \<and> r = Inr x"
  "(if b then r else Inl e) = Inr x \<longleftrightarrow> b \<and> r = Inr x"
  by auto

section \<open>Containment\<close>

definition show_comp :: "path_comp \<Rightarrow> string" where
  "show_comp c = (case c of RootDir \<Rightarrow> ''/'' | CurDir \<Rightarrow> ''.'' | ParentDir \<Rightarrow> ''..'' | Normal s \<Rightarrow> s)"

fun path_display :: "path \<Rightarrow> string" where
  "path_display [] = []"
| "path_display [c] = show_comp c"
| "path_display (c # d # p) = (if c = RootDir then ''/'' else show_comp c @ ''/'') @ path_display (d # p)"

datatype path_error =
    RootMissing string | CandidateMissing string | Escape string | Hardlink string nat | LinkCountUnavailable string

definition path_error_text :: "path_error \<Rightarrow> string" where
  "path_error_text e = (case e of
     RootMissing p \<Rightarrow> ''trust root does not exist: '' @ p
   | CandidateMissing p \<Rightarrow> ''candidate path does not exist or is inaccessible: '' @ p
   | Escape p \<Rightarrow> ''path escapes trust root: '' @ p
   | Hardlink p n \<Rightarrow> ''path is hard-linked from outside the trust root ('' @ show_nat n @ '' links): '' @ p
   | LinkCountUnavailable p \<Rightarrow> ''hard-link count could not be determined for '' @ p @ ''; refusing (fail closed)'')"

definition canonicalize_within :: "fs_run \<Rightarrow> path \<Rightarrow> path \<Rightarrow> (path_error, path) io" where
  "canonicalize_within fs root candidate =
    io_bind (syscall fs (\<lambda>v. ok_or (RootMissing (path_display root)) (fs_canonicalize v root))) (\<lambda>root_canonical.
    io_bind (syscall fs (\<lambda>v. ok_or (CandidateMissing (path_display candidate)) (fs_canonicalize v candidate)))
      (\<lambda>candidate_canonical.
    pure (if \<not> path_starts_with candidate_canonical root_canonical then Inl (Escape (path_display candidate))
      else Inr candidate_canonical)))"

definition is_path_within :: "fs_run \<Rightarrow> path \<Rightarrow> path \<Rightarrow> nat \<Rightarrow> bool" where
  "is_path_within fs root candidate now \<longleftrightarrow> is_ok (fst (canonicalize_within fs root candidate now))"

definition check_not_hardlinked :: "fs_handle \<Rightarrow> path \<Rightarrow> path_error + unit" where
  "check_not_hardlinked handle display = (case fh_nlink handle of
     Some nlink \<Rightarrow> if 1 < nlink then Inl (Hardlink (path_display display) nlink) else Inr ()
   | None \<Rightarrow> Inl (LinkCountUnavailable (path_display display)))"

definition ensure_not_hardlinked :: "fs_run \<Rightarrow> path \<Rightarrow> (path_error, unit) io" where
  "ensure_not_hardlinked fs p =
    io_bind (syscall fs (\<lambda>v. map_err (\<lambda>_. CandidateMissing (path_display p)) (fs_open v p))) (\<lambda>handle.
    pure (and_then (map_err (\<lambda>_. CandidateMissing (path_display p)) (fh_meta handle)) (\<lambda>(is_file, _).
      if \<not> is_file then Inr () else check_not_hardlinked handle p)))"

definition validate_external_command :: "fs_run \<Rightarrow> path \<Rightarrow> string list \<Rightarrow> (string, path) io" where
  "validate_external_command fs plugin_dir command =
    (case command of
       [] \<Rightarrow> pure (Inl ''external plugin command is empty'')
     | bin # _ \<Rightarrow>
         (let bin_path = path_of bin
          in if is_absolute bin_path
             then io_err (\<lambda>e. ''external binary rejected by path containment: '' @ path_error_text e)
               (canonicalize_within fs plugin_dir bin_path)
             else io_or_else (canonicalize_within fs plugin_dir bin_path) (\<lambda>_.
               (let joined = path_join plugin_dir bin_path; normalized = lexical_normalize joined
                in pure (if path_starts_with normalized plugin_dir then Inr normalized
                  else Inl (''external binary '' @ [CHR 0x27] @ bin @ [CHR 0x27] @ '' escapes plugin directory''))))))"

section \<open>The file tool\<close>

definition MAX_FILE_READ_BYTES :: nat where
  "MAX_FILE_READ_BYTES = 2 * 1024 * 1024"

definition verify_opened_file_identity :: "fs_run \<Rightarrow> fs_handle \<Rightarrow> path \<Rightarrow> (string, unit) io" where
  "verify_opened_file_identity fs handle canonical =
    io_bind (syscall fs (\<lambda>v. map_err (\<lambda>e. ''re-open failed: '' @ e) (fs_open v canonical))) (\<lambda>reopened.
    pure (case (fh_id handle, fh_id reopened) of
      (Some h, Some p) \<Rightarrow> if h = p then Inr () else Inl ''opened file identity does not match validated path''
    | _ \<Rightarrow> Inl ''file identity could not be determined; refusing''))"

fun read_take :: "nat \<Rightarrow> (string + string) list \<Rightarrow> string + string" where
  \<comment> \<open>\<open>reader.take(n)\<close> read to its end: an empty read is the end of the file\<close>
  "read_take n [] = Inr []"
| "read_take n (r # rs) =
    (if n = 0 then Inr []
     else and_then r (\<lambda>b. if b = [] then Inr [] else
       and_then (read_take (n - length (take n b)) rs) (\<lambda>rest. Inr (take n b @ rest))))"

definition read_to_string :: "nat \<Rightarrow> (string + string) list \<Rightarrow> string + string" where
  "read_to_string n rs = and_then (read_take n rs) (\<lambda>bytes.
    if utf8_valid bytes then Inr bytes else Inl ''stream did not contain valid UTF-8'')"

definition truncate_content :: "string \<Rightarrow> string" where
  "truncate_content content =
    (if MAX_FILE_READ_BYTES < length content
     then if is_char_boundary content MAX_FILE_READ_BYTES then take MAX_FILE_READ_BYTES content else content
     else content)"

definition file_read_execute :: "fs_run \<Rightarrow> string \<Rightarrow> json \<Rightarrow> (string, json) io" where
  "file_read_execute fs allowed_dir args =
    io_bind (pure (ok_or (''Missing '' @ [CHR 0x27] @ ''path'' @ [CHR 0x27] @ '' argument'')
      (Option.bind (json_get ''path'' args) as_str))) (\<lambda>p.
    let allowed = path_of allowed_dir; full_path = path_join allowed (path_of p)
    in io_bind (syscall fs (\<lambda>v. ok_or ''Allowed directory not found'' (fs_canonicalize v allowed))) (\<lambda>allowed_canonical.
       io_bind (syscall fs (\<lambda>v. map_err (\<lambda>_. ''Path does not exist or is inaccessible'') (fs_open v full_path))) (\<lambda>handle.
       io_bind (io_err (\<lambda>_. ''Path does not exist or is inaccessible'') (canonicalize_within fs allowed full_path)) (\<lambda>canonical.
       io_bind (pure (if \<not> path_starts_with canonical allowed_canonical then Inl ''Path traversal detected'' else Inr ())) (\<lambda>_.
       io_bind (io_err (\<lambda>_. ''Path changed between open and validation; refusing'')
         (verify_opened_file_identity fs handle canonical)) (\<lambda>_.
       pure (and_then (map_err (\<lambda>e. ''File read error: '' @ e) (read_to_string (MAX_FILE_READ_BYTES + 1) (fh_reads handle)))
         (\<lambda>content. Inr (JObject (bt_of_list [(''content'', JString (truncate_content content)),
            (''bytes_read'', JNumber (PosInt (of_nat (length content)))),
            (''truncated'', JBool (MAX_FILE_READ_BYTES < length content))])))))))))) "

section \<open>What the checks establish\<close>

lemma canonicalize_within_ok [io_ok]:
  "canonicalize_within fs root candidate now = (Inr p, t) \<longleftrightarrow>
    (\<exists>r. fs_canonicalize (fs now) root = Some r \<and> fs_canonicalize (fs (Suc now)) candidate = Some p \<and>
      path_starts_with p r \<and> t = Suc (Suc now))"
  by (auto simp: canonicalize_within_def io_ok)

lemma starts_with_append [simp]: "path_starts_with (p @ q) p"
  by (simp add: path_starts_with_def)


definition normal_form :: "path \<Rightarrow> bool" where
  "normal_form p \<longleftrightarrow> (\<forall>c \<in> set p. c \<noteq> ParentDir \<and> c \<noteq> CurDir) \<and> RootDir \<notin> set (drop 1 p)"

lemma normal_form_Nil [simp]: "normal_form []"
  by (simp add: normal_form_def)


lemma comp_normal: "c \<noteq> RootDir \<Longrightarrow> c \<noteq> ParentDir \<Longrightarrow> c \<noteq> CurDir \<Longrightarrow> c \<in> range Normal"
  by (cases c) auto



lemma fold_lexical_append:
  assumes "set q \<subseteq> range Normal"
  shows "fold lexical_step q p = p @ q"
  using assms by (induction q arbitrary: p) (auto simp: lexical_step_def path_push_def)

lemma lexical_normalize_id:
  assumes "normal_form p"
  shows "lexical_normalize p = p"
proof (cases p)
  case (Cons c q)
  have "c' \<in> range Normal" if "c' \<in> set q" for c'
    using that assms Cons by (auto simp: normal_form_def intro!: comp_normal)
  then have "set q \<subseteq> range Normal" by blast
  then have "lexical_normalize p = lexical_step c [] @ q" by (simp add: lexical_normalize_def Cons fold_lexical_append)
  also have "lexical_step c [] = [c]" using assms Cons
    by (cases c) (auto simp: lexical_step_def path_push_def normal_form_def)
  finally show ?thesis by (simp add: Cons)
qed (simp add: lexical_normalize_def)



lemma same_ids [io_ok]:
  "(case (a, b) of (Some h, Some p) \<Rightarrow> if h = p then Inr () else Inl x | _ \<Rightarrow> Inl y) = Inr u \<longleftrightarrow>
    (\<exists>i. a = Some i \<and> b = Some i)"
  by (cases a; cases b) auto

lemma verify_opened_ok [io_ok]:
  "verify_opened_file_identity fs handle canonical now = (Inr u, t) \<longleftrightarrow>
    (\<exists>reopened ident. fs_open (fs now) canonical = Inr reopened \<and> fh_id reopened = Some ident \<and>
      fh_id handle = Some ident \<and> t = Suc now)"
  unfolding verify_opened_file_identity_def io_ok map_err_Inr_iff by blast



lemma read_take_chunk [simp]: "length b \<le> n \<Longrightarrow> read_take n [Inr b] = Inr b"
  by (cases b) auto

lemma read_take_one: "b \<noteq> [] \<Longrightarrow> read_take n [Inr b] = Inr (take n b)"
  by (cases n) auto


definition demo_path :: path where
  "demo_path = [RootDir, Normal ''d'', Normal ''f'']"

definition demo_handle :: "string \<Rightarrow> fs_handle" where
  "demo_handle bytes = \<lparr>fh_meta = Inr (True, length bytes), fh_nlink = Some 1, fh_id = Some (1, 2), fh_reads = [Inr bytes]\<rparr>"

definition demo_disk :: "string \<Rightarrow> fs_run" where
  \<comment> \<open>a directory \<open>/d\<close> with one file \<open>f\<close>, unchanged over time\<close>
  "demo_disk bytes now =
    \<lparr>fs_canonicalize = (\<lambda>p. if p = [RootDir, Normal ''d''] \<or> p = demo_path then Some p else None),
     fs_metadata = (\<lambda>p. if p = demo_path then Inr (True, 1, 2) else Inl ''not found''),
     fs_open = (\<lambda>p. if p = demo_path then Inr (demo_handle bytes) else Inl ''not found'')\<rparr>"

definition demo_args :: json where
  "demo_args = JObject [(''path'', JString ''f'')]"

lemmas demo_disk_simps = file_read_execute_def demo_disk_def demo_args_def demo_path_def demo_handle_def io_bind_def
  syscall_def pure_def io_err_def canonicalize_within_def verify_opened_file_identity_def path_of_def path_join_def
  is_absolute_def path_starts_with_def Let_def

lemma demo_file_read:
  "file_read_execute (demo_disk bytes) ''/d'' demo_args 0 =
    (and_then (map_err (\<lambda>e. ''File read error: '' @ e) (read_to_string (MAX_FILE_READ_BYTES + 1) [Inr bytes]))
       (\<lambda>content. Inr (JObject (bt_of_list [(''content'', JString (truncate_content content)),
          (''bytes_read'', JNumber (PosInt (of_nat (length content)))),
          (''truncated'', JBool (MAX_FILE_READ_BYTES < length content))]))), 5)"
  by (simp add: demo_disk_simps eval_nat_numeral)


lemma length_e_acutes: "length (concat (replicate n [CHR 0xC3, CHR 0xA9])) = 2 * n"
  by (induction n) auto

lemma utf8_valid_e_acutes: "utf8_valid (concat (replicate n [CHR 0xC3, CHR 0xA9]))"
  by (induction n) auto

lemma utf8_invalid_cut: "\<not> utf8_valid (concat (replicate n [CHR 0xC3, CHR 0xA9]) @ [CHR 0xC3])"
  by (induction n) (auto simp: utf8_valid.simps [of "[CHR 0xC3]"] utf8_first_def byte_def cont_def)

lemma read_e_acutes_cut:
  assumes "n < m"
  shows "read_to_string (2 * n + 1) [Inr (concat (replicate m [CHR 0xC3, CHR 0xA9]))] =
    Inl ''stream did not contain valid UTF-8''"
proof -
  from assms obtain k where m: "m = n + Suc k" by (metis less_imp_Suc_add add_Suc_right)
  have "concat (replicate m [CHR 0xC3, CHR 0xA9]) = concat (replicate n [CHR 0xC3, CHR 0xA9]) @ [CHR 0xC3, CHR 0xA9]
    @ concat (replicate k [CHR 0xC3, CHR 0xA9])"
    by (simp only: m replicate_add concat_append replicate_Suc concat.simps)
  then have "take (2 * n + 1) (concat (replicate m [CHR 0xC3, CHR 0xA9])) = concat (replicate n [CHR 0xC3, CHR 0xA9]) @ [CHR 0xC3]"
    by (simp add: length_e_acutes)
  moreover have "concat (replicate m [CHR 0xC3, CHR 0xA9]) \<noteq> []" by (simp add: m)
  ultimately show ?thesis by (simp add: read_to_string_def read_take_one utf8_invalid_cut)
qed

lemma boundary_in_e_acute: "0 < n \<Longrightarrow> \<not> is_char_boundary (CHR ''x'' # concat (replicate n [CHR 0xC3, CHR 0xA9])) (2 * n)"
proof (induction n)
  case (Suc n)
  have "(CHR ''x'' # concat (replicate (Suc n) [CHR 0xC3, CHR 0xA9])) ! (2 * Suc n) = CHR 0xA9"
    by (induction n) auto
  then show ?case by (simp add: is_char_boundary_def byte_def cont_def length_e_acutes)
qed simp

text \<open>The cap of the file tool falls inside a character. A file that starts with one ASCII letter followed by
  two-byte characters is returned with one byte more than the cap, and a file of two-byte characters longer than the
  cap is refused as invalid UTF-8 though it is valid; its comment promises a hard cap and its test a truncated text.\<close>

theorem file_read_cut_in_character:
  "(\<exists>out. fst (file_read_execute
      (demo_disk (CHR ''x'' # concat (replicate (MAX_FILE_READ_BYTES div 2) [CHR 0xC3, CHR 0xA9]))) ''/d'' demo_args 0) = Inr out \<and>
    (\<exists>c. json_get ''content'' out = Some (JString c) \<and> length c = MAX_FILE_READ_BYTES + 1)) \<and>
   utf8_valid (concat (replicate MAX_FILE_READ_BYTES [CHR 0xC3, CHR 0xA9])) \<and>
   fst (file_read_execute (demo_disk (concat (replicate MAX_FILE_READ_BYTES [CHR 0xC3, CHR 0xA9]))) ''/d'' demo_args 0) =
    Inl ''File read error: stream did not contain valid UTF-8''"
proof (intro conjI)
  define k where "k = MAX_FILE_READ_BYTES div 2"
  define s where "s = CHR ''x'' # concat (replicate k [CHR 0xC3, CHR 0xA9])"
  have M: "MAX_FILE_READ_BYTES = 2 * k" "0 < k" by (simp_all add: k_def MAX_FILE_READ_BYTES_def)
  have s: "length s = 2 * k + 1" "utf8_valid s" "\<not> is_char_boundary s (2 * k)"
    using boundary_in_e_acute [OF M(2)] by (simp_all add: s_def length_e_acutes utf8_valid_e_acutes)
  then have "read_to_string (2 * k + 1) [Inr s] = Inr s" "truncate_content s = s"
    by (simp_all add: read_to_string_def truncate_content_def M)
  then show "\<exists>out. fst (file_read_execute
      (demo_disk (CHR ''x'' # concat (replicate (MAX_FILE_READ_BYTES div 2) [CHR 0xC3, CHR 0xA9]))) ''/d'' demo_args 0) = Inr out \<and>
    (\<exists>c. json_get ''content'' out = Some (JString c) \<and> length c = MAX_FILE_READ_BYTES + 1)"
    using s(1) by (simp add: demo_file_read bt_of_list_def M s_def)
  show "utf8_valid (concat (replicate MAX_FILE_READ_BYTES [CHR 0xC3, CHR 0xA9]))" by (rule utf8_valid_e_acutes)
  show "fst (file_read_execute (demo_disk (concat (replicate MAX_FILE_READ_BYTES [CHR 0xC3, CHR 0xA9]))) ''/d'' demo_args 0) =
    Inl ''File read error: stream did not contain valid UTF-8''"
    using read_e_acutes_cut [of k "2 * k"] M(2) by (simp add: demo_file_read M(1))
qed


definition linked_disk :: fs_run where
  \<comment> \<open>\<open>/p/run\<close> is a symbolic link to \<open>/bin/sh\<close>; the working directory has no entry \<open>run\<close>\<close>
  "linked_disk now =
    \<lparr>fs_canonicalize = (\<lambda>p.
       if p = [RootDir, Normal ''p''] then Some p
       else if p = [RootDir, Normal ''p'', Normal ''run''] then Some [RootDir, Normal ''bin'', Normal ''sh''] else None),
     fs_metadata = (\<lambda>p. Inl ''not found''), fs_open = (\<lambda>p. Inl ''not found'')\<rparr>"

lemmas linked_disk_simps = validate_external_command_def linked_disk_def path_of_def path_join_def is_absolute_def
  canonicalize_within_def io_err_def io_or_else_def io_bind_def syscall_def pure_def path_starts_with_def
  lexical_normalize_def lexical_step_def path_push_def Let_def


text \<open>A relative command is canonicalized against the working directory, not against the plugin directory, and any
  failure falls back to the lexical check. A symbolic link inside the plugin directory to a file outside is accepted,
  although the same file given by its absolute path is rejected.\<close>

theorem relative_command_follows_link:
  "fs_canonicalize (linked_disk now) [RootDir, Normal ''p'', Normal ''run''] = Some [RootDir, Normal ''bin'', Normal ''sh''] \<and>
   fst (validate_external_command linked_disk [RootDir, Normal ''p''] [''run''] now) =
     Inr [RootDir, Normal ''p'', Normal ''run''] \<and>
   \<not> is_ok (fst (validate_external_command linked_disk [RootDir, Normal ''p''] [''/p/run''] now))"
  by (simp add: linked_disk_simps)

end
