(* ===== verification/Shell_Tool.thy ===== *)
theory Shell_Tool
  imports Paths
begin

text \<open>
  \<open>src/tools/shell_tool.rs\<close>: the command tool. A call is admitted by command name, its arguments are bounded, the
  arguments of file-reading commands that name files are resolved inside the allowed read directories and replaced by
  copies in a private staging directory, and the output of the child is capped. The file system is the changing one
  of \<open>Paths\<close>; staging directory, fresh names and the child process are parameters.
\<close>

section \<open>Arguments that name files\<close>

definition MAX_ARGS :: nat where "MAX_ARGS = 32"
definition MAX_ARG_LEN :: nat where "MAX_ARG_LEN = 1024"
definition MAX_OUTPUT_BYTES :: nat where "MAX_OUTPUT_BYTES = 1024 * 1024"

definition FILE_READING_COMMANDS :: "string list" where
  "FILE_READING_COMMANDS =
    [''cat'', ''head'', ''tail'', ''grep'', ''wc'', ''sort'', ''uniq'', ''cut'', ''sed'', ''awk'', ''less'', ''more'',
     ''fold'', ''nl'', ''tac'', ''strings'', ''diff'', ''file'']"

definition command_non_path_positions :: "string \<Rightarrow> nat list" where
  "command_non_path_positions cmd = (if cmd = ''grep'' then [0] else if cmd = ''sed'' then [0] else if cmd = ''awk'' then [0] else [])"

definition PATH_FLAGS :: "string list" where
  "PATH_FLAGS = [''-f'', ''--file'', ''--include'', ''--exclude'', ''--label'', ''-o'']"

definition path_flag_value :: "string \<Rightarrow> string option option" where
  "path_flag_value arg =
    (case split_once (CHR ''='') arg of
       Some (flag, val) \<Rightarrow> if flag \<in> set PATH_FLAGS then Some (Some val) else None
     | None \<Rightarrow> if arg \<in> set PATH_FLAGS then Some None else None)"

record path_slot =
  ps_index :: nat
  ps_value :: string
  ps_prefix :: "string option"

fun slots_from :: "nat list \<Rightarrow> nat \<Rightarrow> nat \<Rightarrow> bool \<Rightarrow> string list \<Rightarrow> path_slot list" where
  "slots_from non_path i positional skip_next [] = []"
| "slots_from non_path i positional skip_next (arg # args) =
    (if skip_next then \<lparr>ps_index = i, ps_value = arg, ps_prefix = None\<rparr> # slots_from non_path (i + 1) positional False args
     else case path_flag_value arg of
       Some (Some v) \<Rightarrow>
         \<lparr>ps_index = i, ps_value = v, ps_prefix = Some (takeWhile (\<lambda>c. c \<noteq> CHR ''='') arg @ ''='')\<rparr>
           # slots_from non_path (i + 1) positional False args
     | Some None \<Rightarrow> slots_from non_path (i + 1) positional True args
     | None \<Rightarrow>
         if starts_with arg ''-'' then slots_from non_path (i + 1) positional False args
         else if positional \<in> set non_path then slots_from non_path (i + 1) (positional + 1) False args
         else \<lparr>ps_index = i, ps_value = arg, ps_prefix = None\<rparr> # slots_from non_path (i + 1) (positional + 1) False args)"

definition plan_path_slots :: "string \<Rightarrow> string list \<Rightarrow> path_slot list" where
  "plan_path_slots cmd args = slots_from (command_non_path_positions cmd) 0 0 False args"

section \<open>Staging\<close>

record staging_env =
  se_fs :: fs_run
  se_dir :: "nat \<Rightarrow> string + path"
  se_uuid :: "nat \<Rightarrow> string"
  se_create :: "nat \<Rightarrow> path \<Rightarrow> string + unit"
  se_write :: "nat \<Rightarrow> path \<Rightarrow> string \<Rightarrow> string + unit"

definition host_call :: "(nat \<Rightarrow> 'e + 'a) \<Rightarrow> ('e, 'a) io" where
  "host_call f now = (f now, Suc now)"

lemma host_call_ok [io_ok]: "host_call f now = (Inr x, t) \<longleftrightarrow> f now = Inr x \<and> t = Suc now"
  by (auto simp: host_call_def)

definition file_name_of :: "path \<Rightarrow> string option" where
  "file_name_of p = (if p = [] then None else case last p of Normal n \<Rightarrow> Some n | _ \<Rightarrow> None)"

definition before_dot :: "string \<Rightarrow> string" where
  \<comment> \<open>up to the last dot, the whole name when there is none or only a leading one\<close>
  "before_dot n =
    (let stem = rev (drop 1 (dropWhile (\<lambda>c. c \<noteq> CHR ''.'') (rev n))) in if stem = [] then n else stem)"

definition file_stem :: "path \<Rightarrow> string option" where
  "file_stem p = map_option before_dot (file_name_of p)"

definition extension :: "path \<Rightarrow> string option" where
  "extension p = Option.bind (file_name_of p) (\<lambda>n.
    if before_dot n = n then None else Some (drop (Suc (length (before_dot n))) n))"

fun copy_chunks :: "staging_env \<Rightarrow> path \<Rightarrow> nat \<Rightarrow> nat \<Rightarrow> (string + string) list \<Rightarrow> (string, string) io" where
  "copy_chunks env dest max_bytes copied [] = pure (Inr [])"
| "copy_chunks env dest max_bytes copied (Inl e # rs) = pure (Inl (''read failed: '' @ e))"
| "copy_chunks env dest max_bytes copied (Inr b # rs) =
    (if b = [] then pure (Inr [])
     else if max_bytes < copied + length b
     then pure (Inl (''file grew past max_staged_input_bytes '' @ show_nat max_bytes @ '' during copy''))
     else io_bind (host_call (\<lambda>t. map_err (\<lambda>e. ''staged write: '' @ e) (se_write env t dest b))) (\<lambda>_.
          io_bind (copy_chunks env dest max_bytes (copied + length b) rs) (\<lambda>rest. pure (Inr (b @ rest)))))"

definition same_file_identity :: "u64 \<times> u64 \<Rightarrow> u64 \<times> u64 \<Rightarrow> bool" where
  "same_file_identity handle_id path_id \<longleftrightarrow> handle_id = path_id"

definition stage_canonical_file :: "staging_env \<Rightarrow> path \<Rightarrow> nat \<Rightarrow> path \<Rightarrow> (string, string \<times> string) io" where
  \<comment> \<open>the staged path and what was copied to it\<close>
  "stage_canonical_file env dir max_bytes canonical =
    io_bind (syscall (se_fs env) (\<lambda>v. map_err (\<lambda>e. ''open failed: '' @ e) (fs_open v canonical))) (\<lambda>handle.
    io_bind (pure (map_err (\<lambda>e. ''handle metadata failed: '' @ e) (fh_meta handle))) (\<lambda>(is_file, len).
    io_bind (pure (if \<not> is_file then Inl ''validated path is not a regular file'' else Inr ())) (\<lambda>_.
    io_bind (pure (map_err (\<lambda>e. ''refusing staged input: '' @ path_error_text e) (check_not_hardlinked handle canonical))) (\<lambda>_.
    io_bind (pure (if max_bytes < len
      then Inl (''file is '' @ show_nat len @ '' bytes, exceeding max_staged_input_bytes '' @ show_nat max_bytes) else Inr ())) (\<lambda>_.
    io_bind (syscall (se_fs env) (\<lambda>v. map_err (\<lambda>e. ''re-stat of validated path failed: '' @ e) (fs_metadata v canonical)))
      (\<lambda>(_, path_id).
    io_bind (pure (case fh_id handle of
        Some ident \<Rightarrow> if \<not> same_file_identity ident path_id
          then Inl ''path changed between validation and open (TOCTOU guard); refusing'' else Inr ()
      | None \<Rightarrow> Inl ''file identity could not be determined for TOCTOU guard; refusing'')) (\<lambda>_.
    io_bind (host_call (\<lambda>t. Inr (se_uuid env t))) (\<lambda>name.
    (let ext = (case extension canonical of Some e \<Rightarrow> ''.'' @ e | None \<Rightarrow> []); dest = dir @ [Normal (name @ ext)]
     in io_bind (host_call (\<lambda>t. map_err (\<lambda>e. ''staged create: '' @ e) (se_create env t dest))) (\<lambda>_.
        io_bind (copy_chunks env dest max_bytes 0 (fh_reads handle)) (\<lambda>bytes.
        pure (Inr (path_display dest, bytes)))))))))))))"

section \<open>The policy\<close>

datatype shell_path_mode = Stage | Direct

definition from_config :: "string \<Rightarrow> shell_path_mode" where
  "from_config val = (if val = ''direct'' then Direct else Stage)"

record shell_tool =
  sh_allowed_commands :: "string list"
  sh_timeout_secs :: u64
  sh_allowed_read_directories :: "string list"
  sh_allow_unrestricted_args :: bool
  sh_path_mode :: shell_path_mode
  sh_max_staged_input_bytes :: nat

definition with_path_policy :: "shell_path_mode \<Rightarrow> nat \<Rightarrow> shell_tool \<Rightarrow> shell_tool" where
  "with_path_policy mode max_staged tool = tool\<lparr>sh_path_mode := mode, sh_max_staged_input_bytes := max max_staged 1\<rparr>"

datatype shell_error =
    MissingCommand | ShellInterpreter string | NotAllowed string "string list"
  | TooManyArguments nat | ArgumentTooLong | ArgumentControl
  | NoReadDirectories string | OutsideReadDirectories string string | Unreadable path string | NotRegularFile string string
  | StagingDirectory string | StagingFailed string string string
  | SpawnFailed string | WaitFailed string | CommandTimedOut string u64
  | StdoutRead string | StdoutReader string | StderrRead string | StderrReader string

fun validate_each :: "string list \<Rightarrow> shell_error + unit" where
  "validate_each [] = Inr ()"
| "validate_each (arg # args) =
    (if MAX_ARG_LEN < length arg then Inl ArgumentTooLong
     else if CHR 0x00 \<in> set arg \<or> CHR 0x0A \<in> set arg \<or> CHR 0x0D \<in> set arg then Inl ArgumentControl
     else validate_each args)"

definition validate_args :: "string list \<Rightarrow> shell_error + unit" where
  "validate_args args = (if MAX_ARGS < length args then Inl (TooManyArguments (length args)) else validate_each args)"

fun resolve_dirs :: "fs_run \<Rightarrow> string list \<Rightarrow> path \<Rightarrow> (unit, path) io" where
  "resolve_dirs fs [] candidate = pure (Inl ())"
| "resolve_dirs fs (dir # dirs) candidate =
    io_or_else (canonicalize_within fs (path_of dir) candidate) (\<lambda>_. resolve_dirs fs dirs candidate)"

definition resolve_within :: "shell_tool \<Rightarrow> fs_run \<Rightarrow> string \<Rightarrow> string \<Rightarrow> (shell_error, path) io" where
  "resolve_within tool fs cmd candidate =
    io_bind (io_err (\<lambda>_. OutsideReadDirectories candidate cmd)
      (resolve_dirs fs (sh_allowed_read_directories tool) (path_of candidate))) (\<lambda>canonical.
    io_bind (syscall fs (\<lambda>v. map_err (Unreadable canonical) (fs_metadata v canonical))) (\<lambda>(is_file, _).
    pure (if \<not> is_file then Inl (NotRegularFile candidate cmd) else Inr canonical)))"

fun resolve_slots :: "shell_tool \<Rightarrow> fs_run \<Rightarrow> string \<Rightarrow> path_slot list \<Rightarrow> (shell_error, unit) io" where
  "resolve_slots tool fs cmd [] = pure (Inr ())"
| "resolve_slots tool fs cmd (slot # slots) =
    io_bind (resolve_within tool fs cmd (ps_value slot)) (\<lambda>_. resolve_slots tool fs cmd slots)"

fun stage_slots :: "shell_tool \<Rightarrow> staging_env \<Rightarrow> path \<Rightarrow> string \<Rightarrow> path_slot list \<Rightarrow> string list \<times> (string \<times> string) list \<Rightarrow>
    (shell_error, string list \<times> (string \<times> string) list) io" where
  "stage_slots tool env dir cmd [] acc = pure (Inr acc)"
| "stage_slots tool env dir cmd (slot # slots) (out, staged) =
    io_bind (resolve_within tool (se_fs env) cmd (ps_value slot)) (\<lambda>canonical.
    io_bind (io_err (StagingFailed (ps_value slot) cmd)
      (stage_canonical_file env dir (sh_max_staged_input_bytes tool) canonical)) (\<lambda>(dest, bytes).
    stage_slots tool env dir cmd slots
      (out[ps_index slot := (case ps_prefix slot of Some prefix \<Rightarrow> prefix @ dest | None \<Rightarrow> dest)], staged @ [(dest, bytes)])))"

definition apply_path_policy :: "shell_tool \<Rightarrow> staging_env \<Rightarrow> string \<Rightarrow> string list \<Rightarrow>
    (shell_error, string list \<times> (string \<times> string) list option) io" where
  \<comment> \<open>the rewritten arguments and the staged copies; an error drops the session and its copies\<close>
  "apply_path_policy tool env cmd args =
    (if sh_allow_unrestricted_args tool then pure (Inr (args, None))
     else if cmd \<notin> set FILE_READING_COMMANDS then pure (Inr (args, None))
     else if sh_allowed_read_directories tool = [] then pure (Inl (NoReadDirectories cmd))
     else let slots = plan_path_slots cmd args in
       case sh_path_mode tool of
         Direct \<Rightarrow> io_bind (resolve_slots tool (se_fs env) cmd slots) (\<lambda>_. pure (Inr (args, None)))
       | Stage \<Rightarrow>
           io_bind (host_call (\<lambda>t. map_err StagingDirectory (se_dir env t))) (\<lambda>dir.
           io_bind (stage_slots tool env dir cmd slots (args, [])) (\<lambda>(out, staged).
           pure (Inr (out, Some staged)))))"

definition REJECTED_SHELLS :: "string list" where
  "REJECTED_SHELLS = [''cmd'', ''cmd.exe'', ''sh'', ''bash'', ''powershell'', ''powershell.exe'', ''pwsh'', ''zsh'']"

definition validate_command :: "shell_tool \<Rightarrow> string \<Rightarrow> shell_error + unit" where
  "validate_command tool cmd =
    (let cmd_clean = to_ascii_lowercase (trim cmd);
         name = (case file_name_of (path_of cmd_clean) of Some n \<Rightarrow> n | None \<Rightarrow> cmd_clean);
         stem = (case file_stem (path_of cmd_clean) of Some n \<Rightarrow> n | None \<Rightarrow> cmd_clean)
     in if cmd_clean \<in> set REJECTED_SHELLS \<or> name \<in> set REJECTED_SHELLS \<or> stem \<in> set REJECTED_SHELLS
        then Inl (ShellInterpreter cmd)
        else if cmd \<notin> set (sh_allowed_commands tool) then Inl (NotAllowed cmd (sh_allowed_commands tool))
        else Inr ())"

section \<open>Running the command\<close>

datatype wait_result = Exited "int option" | WaitError string | TimedOut

datatype drain_result = Drained "(string + string) list" | JoinError string | DrainTimeout

record child =
  ch_wait :: wait_result
  ch_stdout :: drain_result
  ch_stderr :: drain_result

fun read_capped :: "string \<Rightarrow> bool \<Rightarrow> (string + string) list \<Rightarrow> string + string \<times> bool" where
  "read_capped buf truncated [] = Inr (buf, truncated)"
| "read_capped buf truncated (Inl e # rs) = Inl e"
| "read_capped buf truncated (Inr chunk # rs) =
    (if chunk = [] then Inr (buf, truncated)
     else if MAX_OUTPUT_BYTES \<le> length buf then read_capped buf True rs
     else let n = min (MAX_OUTPUT_BYTES - length buf) (length chunk)
       in read_capped (buf @ take n chunk) (truncated \<or> n < length chunk) rs)"

definition drain_grace :: "u64 \<Rightarrow> u64" where
  "drain_grace timeout_secs = clamp timeout_secs 1 5"

definition drained :: "(string \<Rightarrow> shell_error) \<Rightarrow> (string \<Rightarrow> shell_error) \<Rightarrow> drain_result \<Rightarrow> shell_error + string \<times> bool" where
  "drained read_error reader_error r = (case r of
     Drained rs \<Rightarrow> map_err read_error (read_capped [] False rs)
   | JoinError e \<Rightarrow> Inl (reader_error e)
   | DrainTimeout \<Rightarrow> Inr ([], True))"

definition maybe_terminate :: "string \<Rightarrow> string option" where
  \<comment> \<open>slicing a \<open>str\<close> off a character boundary panics\<close>
  "maybe_terminate txt =
    (if length txt \<le> MAX_OUTPUT_BYTES then Some txt
     else if is_char_boundary txt MAX_OUTPUT_BYTES
     then Some (take MAX_OUTPUT_BYTES txt @ CHR 0x0A # ''... [output truncated]'')
     else None)"

definition finish :: "string \<times> bool \<Rightarrow> string \<times> bool \<Rightarrow> int option \<Rightarrow> json option" where
  "finish out err code =
    Option.bind (maybe_terminate (from_utf8_lossy (fst out))) (\<lambda>stdout.
    Option.bind (maybe_terminate (from_utf8_lossy (fst err))) (\<lambda>stderr.
    Some (JObject (bt_of_list [(''stdout'', JString stdout), (''stderr'', JString stderr),
      (''stdout_truncated'', JBool (snd out)), (''stderr_truncated'', JBool (snd err)),
      (''exit_code'', JNumber (let c = (case code of Some c \<Rightarrow> c | None \<Rightarrow> - 1)
         in if 0 \<le> c then PosInt (of_int c) else NegInt c))])))) "

definition collect_output :: "shell_tool \<Rightarrow> string \<Rightarrow> child \<Rightarrow> (shell_error + json) option" where
  "collect_output tool cmd ch = (case ch_wait ch of
     WaitError e \<Rightarrow> Some (Inl (WaitFailed e))
   | TimedOut \<Rightarrow> Some (Inl (CommandTimedOut cmd (sh_timeout_secs tool)))
   | Exited code \<Rightarrow>
       (case drained StdoutRead StdoutReader (ch_stdout ch) of
          Inl e \<Rightarrow> Some (Inl e)
        | Inr out \<Rightarrow>
            (case drained StderrRead StderrReader (ch_stderr ch) of
               Inl e \<Rightarrow> Some (Inl e)
             | Inr err \<Rightarrow> map_option Inr (finish out err code))))"

definition command_args :: "json \<Rightarrow> string list" where
  "command_args args = (case json_get ''args'' args of Some (JArray vs) \<Rightarrow> List.map_filter as_str vs | _ \<Rightarrow> [])"

definition shell_prepare :: "shell_tool \<Rightarrow> staging_env \<Rightarrow> json \<Rightarrow>
    (shell_error, string \<times> string list \<times> (string \<times> string) list option) io" where
  "shell_prepare tool env args =
    io_bind (pure (ok_or MissingCommand (Option.bind (json_get ''command'' args) as_str))) (\<lambda>cmd.
    io_bind (pure (validate_command tool cmd)) (\<lambda>_.
    io_bind (pure (validate_args (command_args args))) (\<lambda>_.
    io_bind (apply_path_policy tool env cmd (command_args args)) (\<lambda>(argv, staged).
    pure (Inr (cmd, argv, staged))))))"

definition shell_execute :: "shell_tool \<Rightarrow> staging_env \<Rightarrow> (string \<Rightarrow> string list \<Rightarrow> string + child) \<Rightarrow> json \<Rightarrow> nat \<Rightarrow>
    (shell_error + json) option" where
  \<comment> \<open>\<open>None\<close> is a panic; the child gets no environment\<close>
  "shell_execute tool env spawn args now =
    (case fst (shell_prepare tool env args now) of
       Inl e \<Rightarrow> Some (Inl e)
     | Inr (cmd, argv, _) \<Rightarrow>
         (case spawn cmd argv of
            Inl e \<Rightarrow> Some (Inl (SpawnFailed e))
          | Inr ch \<Rightarrow> collect_output tool cmd ch))"

section \<open>Which arguments are checked\<close>





definition covered :: "nat \<Rightarrow> path_slot list \<Rightarrow> bool" where
  "covered j slots \<longleftrightarrow> (\<exists>s \<in> set slots. ps_index s = j)"

lemma covered_simps [simp]: "covered j [] = False" "covered j (s # slots) \<longleftrightarrow> ps_index s = j \<or> covered j slots"
  by (auto simp: covered_def)





section \<open>What staging establishes\<close>

fun whole :: "(string + string) list \<Rightarrow> string option" where
  \<comment> \<open>the content a sequence of reads delivers up to the end of the file\<close>
  "whole [] = Some []"
| "whole (Inl e # rs) = None"
| "whole (Inr b # rs) = (if b = [] then Some [] else map_option ((@) b) (whole rs))"















section \<open>A file system that changes\<close>

definition demo_tool :: shell_tool where
  "demo_tool = \<lparr>sh_allowed_commands = [''cat'', ''grep''], sh_timeout_secs = 5, sh_allowed_read_directories = [''/d''],
    sh_allow_unrestricted_args = False, sh_path_mode = Stage, sh_max_staged_input_bytes = 64\<rparr>"

definition demo_staging :: "fs_run \<Rightarrow> staging_env" where
  "demo_staging fs = \<lparr>se_fs = fs, se_dir = (\<lambda>_. Inr [RootDir, Normal ''s'']), se_uuid = (\<lambda>_. ''u''),
    se_create = (\<lambda>_ _. Inr ()), se_write = (\<lambda>_ _ _. Inr ())\<rparr>"

lemmas demo_shell_simps = demo_tool_def demo_staging_def apply_path_policy_def FILE_READING_COMMANDS_def plan_path_slots_def
  command_non_path_positions_def path_flag_value_def PATH_FLAGS_def starts_with_def Let_def io_bind_def host_call_def pure_def
  resolve_within_def io_err_def io_or_else_def syscall_def canonicalize_within_def path_of_def path_starts_with_def
  stage_canonical_file_def check_not_hardlinked_def same_file_identity_def extension_def file_name_of_def before_dot_def





text \<open>Flags are not all read. With \<open>--regexp=x\<close> the next argument of \<open>grep\<close> is a file but counts as the pattern, and
  \<open>-f\<close> with the file name attached is no path flag: on every file system both calls pass with their arguments
  unchanged and no file checked.\<close>

theorem grep_flags_escape_policy:
  "fst (apply_path_policy demo_tool (demo_staging fs) ''grep'' [''--regexp=x'', ''/etc/passwd''] now) =
      Inr ([''--regexp=x'', ''/etc/passwd''], Some []) \<and>
   fst (apply_path_policy demo_tool (demo_staging fs) ''grep'' [''-f/etc/passwd'', ''x''] now) =
      Inr ([''-f/etc/passwd'', ''x''], Some [])"
  by (simp add: demo_shell_simps)

section \<open>The output\<close>

lemma read_capped_exact:
  assumes "length buf \<le> MAX_OUTPUT_BYTES"
  shows "read_capped buf trunc rs = (case whole rs of
      Some bytes \<Rightarrow> Inr (take MAX_OUTPUT_BYTES (buf @ bytes), trunc \<or> MAX_OUTPUT_BYTES < length (buf @ bytes))
    | None \<Rightarrow> read_capped buf trunc rs)"
  using assms
proof (induction buf trunc rs rule: read_capped.induct)
  case (3 buf trunc chunk rs)
  let ?n = "min (MAX_OUTPUT_BYTES - length buf) (length chunk)"
  consider "chunk = []" | "chunk \<noteq> []" "length buf = MAX_OUTPUT_BYTES" | "chunk \<noteq> []" "length buf < MAX_OUTPUT_BYTES"
    using "3.prems" by linarith
  then show ?case
  proof cases
    case 3
    have IH: "read_capped (buf @ take ?n chunk) (trunc \<or> ?n < length chunk) rs = (case whole rs of
      Some bytes \<Rightarrow> Inr (take MAX_OUTPUT_BYTES ((buf @ take ?n chunk) @ bytes), (trunc \<or> ?n < length chunk) \<or>
        MAX_OUTPUT_BYTES < length ((buf @ take ?n chunk) @ bytes))
      | None \<Rightarrow> read_capped (buf @ take ?n chunk) (trunc \<or> ?n < length chunk) rs)"
      using "3.IH"(2) [OF 3(1)] 3 by simp
    have "read_capped buf trunc (Inr chunk # rs) = read_capped (buf @ take ?n chunk) (trunc \<or> ?n < length chunk) rs"
      using 3 by (simp add: Let_def)
    moreover have "take MAX_OUTPUT_BYTES ((buf @ take ?n chunk) @ bytes) = take MAX_OUTPUT_BYTES (buf @ chunk @ bytes)" for bytes
      using 3 by (cases "MAX_OUTPUT_BYTES - length buf \<le> length chunk") (auto simp: min_def)
    moreover have "((trunc \<or> ?n < length chunk) \<or> MAX_OUTPUT_BYTES < length ((buf @ take ?n chunk) @ bytes)) \<longleftrightarrow>
      trunc \<or> MAX_OUTPUT_BYTES < length (buf @ chunk @ bytes)" for bytes
      using 3 by (auto simp: min_def)
    ultimately show ?thesis using IH 3 by (simp split: option.splits)
  qed (use 3 in \<open>auto split: option.splits\<close>)
qed (auto split: option.splits)

lemma drained_whole:
  "whole rs = Some bytes \<Longrightarrow>
    drained f g (Drained rs) = Inr (take MAX_OUTPUT_BYTES bytes, MAX_OUTPUT_BYTES < length bytes)"
  using read_capped_exact [of "[]" False rs] by (simp add: drained_def)



definition demo_child :: "string \<Rightarrow> child" where
  "demo_child out = \<lparr>ch_wait = Exited (Some 0), ch_stdout = Drained [Inr out], ch_stderr = Drained []\<rparr>"


lemma from_utf8_lossy_ascii [simp]: "of_char c < (0x80 :: nat) \<Longrightarrow> from_utf8_lossy (c # s) = c # from_utf8_lossy s"
  by (subst from_utf8_lossy.simps) (simp add: utf8_first_ascii)

lemma from_utf8_lossy_e_acutes:
  "from_utf8_lossy (concat (replicate n [CHR 0xC3, CHR 0xA9]) @ [CHR 0xC3]) =
    concat (replicate n [CHR 0xC3, CHR 0xA9]) @ [CHR 0xEF, CHR 0xBF, CHR 0xBD]"
proof (induction n)
  case 0
  show ?case by (subst from_utf8_lossy.simps) (simp add: utf8_first_def byte_def cont_def)
next
  case (Suc n)
  have "from_utf8_lossy (CHR 0xC3 # CHR 0xA9 # s) = CHR 0xC3 # CHR 0xA9 # from_utf8_lossy s" for s
    by (subst from_utf8_lossy.simps) (simp add: utf8_first_def byte_def cont_def numeral_2_eq_2)
  with Suc show ?case by simp
qed

text \<open>C39. The cap may fall inside a character. Cutting the output there and replacing the incomplete character makes the
  text longer than the cap, and the second cut slices it inside the replacement character, which panics: one letter
  followed by enough two-byte characters on the output of a command is valid UTF-8 and brings the call down.\<close>

theorem shell_output_panics:
  "utf8_valid (CHR ''x'' # concat (replicate MAX_OUTPUT_BYTES [CHR 0xC3, CHR 0xA9])) \<and>
   collect_output tool cmd (demo_child (CHR ''x'' # concat (replicate MAX_OUTPUT_BYTES [CHR 0xC3, CHR 0xA9]))) = None"
proof -
  define k where "k = MAX_OUTPUT_BYTES div 2 - 1"
  have M: "MAX_OUTPUT_BYTES = 2 * k + 2" by (simp add: k_def MAX_OUTPUT_BYTES_def)
  let ?e = "[CHR 0xC3, CHR 0xA9]" and ?out = "CHR ''x'' # concat (replicate MAX_OUTPUT_BYTES [CHR 0xC3, CHR 0xA9])"
  have n: "MAX_OUTPUT_BYTES = k + Suc (Suc k)" by (simp add: M)
  have "concat (replicate MAX_OUTPUT_BYTES ?e) = concat (replicate k ?e) @ ?e @ concat (replicate (Suc k) ?e)"
    by (simp only: n replicate_add concat_append replicate_Suc concat.simps)
  then have cut: "take MAX_OUTPUT_BYTES ?out = CHR ''x'' # concat (replicate k ?e) @ [CHR 0xC3]"
    by (simp add: M length_e_acutes)
  let ?t = "CHR ''x'' # concat (replicate k ?e) @ [CHR 0xEF, CHR 0xBF, CHR 0xBD]"
  have "from_utf8_lossy (take MAX_OUTPUT_BYTES ?out) = ?t" by (simp add: cut from_utf8_lossy_e_acutes)
  moreover have "maybe_terminate ?t = None"
    by (simp add: maybe_terminate_def M length_e_acutes is_char_boundary_def byte_def nth_append cont_def)
  moreover have "whole [Inr ?out] = Some ?out" "drained StderrRead StderrReader (Drained []) = Inr ([], False)"
    by (simp_all add: drained_def)
  ultimately have "collect_output tool cmd (demo_child ?out) = None"
    by (simp add: collect_output_def demo_child_def drained_whole finish_def del: whole.simps)
  then show ?thesis by (simp add: utf8_valid_e_acutes)
qed

end
