(* ===== verification/Spec2Isabelle.thy ===== *)
theory Spec2Isabelle
  imports Resource_Manager IR_Builder IR_Serialize Compiler Scheduler Leases Circuit_Breaker Resolver Planner
    Agent_Persistence Agent_Host Http_Tool Shell_Tool
begin

text \<open>
  \<^bold>\<open>Verification of FusionRouter.\<close> FusionRouter routes a request to language models by planning a workflow for
  it, compiling the workflow to an execution graph and running the graph under a budget. Agents keep a JSON state
  that a model patches step by step and act through tools of the host. This library models those parts and proves
  what they promise to each other. All paths below are under \<open>src/\<close>.

  \<^bold>\<open>How the parts interact.\<close> A planning request names an intent and capabilities. The resolver
  (\<open>crates/fusion-planner/src/capability/resolver.rs\<close>) turns requirements into contracts of the registry
  (\<open>crates/fusion-kernel/src/capability\<close>); the planner (\<open>crates/fusion-planner/src/lib.rs\<close>) assembles a chain of
  stages with the builder of \<open>crates/fusion-ir\<close>, which validates it. The compiler (\<open>crates/fusion-compiler\<close>) takes the
  execution IR of \<open>crates/fusion-types\<close> through its passes and lowers it. The scheduler (\<open>crates/fusion-scheduler\<close>)
  runs the graph in waves, charging each node to the budget envelope; resource managers hold the daily quota, leases
  keep workers apart, and a circuit breaker stands before each provider. The agent loop
  (\<open>crates/fusion-agent-state\<close>) is connected to providers and tools by \<open>src/agent/host.rs\<close>; the HTTP, shell and file
  tools (\<open>src/tools\<close>) confine what an agent can reach.

  \<^bold>\<open>Conventions.\<close> A struct is a record, an enum a datatype, a trait object a record of operations. Results are sums
  (\<open>Inl\<close> the error), a panic is \<open>None\<close>. Integers of fixed width are words, \<open>usize\<close> is \<open>nat\<close>, strings are lists of bytes;
  trimming and case folding act on ASCII. A map keyed by strings is an association list in key order; where the code
  iterates over a hash map, the order is a parameter. Third-party code (uuid, semver, serde_json text, SQLite, the HTTP
  client, the operating system) is a parameter; what is assumed of it is a named predicate, and a witness shows that
  the assumption can hold. Effects of such code are functions on a world that they may change.

  \<^bold>\<open>Theories.\<close>
  \<^item> \<open>Fusion_Prelude\<close>, \<open>Rust_Text\<close>, \<open>Utf8\<close>, \<open>Json\<close>: checked and saturating arithmetic, results, text and UTF-8 of the
    standard library, JSON values and ordered maps.
  \<^item> \<open>Interleaving\<close>, \<open>Loops\<close>, \<open>Graph_Search\<close>, \<open>Topo_Sort\<close>: generic algorithms: callers interleaved access by access
    (locale \<open>commit_check\<close>), loops with fuel and a measure (locale \<open>measured_loop\<close>), reachability and three-colour
    search, Kahn's algorithm.
  \<^item> \<open>Monetary\<close> (\<open>crates/fusion-core/src/monetary.rs\<close>): exact money; decimal printing and parsing are inverse.
  \<^item> \<open>Budget\<close> (\<open>crates/fusion-types/src/lib.rs\<close>): \<open>BudgetEnvelope\<close> under any interleaving of its atomic accesses: no
    charge is lost, and once a ceiling is crossed every later caller is refused.
  \<^item> \<open>Resource_Manager\<close> (\<open>src/resource/mod.rs\<close>, \<open>crates/fusion-kernel/src/resource/mod.rs\<close>): the quota contract as the
    locale \<open>quota_manager\<close>, interpreted on both managers, and the race in the release of the stub.
  \<^item> \<open>Workflow_IR\<close>, \<open>IR_Validate\<close>, \<open>IR_Builder\<close>, \<open>IR_Serialize\<close> (\<open>crates/fusion-ir/src\<close>): validation accepts exactly the
    well-formed workflows, what the builder builds is valid, canonical JSON round-trips and the untrusted intake
    rejects what it must.
  \<^item> \<open>Exec_Types\<close>, \<open>Policy\<close>, \<open>Strategy\<close>, \<open>Compiler_Passes\<close>, \<open>Compiler\<close> (\<open>crates/fusion-types/src/lib.rs\<close>,
    \<open>crates/fusion-compiler/src\<close>): the precedence engine, each strategy's expansion, every pass, lowering and the
    engine; what compiles is exactly characterised and the graph is sound.
  \<^item> \<open>Work_Queue\<close>, \<open>Scheduler\<close> (\<open>crates/fusion-scheduler/src\<close>): the queue's counters and the wave loop; a run over an
    acyclic graph ends, runs each node at most once after its predecessors, settles a budget breach and obeys
    cancellation.
  \<^item> \<open>Leases\<close>, \<open>Circuit_Breaker\<close> (\<open>crates/fusion-scheduler/src/leases.rs\<close>, \<open>src/providers/circuit_breaker.rs\<close> and
    \<open>circuit_breaking_provider.rs\<close>): exclusive leases of bounded lifetime; when the breaker opens and how it recovers.
  \<^item> \<open>Capability\<close>, \<open>Resolver\<close>, \<open>Planner\<close> (\<open>crates/fusion-plugin-api/src/lib.rs\<close>, \<open>crates/fusion-kernel/src/capability\<close>,
    \<open>crates/fusion-planner/src\<close>): permissions, registry (locale \<open>contract_source\<close>) and graph; resolution equals the
    closure of its requirements or its first error; the planned workflow is given node by node.
  \<^item> \<open>State_Merge\<close>, \<open>Agent_State\<close>, \<open>Agent_Runner\<close>, \<open>Agent_Persistence\<close> (\<open>crates/fusion-agent-state/src\<close>): merge read path
    by path, schema validation by its rules, the store contract as the locale \<open>state_store_laws\<close>, the event log
    replays to the state, no tool runs before its patch is committed, and the SQLite store refines the one in memory.
  \<^item> \<open>Agent_Host\<close> (\<open>src/agent/host.rs\<close>): what a model's text parses to, a bounded number of attempts, and that a run
    executes only tools every gate admits.
  \<^item> \<open>Http_Tool\<close> (\<open>src/tools/http_tool.rs\<close>): the refused address ranges exactly, and that no internal address is dialled
    even when name resolution changes between check and connection.
  \<^item> \<open>Paths\<close>, \<open>Shell_Tool\<close> (\<open>src/security/paths.rs\<close>, \<open>src/tools/builtin.rs\<close>, \<open>src/plugin/transport.rs\<close>,
    \<open>src/tools/shell_tool.rs\<close>): containment of paths over a file system that changes between any two calls, staging of
    the files a command reads, and the captured output.

  \<^bold>\<open>Fuel and bounds.\<close> The loop of the scheduler is \<open>run_loop\<close> with fuel; the interpretations of \<open>measured_loop\<close> give a
  measure that decreases in every round, so the termination statements say that all sufficiently large fuel gives the
  result, and the statements on runs that never return say that no fuel does. Graph searches, Kahn's
  algorithm, the expansion of dependencies, the failure cascade and the state merge take no fuel: their termination is
  proved by a measure. The agent loop is bounded by \<open>max_steps\<close> as in the code, and all other recursion is on the data.

  \<^bold>\<open>Defects.\<close> Some theorems state behaviour that contradicts a comment of the source; each says so in its text, for
  example that a file swapped for a link before it is opened is staged, that output cut inside a character panics, and
  that a loop node with an edge to itself ignores its iteration limit.

  \<^bold>\<open>Not modelled.\<close> Floating-point code (route scores, the rate limiter, money as \<open>f64\<close>, embedding similarity) and
  latencies; the executor of \<open>crates/fusion-runtime\<close> and the host's providers, transports and connectors, whose effects
  are those of the network and which the models above take as parameters; the HTTP server, middleware, sessions,
  events, telemetry, configuration and dashboards, which are I/O around the modelled parts; the WebAssembly runtime,
  whose behaviour is that of its engine; release tooling, command-line programs and procedural macros; the Windows
  branches of \<open>paths.rs\<close> and \<open>shell_tool.rs\<close>.
\<close>

end
